(* ===== verification/Reka_Prelude.thy ===== *)
theory Reka_Prelude
  imports Main "HOL-Library.Word" "HOL-Library.AList"
begin

text \<open>
  Shared vocabulary of the development: bytes and machine words, Rust results, slices, the
  big-endian encodings of the standard library (\<open>to_be_bytes\<close> / \<open>from_be_bytes\<close>), and the two
  generic interfaces the components use: a fixed-width byte codec and a state machine with an
  invariant. The named collections below gather the rewrite rules that the component theories pass
  to \<open>simp\<close> and \<open>auto\<close>.
\<close>

unbundle bit_operations_syntax

section \<open>Types\<close>

type_synonym byte = "8 word"
type_synonym bytes = "8 word list"
type_synonym u16 = "16 word"
type_synonym u32 = "32 word"
type_synonym u64 = "64 word"

text \<open>
  \<open>Instant\<close> is a point on the monotonic clock and \<open>Duration\<close> a non-negative span, both counted in
  nanoseconds. An instant is an integer because the code subtracts durations from it.
\<close>

type_synonym instant = int
type_synonym duration = nat

text \<open>
  \<open>anyhow::Result\<close>: an error carries its message; a panic (which unwinds instead of returning) is
  kept apart from an error.
\<close>

datatype failure = Bail string | Panic string

type_synonym 'a result = "failure + 'a"

named_theorems reka_defs \<open>definitions unfolded by the component proofs\<close>
named_theorems codec_simps \<open>lengths, slices and decodings of concatenated encodings\<close>

section \<open>Results\<close>

definition and_then :: "'a result \<Rightarrow> ('a \<Rightarrow> 'b result) \<Rightarrow> 'b result" where
  "and_then r f = (case r of Inl e \<Rightarrow> Inl e | Inr x \<Rightarrow> f x)"

text \<open>The \<open>?\<close> operator in a method that changes its receiver: an error returns at once, with the state
  as it is at that point.\<close>

definition attempt :: "'a result \<Rightarrow> 's \<Rightarrow> ('a \<Rightarrow> 'b result \<times> 's) \<Rightarrow> 'b result \<times> 's" where
  "attempt r s f = (case r of Inl e \<Rightarrow> (Inl e, s) | Inr x \<Rightarrow> f x)"

definition ok_or :: "'a option \<Rightarrow> failure \<Rightarrow> 'a result" where
  "ok_or v e = (case v of None \<Rightarrow> Inl e | Some x \<Rightarrow> Inr x)"

text \<open>\<open>checked_add\<close> and \<open>checked_sub\<close> of \<open>usize\<close> on a 64-bit target, lengths being naturals.\<close>

definition usize_checked_add :: "nat \<Rightarrow> nat \<Rightarrow> nat option" where
  "usize_checked_add a b = (if a + b < 2 ^ 64 then Some (a + b) else None)"

definition checked_sub :: "nat \<Rightarrow> nat \<Rightarrow> nat option" where
  "checked_sub a b = (if b \<le> a then Some (a - b) else None)"

text \<open>A slice \<open>xs[a..b]\<close>; every use in the model is under the bound check of the source.\<close>

definition subrange :: "nat \<Rightarrow> nat \<Rightarrow> 'a list \<Rightarrow> 'a list" where
  "subrange a b xs = take (b - a) (drop a xs)"

text \<open>The bytes of a byte-string or string literal.\<close>

definition ascii :: "string \<Rightarrow> bytes" where
  "ascii s = map of_char s"

section \<open>Big-endian encodings\<close>

definition to_be :: "nat \<Rightarrow> 'a::len word \<Rightarrow> bytes" where
  "to_be n w = map (\<lambda>i. ucast (drop_bit (8 * i) w)) (rev [0..<n])"

definition from_be :: "bytes \<Rightarrow> 'a::len word" where
  "from_be bs = foldl (\<lambda>acc b. push_bit 8 acc OR ucast b) 0 bs"

abbreviation be16 :: "u16 \<Rightarrow> bytes" where "be16 \<equiv> to_be 2"
abbreviation be32 :: "u32 \<Rightarrow> bytes" where "be32 \<equiv> to_be 4"
abbreviation be64 :: "u64 \<Rightarrow> bytes" where "be64 \<equiv> to_be 8"

section \<open>Interfaces\<close>

text \<open>A codec of fixed width: what every integer field of the wire formats relies on.\<close>

locale byte_codec =
  fixes enc :: "'a \<Rightarrow> bytes"
    and dec :: "bytes \<Rightarrow> 'a"
    and width :: nat
  assumes length_enc: "length (enc x) = width"
    and dec_enc: "dec (enc x) = x"
    and enc_dec: "length bs = width \<Longrightarrow> enc (dec bs) = bs"
begin

lemma enc_inject: "enc x = enc y \<longleftrightarrow> x = y"
  using dec_enc by metis

lemma enc_append_inject: "enc x @ r = enc y @ s \<longleftrightarrow> x = y \<and> r = s"
  using enc_inject length_enc by (metis append_eq_append_conv)

lemma dec_inject:
  assumes "length bs = width" and "length cs = width"
  shows "dec bs = dec cs \<longleftrightarrow> bs = cs"
  using assms enc_dec by metis

end

text \<open>
  A component driven by events: a step function over its state and an invariant that every step
  keeps. The lemmas lift single-step facts to runs.
\<close>

locale event_machine =
  fixes step :: "'s \<Rightarrow> 'e \<Rightarrow> 's"
    and invar :: "'s \<Rightarrow> bool"
  assumes step_invar: "invar s \<Longrightarrow> invar (step s e)"
begin

lemma run_invar: "invar s \<Longrightarrow> invar (foldl step s es)"
  by (induction es arbitrary: s) (auto simp: step_invar)

lemma run_keeps:
  assumes "\<And>s e. invar s \<Longrightarrow> f (step s e) = f s" and "invar s"
  shows "f (foldl step s es) = f s"
  using assms(2) by (induction es arbitrary: s) (auto simp: step_invar assms(1))

lemma run_mono:
  fixes f :: "'s \<Rightarrow> 'o::preorder"
  assumes "\<And>s e. invar s \<Longrightarrow> f s \<le> f (step s e)" and "invar s"
  shows "f s \<le> f (foldl step s es)"
  using assms(2)
proof (induction es arbitrary: s)
  case (Cons e es)
  have "f s \<le> f (step s e)" and "invar (step s e)"
    using Cons.prems by (auto intro: assms(1) step_invar)
  then show ?case using Cons.IH order_trans by fastforce
qed simp

end

section \<open>Lemmas on results, slices and words\<close>

lemma and_then_simps [simp]:
  "and_then (Inl e) f = Inl e"
  "and_then (Inr x) f = f x"
  by (simp_all add: and_then_def)

lemma and_then_Inr_iff: "and_then r f = Inr y \<longleftrightarrow> (\<exists>x. r = Inr x \<and> f x = Inr y)"
  by (cases r) auto

lemma and_then_Inl_iff:
  "and_then r f = Inl e \<longleftrightarrow> r = Inl e \<or> (\<exists>x. r = Inr x \<and> f x = Inl e)"
  by (cases r) auto

lemma attempt_simps [simp]:
  "attempt (Inl e) s f = (Inl e, s)"
  "attempt (Inr x) s f = f x"
  by (simp_all add: attempt_def)

lemma attempt_Inr_iff: "attempt r s f = (Inr y, t) \<longleftrightarrow> (\<exists>x. r = Inr x \<and> f x = (Inr y, t))"
  by (cases r) auto

lemma case_prod_eq_iff: "(case p of (a, b) \<Rightarrow> f a b) = q \<longleftrightarrow> (\<exists>a b. p = (a, b) \<and> f a b = q)"
  by (cases p) auto

lemma ok_or_simps [simp]:
  "ok_or None e = Inl e"
  "ok_or (Some x) e = Inr x"
  by (simp_all add: ok_or_def)

lemma ok_or_Inr_iff [simp]: "ok_or v e = Inr x \<longleftrightarrow> v = Some x"
  by (cases v) auto

lemma usize_checked_add_Some: "usize_checked_add a b = Some c \<longleftrightarrow> c = a + b \<and> a + b < 2 ^ 64"
  by (auto simp: usize_checked_add_def)

lemma checked_sub_Some: "checked_sub a b = Some c \<longleftrightarrow> b \<le> a \<and> c = a - b"
  by (auto simp: checked_sub_def)

lemma length_subrange [codec_simps]: "b \<le> length xs \<Longrightarrow> length (subrange a b xs) = b - a"
  by (auto simp: subrange_def)

lemma subrange_append1 [codec_simps]: "b \<le> length xs \<Longrightarrow> subrange a b (xs @ ys) = subrange a b xs"
  by (auto simp: subrange_def)

lemma subrange_append2 [codec_simps]:
  "length xs \<le> a \<Longrightarrow> subrange a b (xs @ ys) = subrange (a - length xs) (b - length xs) ys"
  by (simp add: subrange_def)

lemma subrange_all [codec_simps]: "length xs = b \<Longrightarrow> subrange 0 b xs = xs"
  by (simp add: subrange_def)

lemma subrange_Cons [codec_simps]: "0 < a \<Longrightarrow> subrange a b (x # xs) = subrange (a - 1) (b - 1) xs"
  by (cases a) (auto simp: subrange_def)

lemma subrange_append_subrange:
  assumes "a \<le> b" and "b \<le> c"
  shows "subrange a b xs @ subrange b c xs = subrange a c xs"
proof -
  have "c - a = (b - a) + (c - b)" and "drop b xs = drop (b - a) (drop a xs)"
    using assms by simp_all
  then show ?thesis by (simp only: subrange_def take_add)
qed

lemma subrange_0_take: "subrange 0 b xs = take b xs"
  by (simp add: subrange_def)

lemma take_subrange: "take a xs @ subrange a b xs = take b xs" if "a \<le> b"
  using subrange_append_subrange [of 0 a b xs] that by (simp add: subrange_0_take)

lemma length_ascii [simp]: "length (ascii s) = length s"
  by (simp add: ascii_def)

section \<open>Lemmas on the big-endian encodings\<close>

lemma length_to_be [simp, codec_simps]: "length (to_be n w) = n"
  by (simp add: to_be_def)

lemma from_be_snoc: "from_be (bs @ [b]) = push_bit 8 (from_be bs) OR ucast b"
  by (simp add: from_be_def)

text \<open>Bit \<open>i\<close> of the decoded word is bit \<open>i mod 8\<close> of the byte \<open>i div 8\<close> places from the end.\<close>

lemma bit_from_be:
  "bit (from_be bs :: 'a::len word) i \<longleftrightarrow>
     i < LENGTH('a) \<and> i < 8 * length bs \<and> bit (rev bs ! (i div 8)) (i mod 8)"
proof (induction bs arbitrary: i rule: rev_induct)
  case Nil
  then show ?case by (simp add: from_be_def)
next
  case (snoc b bs)
  show ?case
  proof (cases "i < 8")
    case True
    then show ?thesis
      by (auto simp: from_be_snoc bit_or_iff bit_push_bit_iff bit_ucast_iff nth_append)
  next
    case False
    have b: "\<not> bit b i" using False bit_imp_le_length [of b i] by auto
    obtain j where j: "i = j + 8" using False by (metis le_add_diff_inverse2 not_le)
    have n: "rev (bs @ [b]) ! (i div 8) = rev bs ! ((i - 8) div 8)" "i mod 8 = (i - 8) mod 8"
      by (simp_all add: j div_add_self2)
    have "bit (from_be (bs @ [b]) :: 'a word) i \<longleftrightarrow> i < LENGTH('a) \<and> bit (from_be bs :: 'a word) (i - 8)"
      using False b by (simp add: from_be_snoc bit_or_iff bit_push_bit_iff bit_ucast_iff)
    also have "\<dots> \<longleftrightarrow> i < LENGTH('a) \<and> i < 8 * length (bs @ [b]) \<and>
        bit (rev (bs @ [b]) ! (i div 8)) (i mod 8)"
      unfolding snoc.IH n using False by auto
    finally show ?thesis .
  qed
qed

lemma rev_to_be: "rev (to_be n w) = map (\<lambda>i. ucast (drop_bit (8 * i) w)) [0..<n]"
  by (simp add: to_be_def rev_map)

lemma from_be_to_be:
  assumes "LENGTH('a::len) \<le> 8 * n"
  shows "from_be (to_be n (w :: 'a word)) = w"
proof (rule bit_word_eqI)
  fix i
  assume i: "i < LENGTH('a)"
  have "i mod 8 < 8" and "8 * (i div 8) + i mod 8 = i" and "i div 8 < n" using i assms by auto
  with i assms show "bit (from_be (to_be n w) :: 'a word) i \<longleftrightarrow> bit w i"
    by (simp add: bit_from_be rev_to_be bit_ucast_iff bit_drop_bit_eq)
qed

lemma to_be_from_be:
  assumes "length bs = n" and "8 * n \<le> LENGTH('a::len)"
  shows "to_be n (from_be bs :: 'a word) = bs"
proof (rule nth_equalityI)
  fix k
  assume "k < length (to_be n (from_be bs :: 'a word))"
  then have k: "k < n" by simp
  have eq: "to_be n (from_be bs :: 'a word) ! k = ucast (drop_bit (8 * (n - 1 - k)) (from_be bs :: 'a word))"
    using k by (simp add: to_be_def rev_map [symmetric] rev_nth)
  show "to_be n (from_be bs :: 'a word) ! k = bs ! k"
    unfolding eq
  proof (rule bit_word_eqI)
    fix i
    assume "i < LENGTH(8)"
    then have i: "i < 8" by simp
    have "(i + 8 * (n - 1 - k)) div 8 = n - 1 - k" and "(i + 8 * (n - 1 - k)) mod 8 = i"
      using i by simp_all
    moreover have "i + 8 * (n - 1 - k) < 8 * n" using i k by linarith
    moreover have "rev bs ! (n - 1 - k) = bs ! k" using k assms by (simp add: rev_nth)
    ultimately show "bit (ucast (drop_bit (8 * (n - 1 - k)) (from_be bs :: 'a word)) :: byte) i
        \<longleftrightarrow> bit (bs ! k) i"
      using i k assms by (simp add: bit_ucast_iff bit_drop_bit_eq bit_from_be add.commute)
  qed
qed (simp add: assms)

interpretation be16: byte_codec be16 from_be 2
  by unfold_locales (simp_all add: from_be_to_be to_be_from_be)

interpretation be32: byte_codec be32 from_be 4
  by unfold_locales (simp_all add: from_be_to_be to_be_from_be)

interpretation be64: byte_codec be64 from_be 8
  by unfold_locales (simp_all add: from_be_to_be to_be_from_be)

lemmas be_decode [simp, codec_simps] = be16.dec_enc be32.dec_enc be64.dec_enc
lemmas be_encode = be16.enc_dec be32.enc_dec be64.enc_dec
lemmas be_inject [simp] = be16.enc_inject be32.enc_inject be64.enc_inject
lemmas be_append_inject [simp] =
  be16.enc_append_inject be32.enc_append_inject be64.enc_append_inject

end
