(* ===== verification/Reka_Crypto.thy ===== *)
theory Reka_Crypto
  imports Reka_Prelude
begin

text \<open>
  The cryptographic crates the server links (\<open>chacha20poly1305\<close>, \<open>hkdf\<close>, \<open>hmac\<close>, \<open>sha2\<close>,
  \<open>ed25519-dalek\<close>, \<open>x25519-dalek\<close>) as one parameter of the model: a record of functions. What the
  server relies on is named here as predicates over that parameter; properties that need one of them
  take it as a hypothesis. On top of the parameter, the theory models the key-derivation helpers that
  \<open>record.rs\<close>, \<open>rekey.rs\<close> and \<open>main.rs\<close> each define for themselves, and shows that the three agree.
\<close>

section \<open>The primitives\<close>

text \<open>
  An \<open>Hkdf\<close> instance is represented by the bytes of its pseudo-random key. \<open>None\<close> is the error of
  the crate. Keys, nonces, digests and signatures are byte strings.
\<close>

record crypto =
  aead_encrypt :: "bytes \<Rightarrow> bytes \<Rightarrow> bytes \<Rightarrow> bytes \<Rightarrow> bytes option"
  aead_decrypt :: "bytes \<Rightarrow> bytes \<Rightarrow> bytes \<Rightarrow> bytes \<Rightarrow> bytes option"
  hkdf_extract :: "bytes \<Rightarrow> bytes \<Rightarrow> bytes"
  hkdf_from_prk :: "bytes \<Rightarrow> bytes option"
  hkdf_expand :: "bytes \<Rightarrow> bytes \<Rightarrow> nat \<Rightarrow> bytes option"
  hmac_sha256 :: "bytes \<Rightarrow> bytes \<Rightarrow> bytes option"
  sha256 :: "bytes \<Rightarrow> bytes"
  ed25519_sign :: "bytes \<Rightarrow> bytes \<Rightarrow> bytes"
  ed25519_verify :: "bytes \<Rightarrow> bytes \<Rightarrow> bytes \<Rightarrow> bool"
  x25519_public :: "bytes \<Rightarrow> bytes"
  x25519 :: "bytes \<Rightarrow> bytes \<Rightarrow> bytes"

text \<open>
  The contract of ChaCha20-Poly1305 for 32-byte keys and 12-byte nonces: a message of at most 64 KiB
  encrypts to a ciphertext 16 bytes longer, which decrypts to the message under the same key, nonce
  and associated data.
\<close>

definition aead_correct :: "crypto \<Rightarrow> bool" where
  "aead_correct C \<longleftrightarrow>
     (\<forall>k n a m. length k = 32 \<and> length n = 12 \<and> length m \<le> 65536 \<longrightarrow>
        (\<exists>c. aead_encrypt C k n a m = Some c \<and> length c = length m + 16 \<and>
             aead_decrypt C k n a c = Some m))"

text \<open>HKDF-SHA256: a key of at least 32 bytes is accepted, and up to 255 blocks can be produced.\<close>

definition hkdf_total :: "crypto \<Rightarrow> bool" where
  "hkdf_total C \<longleftrightarrow>
     (\<forall>prk. 32 \<le> length prk \<longrightarrow> (\<exists>kdf. hkdf_from_prk C prk = Some kdf)) \<and>
     (\<forall>kdf info n. n \<le> 255 * 32 \<longrightarrow> (\<exists>out. hkdf_expand C kdf info n = Some out \<and> length out = n))"

text \<open>HMAC accepts a key of any length; digests have 32 bytes.\<close>

definition hash_sized :: "crypto \<Rightarrow> bool" where
  "hash_sized C \<longleftrightarrow>
     (\<forall>m. length (sha256 C m) = 32) \<and>
     (\<forall>k m. \<exists>t. hmac_sha256 C k m = Some t \<and> length t = 32)"

section \<open>Helpers of the server around the primitives\<close>

text \<open>\<open>fixed::<N>\<close>: a vector as an array of exactly \<open>N\<close> bytes.\<close>

definition fixed :: "nat \<Rightarrow> bytes \<Rightarrow> bytes result" where
  "fixed n bs = (if length bs = n then Inr bs else Inl (Bail ''invalid fixed-size value''))"

definition full_label :: "string \<Rightarrow> string" where
  "full_label label = ''RekaSerdoba/1 '' @ label"

text \<open>\<open>expand\<close> of \<open>record.rs\<close>.\<close>

definition expand :: "crypto \<Rightarrow> bytes \<Rightarrow> string \<Rightarrow> bytes \<Rightarrow> nat \<Rightarrow> bytes result" where
  "expand C kdf label context len =
     (let full = full_label label in
      if len > 65535 \<or> length full > 255 \<or> length context > 65535
      then Inl (Bail ''HKDF label, context or output too large'')
      else
        let info = be16 (of_nat len) @ [of_nat (length full)] @ ascii full @
                   be16 (of_nat (length context)) @ context
        in ok_or (hkdf_expand C kdf info len) (Bail ''HKDF expand failed''))"

text \<open>\<open>expand_label\<close> of \<open>rekey.rs\<close>: the length is truncated to 16 bits, the other two are checked.\<close>

definition try_from_error :: failure where
  "try_from_error = Bail ''out of range integral type conversion attempted''"

definition u8_try_from :: "nat \<Rightarrow> byte result" where
  "u8_try_from n = (if n < 2 ^ 8 then Inr (of_nat n) else Inl try_from_error)"

definition u16_try_from :: "nat \<Rightarrow> u16 result" where
  "u16_try_from n = (if n < 2 ^ 16 then Inr (of_nat n) else Inl try_from_error)"

definition rekey_expand_label :: "crypto \<Rightarrow> bytes \<Rightarrow> string \<Rightarrow> bytes \<Rightarrow> nat \<Rightarrow> bytes result" where
  "rekey_expand_label C kdf label context len =
     (let full = full_label label in
      and_then (u8_try_from (length full)) (\<lambda>label_len.
      and_then (u16_try_from (length context)) (\<lambda>context_len.
        let info = be16 (of_nat len) @ [label_len] @ ascii full @ be16 context_len @ context
        in ok_or (hkdf_expand C kdf info len) (Bail ''HKDF expand failed''))))"

text \<open>\<open>hmac_bytes\<close>, \<open>hmac_label\<close>, \<open>hash_parts\<close> and \<open>transcript_next\<close> of \<open>rekey.rs\<close>.\<close>

definition hmac_bytes :: "crypto \<Rightarrow> bytes \<Rightarrow> bytes \<Rightarrow> bytes result" where
  "hmac_bytes C key message = ok_or (hmac_sha256 C key message) (Bail ''invalid HMAC key'')"

definition hmac_label :: "crypto \<Rightarrow> bytes \<Rightarrow> string \<Rightarrow> bytes \<Rightarrow> bytes result" where
  "hmac_label C key label context = hmac_bytes C key (ascii label @ context)"

definition hash_parts :: "crypto \<Rightarrow> bytes list \<Rightarrow> bytes" where
  "hash_parts C parts = sha256 C (concat parts)"

definition transcript_next :: "crypto \<Rightarrow> bytes \<Rightarrow> bytes \<Rightarrow> bytes" where
  "transcript_next C previous rec = hash_parts C [previous, rec]"

section \<open>What the helpers return\<close>

text \<open>The unique encoding that all label expansions of the protocol feed to HKDF.\<close>

definition hkdf_info :: "string \<Rightarrow> bytes \<Rightarrow> nat \<Rightarrow> bytes" where
  "hkdf_info label context len =
     be16 (of_nat len) @ [of_nat (length (full_label label))] @ ascii (full_label label) @
     be16 (of_nat (length context)) @ context"

text \<open>The sizes under which the encoding loses nothing.\<close>

definition label_ok :: "string \<Rightarrow> bytes \<Rightarrow> nat \<Rightarrow> bool" where
  "label_ok label context len \<longleftrightarrow>
     len \<le> 65535 \<and> length label \<le> 241 \<and> length context \<le> 65535"

lemma fixed_Inr [simp]: "fixed n bs = Inr r \<longleftrightarrow> r = bs \<and> length bs = n"
  by (auto simp: fixed_def)

lemma length_full_label [simp]: "length (full_label l) = length l + 14"
  by (simp add: full_label_def)

lemma of_nat_word_inject:
  "a < 2 ^ LENGTH('a) \<Longrightarrow> b < 2 ^ LENGTH('a) \<Longrightarrow> (of_nat a :: 'a::len word) = of_nat b \<longleftrightarrow> a = b"
  by (metis mod_less unat_of_nat)

lemma of_char_byte_inject: "(of_char c :: byte) = of_char d \<longleftrightarrow> c = d"
proof
  assume eq: "(of_char c :: byte) = of_char d"
  have "(of_nat (of_char c) :: byte) = of_nat (of_char d)" using eq by (simp add: of_nat_of_char)
  then have "(of_char c :: nat) = of_char d"
    by (subst (asm) of_nat_word_inject) simp_all
  then show "c = d" by simp
qed simp

lemma ascii_inject [simp]: "ascii s = ascii t \<longleftrightarrow> s = t"
  unfolding ascii_def by (rule inj_map_eq_map) (auto simp: inj_def of_char_byte_inject)

lemma hkdf_info_inject:
  assumes "label_ok l c n" and "label_ok l' c' n'"
  shows "hkdf_info l c n = hkdf_info l' c' n' \<longleftrightarrow> l = l' \<and> c = c' \<and> n = n'"
proof
  assume eq: "hkdf_info l c n = hkdf_info l' c' n'"
  have "(of_nat n :: u16) = of_nat n'" and lab: "(of_nat (length l + 14) :: byte) = of_nat (length l' + 14)"
    and rest: "ascii (full_label l) @ be16 (of_nat (length c)) @ c =
      ascii (full_label l') @ be16 (of_nat (length c')) @ c'"
    using eq by (auto simp: hkdf_info_def simp del: of_nat_add)
  then have n: "n = n'" using assms by (subst (asm) of_nat_word_inject) (auto simp: label_ok_def)
  have "length l + 14 = length l' + 14"
    using lab assms by (subst (asm) of_nat_word_inject) (auto simp: label_ok_def)
  then have "ascii (full_label l) = ascii (full_label l')" and "c = c'"
    using rest by (auto simp: append_eq_append_conv)
  then show "l = l' \<and> c = c' \<and> n = n'" using n by (simp add: full_label_def)
qed simp

lemma expand_eq:
  "label_ok l c n \<Longrightarrow> expand C kdf l c n = ok_or (hkdf_expand C kdf (hkdf_info l c n) n) (Bail ''HKDF expand failed'')"
  by (simp add: expand_def label_ok_def hkdf_info_def Let_def)

lemma rekey_expand_label_eq:
  "label_ok l c n \<Longrightarrow> rekey_expand_label C kdf l c n =
     ok_or (hkdf_expand C kdf (hkdf_info l c n) n) (Bail ''HKDF expand failed'')"
  by (simp add: rekey_expand_label_def label_ok_def hkdf_info_def u8_try_from_def u16_try_from_def)

lemma hkdf_total_expand:
  "hkdf_total C \<Longrightarrow> n \<le> 8160 \<Longrightarrow> \<exists>out. hkdf_expand C kdf info n = Some out \<and> length out = n"
  by (simp add: hkdf_total_def)

lemma aead_correctD:
  assumes "aead_correct C" and "length k = 32" and "length n = 12" and "length m \<le> 65536"
  shows "\<exists>c. aead_encrypt C k n a m = Some c \<and> length c = length m + 16 \<and> aead_decrypt C k n a c = Some m"
  using assms by (simp add: aead_correct_def)

lemma hkdf_total_prk: "hkdf_total C \<Longrightarrow> length prk = 32 \<Longrightarrow> \<exists>kdf. hkdf_from_prk C prk = Some kdf"
  by (simp add: hkdf_total_def)

lemma expand_ok:
  assumes "hkdf_total C" and "label_ok l c n" and "n \<le> 8160"
  shows "\<exists>out. expand C kdf l c n = Inr out \<and> length out = n \<and>
    hkdf_expand C kdf (hkdf_info l c n) n = Some out"
proof -
  obtain out where "hkdf_expand C kdf (hkdf_info l c n) n = Some out \<and> length out = n"
    using hkdf_total_expand [OF assms(1,3)] by blast
  then show ?thesis using assms(2) by (simp add: expand_eq)
qed

lemma rekey_expand_label_ok:
  assumes "hkdf_total C" and "label_ok l c n" and "n \<le> 8160"
  shows "\<exists>out. rekey_expand_label C kdf l c n = Inr out \<and> length out = n"
proof -
  obtain out where "hkdf_expand C kdf (hkdf_info l c n) n = Some out \<and> length out = n"
    using hkdf_total_expand [OF assms(1,3)] by blast
  then show ?thesis using assms(2) by (simp add: rekey_expand_label_eq)
qed

lemma hmac_bytes_ok: "hash_sized C \<Longrightarrow> \<exists>t. hmac_bytes C k m = Inr t \<and> length t = 32"
  by (fastforce simp: hash_sized_def hmac_bytes_def)

lemma length_hash_parts: "hash_sized C \<Longrightarrow> length (hash_parts C ps) = 32"
  by (simp add: hash_sized_def hash_parts_def)

section \<open>An instance of the primitives\<close>

text \<open>
  A transparent instance, used only to evaluate the model on concrete inputs: the tag of a message is
  the start of its key, and decryption checks it.
\<close>

definition pad32 :: "bytes \<Rightarrow> bytes" where
  "pad32 bs = take 32 (bs @ replicate 32 0)"

definition clear_crypto :: crypto where
  "clear_crypto =
     \<lparr>aead_encrypt = (\<lambda>k n a m. Some (m @ take 16 k)),
      aead_decrypt = (\<lambda>k n a c.
        if length c < 16 \<or> drop (length c - 16) c \<noteq> take 16 k then None
        else Some (take (length c - 16) c)),
      hkdf_extract = (\<lambda>salt ikm. pad32 (salt @ ikm)),
      hkdf_from_prk = (\<lambda>prk. if length prk < 32 then None else Some prk),
      hkdf_expand = (\<lambda>kdf info n. if n > 8160 then None
        else Some (take n (info @ replicate n 0))),
      hmac_sha256 = (\<lambda>k m. Some (pad32 (rev m @ k))),
      sha256 = (\<lambda>m. pad32 (rev m)),
      ed25519_sign = (\<lambda>sk m. take 64 (pad32 sk @ pad32 m)),
      ed25519_verify = (\<lambda>pk m s. s = take 64 (pad32 pk @ pad32 m)),
      x25519_public = (\<lambda>sk. pad32 sk),
      x25519 = (\<lambda>sk pk. map2 (XOR) (pad32 sk) (pad32 pk))\<rparr>"

lemma length_pad32 [simp]: "length (pad32 bs) = 32"
  by (simp add: pad32_def)

lemma clear_crypto_ok: "aead_correct clear_crypto" "hkdf_total clear_crypto" "hash_sized clear_crypto"
  by (auto simp: aead_correct_def hkdf_total_def hash_sized_def clear_crypto_def)

end
