(* ===== verification/Reka_Replay.thy ===== *)
theory Reka_Replay
  imports Reka_Prelude
begin

text \<open>
  The anti-replay window of a record receiver (\<open>ReplayWindow\<close> in \<open>record.rs\<close>): a ring of bits over
  the record numbers \<open>highest - width < n \<le> highest\<close>, stored in 64-bit words. The model keeps the
  words, masks and saturating arithmetic of the code. It is refined against the set of all numbers
  committed so far, and the interface \<open>duplicate_filter\<close> turns that into the guarantee its client,
  the record receiver, relies on: no number is accepted twice.
\<close>

section \<open>Model\<close>

record replay_window =
  rw_width :: u64
  rw_initialized :: bool
  rw_highest :: u64
  rw_bits :: "u64 list"

definition u64_saturating_add :: "u64 \<Rightarrow> u64 \<Rightarrow> u64" where
  "u64_saturating_add a b = (if unat a + unat b < 2 ^ 64 then a + b else - 1)"

definition replay_new :: "nat \<Rightarrow> replay_window result" where
  "replay_new w =
     (if \<not> (256 \<le> w \<and> w \<le> 16384) \<or> w mod 64 \<noteq> 0 then Inl (Bail ''invalid replay window width'')
      else Inr \<lparr>rw_width = of_nat w, rw_initialized = False, rw_highest = 0,
                rw_bits = replicate (w div 64) 0\<rparr>)"

definition replay_slot :: "replay_window \<Rightarrow> u64 \<Rightarrow> nat \<times> u64" where
  "replay_slot rw number =
     (let offset = number mod rw_width rw
      in (unat (offset div 64), push_bit (unat (offset mod 64)) 1))"

definition replay_plausible :: "replay_window \<Rightarrow> u64 \<Rightarrow> bool" where
  "replay_plausible rw number =
     (if \<not> rw_initialized rw then True
      else if u64_saturating_add number (rw_width rw) \<le> rw_highest rw then False
      else if rw_highest rw < number then True
      else let (word, mask) = replay_slot rw number in rw_bits rw ! word AND mask = 0)"

text \<open>The body of the clearing loop, and the loop over \<open>highest + 1 ..= number\<close>.\<close>

definition replay_clear :: "replay_window \<Rightarrow> u64 list \<Rightarrow> u64 \<Rightarrow> u64 list" where
  "replay_clear rw bs cleared =
     (let (word, mask) = replay_slot rw cleared in bs[word := bs ! word AND NOT mask])"

definition replay_advance :: "replay_window \<Rightarrow> u64 \<Rightarrow> replay_window" where
  "replay_advance rw number =
     (if \<not> rw_initialized rw then rw\<lparr>rw_initialized := True, rw_highest := number\<rparr>
      else if rw_highest rw < number then
        (let distance = number - rw_highest rw;
             bs = (if rw_width rw \<le> distance then map (\<lambda>_. 0) (rw_bits rw)
                   else foldl (replay_clear rw) (rw_bits rw)
                          (map of_nat [unat (rw_highest rw) + 1 ..< unat number + 1]))
         in rw\<lparr>rw_bits := bs, rw_highest := number\<rparr>)
      else rw)"

definition replay_commit_authenticated :: "replay_window \<Rightarrow> u64 \<Rightarrow> bool \<times> replay_window" where
  "replay_commit_authenticated rw number =
     (if \<not> replay_plausible rw number then (False, rw)
      else
        let rw' = replay_advance rw number;
            (word, mask) = replay_slot rw' number
        in if rw_bits rw' ! word AND mask \<noteq> 0 then (False, rw')
           else (True, rw'\<lparr>rw_bits := (rw_bits rw')[word := rw_bits rw' ! word OR mask]\<rparr>))"

section \<open>Abstract view\<close>

text \<open>Slot \<open>k\<close> of a bitmap, and what a well-formed window is.\<close>

definition slot_set :: "u64 list \<Rightarrow> nat \<Rightarrow> bool" where
  "slot_set bs k = bit (bs ! (k div 64)) (k mod 64)"

definition replay_wf :: "replay_window \<Rightarrow> bool" where
  "replay_wf rw \<longleftrightarrow>
     unat (rw_width rw) = 64 * length (rw_bits rw) \<and> 256 \<le> unat (rw_width rw) \<and>
     unat (rw_width rw) \<le> 16384"

text \<open>
  The window described by the set \<open>S\<close> of committed numbers: the bits of the last \<open>width\<close> numbers
  say exactly which of them were committed.
\<close>

definition replay_covers :: "replay_window \<Rightarrow> u64 set \<Rightarrow> bool" where
  "replay_covers rw S \<longleftrightarrow>
     (\<forall>n. unat n \<le> unat (rw_highest rw) \<and> unat (rw_highest rw) < unat n + unat (rw_width rw) \<longrightarrow>
        (slot_set (rw_bits rw) (unat n mod unat (rw_width rw)) \<longleftrightarrow> n \<in> S))"

definition replay_repr :: "replay_window \<Rightarrow> u64 set \<Rightarrow> bool" where
  "replay_repr rw S \<longleftrightarrow>
     replay_wf rw \<and>
     (if rw_initialized rw
      then rw_highest rw \<in> S \<and> (\<forall>n\<in>S. n \<le> rw_highest rw) \<and> replay_covers rw S
      else S = {} \<and> (\<forall>k < unat (rw_width rw). \<not> slot_set (rw_bits rw) k))"

text \<open>
  The numbers the window refuses as too old: at least \<open>width\<close> behind the highest one, the sum being
  cut off at the largest \<open>u64\<close>.
\<close>

definition replay_too_old :: "replay_window \<Rightarrow> u64 \<Rightarrow> bool" where
  "replay_too_old rw n \<longleftrightarrow>
     rw_initialized rw \<and>
     min (unat n + unat (rw_width rw)) (2 ^ 64 - 1) \<le> unat (rw_highest rw)"

text \<open>The numbers accepted by a run of commits, in order, and the state after the run.\<close>

fun accepted_run :: "('s \<Rightarrow> 'n \<Rightarrow> bool \<times> 's) \<Rightarrow> 's \<Rightarrow> 'n list \<Rightarrow> 'n list \<times> 's" where
  "accepted_run commit s [] = ([], s)"
| "accepted_run commit s (n # ns) =
     (let (ok, s') = commit s n; (acc, t) = accepted_run commit s' ns
      in (if ok then n # acc else acc, t))"

section \<open>Interface: a filter that accepts every number at most once\<close>

locale duplicate_filter =
  fixes probe :: "'s \<Rightarrow> 'n \<Rightarrow> bool"
    and commit :: "'s \<Rightarrow> 'n \<Rightarrow> bool \<times> 's"
    and repr :: "'s \<Rightarrow> 'n set \<Rightarrow> bool"
  assumes probe_fresh: "repr s S \<Longrightarrow> probe s n \<Longrightarrow> n \<notin> S"
    and commit_probe: "repr s S \<Longrightarrow> fst (commit s n) = probe s n"
    and commit_accept: "repr s S \<Longrightarrow> probe s n \<Longrightarrow> repr (snd (commit s n)) (insert n S)"
    and commit_reject: "repr s S \<Longrightarrow> \<not> probe s n \<Longrightarrow> snd (commit s n) = s"
begin

lemma commit_repr:
  assumes "repr s S"
  shows "repr (snd (commit s n)) (if fst (commit s n) then insert n S else S)"
  using assms commit_probe commit_accept commit_reject by (cases "probe s n") auto

lemma run_fresh:
  assumes "repr s S"
  shows "distinct (fst (accepted_run commit s ns)) \<and>
    set (fst (accepted_run commit s ns)) \<inter> S = {} \<and>
    repr (snd (accepted_run commit s ns)) (S \<union> set (fst (accepted_run commit s ns)))"
  using assms
proof (induction ns arbitrary: s S)
  case (Cons n ns)
  obtain ok s' where c: "commit s n = (ok, s')" by fastforce
  obtain acc t where a: "accepted_run commit s' ns = (acc, t)" by fastforce
  have r: "repr s' (if ok then insert n S else S)" using commit_repr [OF Cons.prems, of n] c by simp
  have "ok \<Longrightarrow> n \<notin> S" using probe_fresh [OF Cons.prems] commit_probe [OF Cons.prems, of n] c by simp
  with Cons.IH [OF r] show ?case by (cases ok) (auto simp: c a)
qed simp

end

section \<open>Slots and bits\<close>

lemma unat_lt64: "unat (n :: u64) < 2 ^ 64"
  using unsigned_less [of n, where ?'a = nat] by simp

lemma mod_window_inj:
  fixes a b w :: nat
  assumes "a mod w = b mod w" and "a < b + w" and "b < a + w"
  shows "a = b"
proof (cases "a \<le> b")
  case True
  then have "w dvd b - a" using assms(1) by (metis mod_eq_dvd_iff_nat)
  moreover have "b - a < w" using True assms(3) by simp
  ultimately show ?thesis using True by (auto dest: dvd_imp_le)
next
  case False
  then have "w dvd a - b" using assms(1) by (metis mod_eq_dvd_iff_nat nat_le_linear)
  moreover have "a - b < w" using False assms(2) by simp
  ultimately show ?thesis using False by (auto dest: dvd_imp_le)
qed

lemma replay_slot_eq:
  "replay_slot rw n = (let k = unat n mod unat (rw_width rw) in (k div 64, 2 ^ (k mod 64)))"
  by (simp add: replay_slot_def Let_def unat_mod unat_div push_bit_eq_mult)

lemma slot_set_clear:
  assumes "k < 64 * length bs" and "k' < 64 * length bs"
  shows "slot_set (bs[k div 64 := bs ! (k div 64) AND NOT (2 ^ (k mod 64))]) k' \<longleftrightarrow>
    k' \<noteq> k \<and> slot_set bs k'"
proof (cases "k div 64 = k' div 64")
  case True
  then have "k' mod 64 = k mod 64 \<longleftrightarrow> k' = k" by (metis div_mult_mod_eq)
  moreover have "k' mod 64 < 64" and "k div 64 < length bs" using assms by auto
  ultimately show ?thesis
    using True by (auto simp: slot_set_def bit_and_iff bit_not_iff bit_exp_iff)
next
  case False
  then show ?thesis by (auto simp: slot_set_def)
qed

lemma slot_set_mark:
  assumes "k < 64 * length bs" and "k' < 64 * length bs"
  shows "slot_set (bs[k div 64 := bs ! (k div 64) OR 2 ^ (k mod 64)]) k' \<longleftrightarrow>
    k' = k \<or> slot_set bs k'"
proof (cases "k div 64 = k' div 64")
  case True
  then have "k' mod 64 = k mod 64 \<longleftrightarrow> k' = k" by (metis div_mult_mod_eq)
  moreover have "k' mod 64 < 64" and "k mod 64 < 64" and "k div 64 < length bs" using assms by auto
  ultimately show ?thesis
    using True by (auto simp: slot_set_def bit_or_iff bit_exp_iff)
next
  case False
  then show ?thesis by (auto simp: slot_set_def)
qed

lemma slot_masked:
  "bs ! (k div 64) AND (2 ^ (k mod 64)) = 0 \<longleftrightarrow> \<not> slot_set bs k"
  by (simp add: slot_set_def and_exp_eq_0_iff_not_bit)

lemma replay_clear_length [simp]: "length (replay_clear rw bs n) = length bs"
  by (simp add: replay_clear_def replay_slot_eq Let_def)

lemma replay_clear_all:
  assumes "unat (rw_width rw) = 64 * length bs" and "k < unat (rw_width rw)"
  shows "length (foldl (replay_clear rw) bs ns) = length bs \<and>
    (slot_set (foldl (replay_clear rw) bs ns) k \<longleftrightarrow>
       slot_set bs k \<and> (\<forall>n\<in>set ns. unat n mod unat (rw_width rw) \<noteq> k))"
  using assms
proof (induction ns arbitrary: bs)
  case (Cons n ns)
  have "0 < unat (rw_width rw)" using Cons.prems by linarith
  then have "unat n mod unat (rw_width rw) < unat (rw_width rw)" by (rule mod_less_divisor)
  then have "slot_set (replay_clear rw bs n) k \<longleftrightarrow> k \<noteq> unat n mod unat (rw_width rw) \<and> slot_set bs k"
    using Cons.prems by (simp add: replay_clear_def replay_slot_eq Let_def slot_set_clear)
  then show ?case using Cons.IH [of "replay_clear rw bs n"] Cons.prems by auto
qed simp

lemma u64_saturating_add_le:
  "u64_saturating_add a b \<le> c \<longleftrightarrow> min (unat a + unat b) (2 ^ 64 - 1) \<le> unat c"
proof (cases "unat a + unat b < 2 ^ 64")
  case True
  then show ?thesis
    by (simp add: u64_saturating_add_def word_le_nat_alt unat_word_ariths)
next
  case False
  have "unat (- 1 :: u64) = 2 ^ 64 - 1"
    by (simp add: unsigned_minus_1_eq_mask mask_eq_exp_minus_1)
  then show ?thesis using False by (auto simp: u64_saturating_add_def word_le_nat_alt)
qed

section \<open>The window refines the set of committed numbers\<close>

lemma replay_new_repr: "replay_new w = Inr rw \<Longrightarrow> replay_repr rw {} \<and> unat (rw_width rw) = w"
proof -
  assume "replay_new w = Inr rw"
  then have w: "256 \<le> w" "w \<le> 16384" "w mod 64 = 0"
    and rw: "rw = \<lparr>rw_width = of_nat w, rw_initialized = False, rw_highest = 0,
                rw_bits = replicate (w div 64) 0\<rparr>"
    by (auto simp: replay_new_def split: if_splits)
  have "unat (of_nat w :: u64) = w" using w by (simp add: unat_of_nat)
  moreover have "64 * (w div 64) = w" using w by auto
  moreover have "\<not> slot_set (replicate (w div 64) 0) k" if "k < w" for k
    using that w by (auto simp: slot_set_def)
  ultimately show ?thesis using w by (auto simp: rw replay_repr_def replay_wf_def)
qed

lemma replay_new_ok:
  "256 \<le> w \<Longrightarrow> w \<le> 16384 \<Longrightarrow> w mod 64 = 0 \<Longrightarrow> \<exists>rw. replay_new w = Inr rw"
  by (simp add: replay_new_def)

lemma replay_plausible_iff:
  assumes "replay_repr rw S"
  shows "replay_plausible rw n \<longleftrightarrow> n \<notin> S \<and> \<not> replay_too_old rw n"
proof (cases "rw_initialized rw")
  case False
  then show ?thesis using assms by (auto simp: replay_plausible_def replay_repr_def replay_too_old_def)
next
  case init: True
  show ?thesis
  proof (cases "replay_too_old rw n")
    case True
    then show ?thesis using init
      by (simp add: replay_plausible_def replay_too_old_def u64_saturating_add_le)
  next
    case False
    then have w: "unat (rw_highest rw) < unat n + unat (rw_width rw)"
      using init by (auto simp: replay_too_old_def)
    have "replay_plausible rw n \<longleftrightarrow>
        rw_highest rw < n \<or> \<not> slot_set (rw_bits rw) (unat n mod unat (rw_width rw))"
      using False init
      by (simp add: replay_plausible_def replay_too_old_def u64_saturating_add_le replay_slot_eq
          Let_def slot_masked)
    moreover have "rw_highest rw < n \<Longrightarrow> n \<notin> S"
      using assms init by (auto simp: replay_repr_def)
    ultimately show ?thesis using assms init w False
      by (auto simp: replay_repr_def replay_covers_def word_le_nat_alt word_less_nat_alt not_less)
  qed
qed

lemma replay_mod_less: "replay_wf rw \<Longrightarrow> k mod unat (rw_width rw) < unat (rw_width rw)"
  by (rule mod_less_divisor) (auto simp: replay_wf_def)

lemma replay_jump_covers:
  assumes "replay_wf rw" and "\<forall>m\<in>S. m \<le> rw_highest rw" and "rw_highest rw < n"
    and "rw_width rw \<le> n - rw_highest rw"
  shows "replay_covers (rw\<lparr>rw_bits := map (\<lambda>_. 0) (rw_bits rw), rw_highest := n\<rparr>) S"
proof -
  have "unat (rw_width rw) \<le> unat n - unat (rw_highest rw)" and "unat (rw_highest rw) < unat n"
    using assms by (simp_all add: word_le_nat_alt word_less_nat_alt unat_sub)
  then have "m \<notin> S" if "unat n < unat m + unat (rw_width rw)" for m
    using that assms(2) by (fastforce simp: word_le_nat_alt)
  moreover have "\<not> slot_set (map (\<lambda>_. 0) (rw_bits rw)) (k mod unat (rw_width rw))" for k
    using replay_mod_less [OF assms(1), of k] assms(1)
    by (auto simp: slot_set_def replay_wf_def less_mult_imp_div_less mult.commute)
  ultimately show ?thesis by (auto simp: replay_covers_def)
qed

lemma replay_cleared_numbers:
  "c \<in> set (map of_nat [unat h + 1 ..< unat n + 1]) \<longleftrightarrow> unat h < unat c \<and> unat c \<le> unat n"
  for c h n :: u64
proof -
  have n: "unat n < 2 ^ 64" by (rule unat_lt64)
  show ?thesis
  proof
    assume "c \<in> set (map of_nat [unat h + 1 ..< unat n + 1])"
    then obtain k where "k \<in> {unat h + 1 ..< unat n + 1}" and "c = of_nat k"
      unfolding set_map set_upt by (rule imageE) blast
    with n show "unat h < unat c \<and> unat c \<le> unat n" by (auto simp: unat_of_nat)
  next
    assume "unat h < unat c \<and> unat c \<le> unat n"
    then have "unat c \<in> set [unat h + 1 ..< unat n + 1]" by auto
    then have "of_nat (unat c) \<in> set (map of_nat [unat h + 1 ..< unat n + 1] :: u64 list)"
      unfolding set_map by (rule imageI)
    then show "c \<in> set (map of_nat [unat h + 1 ..< unat n + 1])" by simp
  qed
qed

lemma replay_slide_covers:
  fixes rw :: replay_window and n :: u64
  defines "bs \<equiv> foldl (replay_clear rw) (rw_bits rw)
      (map of_nat [unat (rw_highest rw) + 1 ..< unat n + 1])"
  assumes "replay_wf rw" and "\<forall>m\<in>S. m \<le> rw_highest rw" and "replay_covers rw S"
    and "rw_highest rw < n" and "n - rw_highest rw < rw_width rw"
  shows "length bs = length (rw_bits rw) \<and>
    replay_covers (rw\<lparr>rw_bits := bs, rw_highest := n\<rparr>) S"
proof -
  let ?W = "unat (rw_width rw)" and ?H = "unat (rw_highest rw)"
  have W: "?W = 64 * length (rw_bits rw)" using assms(2) by (simp add: replay_wf_def)
  have lt: "?H < unat n" "unat n - ?H < ?W"
    using assms(5,6) by (simp_all add: word_less_nat_alt unat_sub word_le_nat_alt)
  have cleared: "length bs = length (rw_bits rw) \<and> (slot_set bs (k mod ?W) \<longleftrightarrow>
      slot_set (rw_bits rw) (k mod ?W) \<and>
      (\<forall>c::u64. ?H < unat c \<and> unat c \<le> unat n \<longrightarrow> unat c mod ?W \<noteq> k mod ?W))" for k
    using replay_clear_all [OF W replay_mod_less [OF assms(2)]] replay_cleared_numbers
    unfolding bs_def by blast
  have "slot_set bs (unat m mod ?W) \<longleftrightarrow> m \<in> S"
    if m: "unat m \<le> unat n" "unat n < unat m + ?W" for m
  proof (cases "unat m \<le> ?H")
    case True
    have "unat c mod ?W \<noteq> unat m mod ?W" if "?H < unat c" "unat c \<le> unat n" for c :: u64
      using mod_window_inj [of "unat c" ?W "unat m"] that m True by auto
    then show ?thesis using cleared [of "unat m"] assms(4) True m lt
      by (auto simp: replay_covers_def)
  next
    case False
    then have "m \<notin> S" using assms(3) by (auto simp: word_le_nat_alt)
    moreover have "?H < unat m" using False by simp
    ultimately show ?thesis using cleared [of "unat m"] m(1) by blast
  qed
  then show ?thesis using cleared by (auto simp: replay_covers_def)
qed

text \<open>Advancing the window to a plausible number keeps what it says about \<open>S\<close>.\<close>

lemma replay_advance_repr:
  assumes "replay_repr rw S" and "replay_plausible rw n" and rw': "rw' = replay_advance rw n"
  shows "replay_wf rw' \<and> rw_width rw' = rw_width rw \<and> rw_initialized rw' \<and>
    unat n \<le> unat (rw_highest rw') \<and> unat (rw_highest rw') < unat n + unat (rw_width rw') \<and>
    (\<forall>m\<in>S. m \<le> rw_highest rw') \<and> rw_highest rw' \<in> insert n S \<and> replay_covers rw' S"
proof -
  have wf: "replay_wf rw" using assms(1) by (auto simp: replay_repr_def)
  have young: "\<not> replay_too_old rw n" using assms(1,2) replay_plausible_iff by auto
  consider (start) "\<not> rw_initialized rw" | (old) "rw_initialized rw" "n \<le> rw_highest rw"
    | (jump) "rw_initialized rw" "rw_highest rw < n" "rw_width rw \<le> n - rw_highest rw"
    | (slide) "rw_initialized rw" "rw_highest rw < n" "n - rw_highest rw < rw_width rw"
    by force
  then show ?thesis
  proof cases
    case start
    then show ?thesis using assms(1) replay_mod_less [OF wf]
      by (auto simp: rw' replay_advance_def replay_repr_def replay_wf_def replay_covers_def)
  next
    case old
    then have "unat (rw_highest rw) < unat n + unat (rw_width rw)"
      using young by (auto simp: replay_too_old_def)
    moreover have "rw' = rw" using old by (simp add: rw' replay_advance_def not_less)
    ultimately show ?thesis using old assms(1)
      by (auto simp: replay_repr_def word_le_nat_alt)
  next
    case jump
    then show ?thesis using assms(1) wf replay_jump_covers [of rw S n]
      by (auto simp: rw' replay_advance_def replay_repr_def replay_wf_def)
  next
    case slide
    then show ?thesis using assms(1) wf replay_slide_covers [of rw S n]
      by (auto simp: rw' replay_advance_def replay_repr_def replay_wf_def not_le)
  qed
qed

lemma replay_commit_plausible:
  assumes "replay_repr rw S" and "replay_plausible rw n"
  shows "fst (replay_commit_authenticated rw n) \<and>
    replay_repr (snd (replay_commit_authenticated rw n)) (insert n S)"
proof -
  define rw' where "rw' = replay_advance rw n"
  let ?k = "unat n mod unat (rw_width rw')"
  note adv = replay_advance_repr [OF assms rw'_def]
  have k: "?k < 64 * length (rw_bits rw')" using adv replay_mod_less by (metis replay_wf_def)
  have "n \<notin> S" using assms replay_plausible_iff by blast
  then have "\<not> slot_set (rw_bits rw') ?k" using adv by (auto simp: replay_covers_def)
  then have c: "replay_commit_authenticated rw n =
      (True, rw'\<lparr>rw_bits := (rw_bits rw')[?k div 64 := rw_bits rw' ! (?k div 64) OR 2 ^ (?k mod 64)]\<rparr>)"
    using assms(2)
    by (simp add: replay_commit_authenticated_def Let_def replay_slot_eq slot_masked flip: rw'_def)
  have "replay_covers (snd (replay_commit_authenticated rw n)) (insert n S)"
    unfolding c replay_covers_def
  proof (clarsimp, goal_cases)
    case (1 m)
    have "unat m mod unat (rw_width rw') = ?k \<longleftrightarrow> m = n"
      using mod_window_inj [of "unat m" "unat (rw_width rw')" "unat n"] adv 1
      by (auto intro: unsigned_word_eqI)
    moreover have "unat m mod unat (rw_width rw') < 64 * length (rw_bits rw')"
      using adv replay_mod_less by (metis replay_wf_def)
    ultimately show ?case using slot_set_mark [OF k] adv 1 by (auto simp: replay_covers_def)
  qed
  then show ?thesis using adv by (auto simp: c replay_repr_def replay_wf_def word_le_nat_alt)
qed

lemma replay_commit_implausible:
  "\<not> replay_plausible rw n \<Longrightarrow> replay_commit_authenticated rw n = (False, rw)"
  by (simp add: replay_commit_authenticated_def)

interpretation replay: duplicate_filter replay_plausible replay_commit_authenticated replay_repr
proof unfold_locales
  fix rw S n
  assume r: "replay_repr rw S"
  show "replay_plausible rw n \<Longrightarrow> n \<notin> S" using replay_plausible_iff [OF r] by blast
  show "fst (replay_commit_authenticated rw n) = replay_plausible rw n"
    using replay_commit_plausible [OF r] replay_commit_implausible by fastforce
  show "replay_plausible rw n \<Longrightarrow> replay_repr (snd (replay_commit_authenticated rw n)) (insert n S)"
    using replay_commit_plausible [OF r] by blast
  show "\<not> replay_plausible rw n \<Longrightarrow> snd (replay_commit_authenticated rw n) = rw"
    by (simp add: replay_commit_implausible)
qed

lemma replay_increasing_accepted:
  assumes "replay_repr rw S" and "\<forall>n\<in>set ns. \<forall>m\<in>S. m < n" and "sorted_wrt (<) ns"
  shows "fst (accepted_run replay_commit_authenticated rw ns) = ns"
  using assms
proof (induction ns arbitrary: rw S)
  case (Cons n ns)
  have "unat (rw_highest rw) < unat n" if "rw_initialized rw"
    using Cons.prems(1,2) that by (simp add: replay_repr_def word_less_nat_alt)
  moreover have "unat n \<le> 2 ^ 64 - 1" using unat_lt64 [of n] by simp
  ultimately have "\<not> replay_too_old rw n" by (auto simp: replay_too_old_def)
  moreover have "n \<notin> S" using Cons.prems(2) by auto
  ultimately have p: "replay_plausible rw n" using replay_plausible_iff Cons.prems(1) by blast
  note c = replay_commit_plausible [OF Cons.prems(1) p]
  have "\<forall>k\<in>set ns. \<forall>m\<in>insert n S. m < k" using Cons.prems(2,3) by auto
  then have "fst (accepted_run replay_commit_authenticated
      (snd (replay_commit_authenticated rw n)) ns) = ns"
    using Cons.IH [of _ "insert n S"] c Cons.prems(3) by auto
  then show ?case using c by (auto simp: split_beta)
qed simp

section \<open>Properties\<close>

text \<open>C11. \<open>ReplayWindow::commit_authenticated\<close> refines the set of committed numbers: it accepts a
  number exactly when that number was never committed and is not older than the window, returns the
  verdict of the precheck \<open>plausible\<close>, records the accepted number, and leaves the window unchanged
  otherwise.\<close>

theorem replay_window_refines:
  assumes "replay_repr rw S" and "replay_commit_authenticated rw n = (ok, rw')"
  shows "ok = replay_plausible rw n \<and> (ok \<longleftrightarrow> n \<notin> S \<and> \<not> replay_too_old rw n) \<and>
    (if ok then replay_repr rw' (insert n S) else rw' = rw)"
  using replay.commit_probe [OF assms(1), of n] replay.commit_accept [OF assms(1), of n]
    replay.commit_reject [OF assms(1), of n] replay_plausible_iff [OF assms(1), of n] assms(2)
  by auto

theorem replay_window_refines_witness:
  "\<exists>rw rw'. replay_new 256 = Inr rw \<and> replay_commit_authenticated rw 300 = (True, rw') \<and>
     replay_repr rw' {300} \<and> replay_commit_authenticated rw' 300 = (False, rw')"
proof -
  define rw :: replay_window where
    "rw = \<lparr>rw_width = 256, rw_initialized = False, rw_highest = 0, rw_bits = replicate 4 0\<rparr>"
  have new: "replay_new 256 = Inr rw" by (simp add: replay_new_def rw_def)
  obtain ok rw' where c: "replay_commit_authenticated rw 300 = (ok, rw')" by fastforce
  have r: "replay_repr rw {}" using replay_new_repr [OF new] by simp
  have "ok" and r': "replay_repr rw' {300}"
    using replay_window_refines [OF r c] by (auto simp: replay_too_old_def rw_def)
  obtain ok' rw'' where c': "replay_commit_authenticated rw' 300 = (ok', rw'')" by fastforce
  have "replay_commit_authenticated rw' 300 = (False, rw')"
    using replay_window_refines [OF r' c'] c' by auto
  moreover have "replay_commit_authenticated rw 300 = (True, rw')" using c \<open>ok\<close> by simp
  ultimately show ?thesis using new r' by blast
qed

text \<open>From a fresh window of any admissible width, no sequence of commits accepts a number
  twice.\<close>

theorem replay_no_duplicates:
  assumes "replay_new w = Inr rw"
  shows "distinct (fst (accepted_run replay_commit_authenticated rw ns))"
  using replay.run_fresh replay_new_repr [OF assms] by blast

theorem replay_no_duplicates_witness:
  "\<exists>rw. replay_new 4096 = Inr rw \<and>
     distinct (fst (accepted_run replay_commit_authenticated rw [5, 7, 5, 900, 7, 8]))"
proof -
  obtain rw where "replay_new 4096 = Inr rw" using replay_new_ok [of 4096] by auto
  then show ?thesis using replay_no_duplicates by blast
qed

text \<open>The window never rejects traffic that arrives in order: every number of a strictly
  increasing sequence is accepted.\<close>

theorem replay_in_order_accepted:
  assumes "replay_new w = Inr rw" and "sorted_wrt (<) ns"
  shows "fst (accepted_run replay_commit_authenticated rw ns) = ns"
  using replay_increasing_accepted [of rw "{}"] replay_new_repr [OF assms(1)] assms(2) by simp

theorem replay_in_order_accepted_witness:
  "\<exists>rw. replay_new 256 = Inr rw \<and>
     fst (accepted_run replay_commit_authenticated rw [0, 1, 5, 4000, 18446744073709551615]) =
       [0, 1, 5, 4000, 18446744073709551615]"
proof -
  obtain rw where "replay_new 256 = Inr rw" using replay_new_ok [of 256] by auto
  moreover have "sorted_wrt (<) [0, 1, 5, 4000, 18446744073709551615 :: u64]" by simp
  ultimately show ?thesis using replay_in_order_accepted by blast
qed

end
