(* ===== verification/Reka_Record.thy ===== *)
theory Reka_Record
  imports Reka_Crypto Reka_Replay
begin

text \<open>
  The record layer of \<open>record.rs\<close>: traffic keys and their derivation, the 31-byte record header, the
  sender with its atomic record counter, the receiver with its replay window, and the four of them a
  session keeps per epoch. The properties are the header codec, the freshness of AEAD nonces on the
  sending side (also under concurrent calls), and at-most-once authenticated opening on the receiving
  side.
\<close>

section \<open>Keys\<close>

record traffic_key =
  tk_key :: bytes
  tk_iv :: bytes

record epoch_keys =
  ek_c2s_data :: traffic_key
  ek_s2c_data :: traffic_key
  ek_c2s_control :: traffic_key
  ek_s2c_control :: traffic_key

record application_secrets =
  as_epoch_secret :: bytes
  as_migration :: bytes
  as_resumption :: bytes
  as_exporter :: bytes
  as_epoch :: epoch_keys

definition nonce :: "bytes \<Rightarrow> u64 \<Rightarrow> bytes" where
  "nonce iv number = take 4 iv @ map2 (XOR) (drop 4 iv) (be64 number)"

definition traffic_key_derive :: "crypto \<Rightarrow> bytes \<Rightarrow> string \<Rightarrow> bytes \<Rightarrow> traffic_key result" where
  "traffic_key_derive C kdf purpose context =
     and_then (and_then (expand C kdf (purpose @ '' key'') context 32) (fixed 32)) (\<lambda>key.
     and_then (and_then (expand C kdf (purpose @ '' iv'') context 12) (fixed 12)) (\<lambda>iv.
       Inr \<lparr>tk_key = key, tk_iv = iv\<rparr>))"

definition traffic_key_seal :: "crypto \<Rightarrow> traffic_key \<Rightarrow> u64 \<Rightarrow> bytes \<Rightarrow> bytes \<Rightarrow> bytes result" where
  "traffic_key_seal C tk number header plaintext =
     ok_or (aead_encrypt C (tk_key tk) (nonce (tk_iv tk) number) header plaintext)
       (Bail ''record encryption failed'')"

definition traffic_key_open :: "crypto \<Rightarrow> traffic_key \<Rightarrow> u64 \<Rightarrow> bytes \<Rightarrow> bytes \<Rightarrow> bytes result" where
  "traffic_key_open C tk number header ciphertext =
     ok_or (aead_decrypt C (tk_key tk) (nonce (tk_iv tk) number) header ciphertext)
       (Bail ''record authentication failed'')"

definition epoch_keys_derive :: "crypto \<Rightarrow> bytes \<Rightarrow> bytes \<Rightarrow> u32 \<Rightarrow> epoch_keys result" where
  "epoch_keys_derive C epoch_secret session_id epoch =
     and_then (ok_or (hkdf_from_prk C epoch_secret) (Bail ''invalid epoch secret'')) (\<lambda>kdf.
     let context = session_id @ be32 epoch in
     and_then (traffic_key_derive C kdf ''data c2s'' context) (\<lambda>c2s_data.
     and_then (traffic_key_derive C kdf ''data s2c'' context) (\<lambda>s2c_data.
     and_then (traffic_key_derive C kdf ''control c2s'' context) (\<lambda>c2s_control.
     and_then (traffic_key_derive C kdf ''control s2c'' context) (\<lambda>s2c_control.
       Inr \<lparr>ek_c2s_data = c2s_data, ek_s2c_data = s2c_data,
            ek_c2s_control = c2s_control, ek_s2c_control = s2c_control\<rparr>)))))"

definition application_secrets_derive ::
    "crypto \<Rightarrow> bytes \<Rightarrow> bytes \<Rightarrow> bytes \<Rightarrow> application_secrets result" where
  "application_secrets_derive C handshake_kdf transcript session_id =
     and_then (expand C handshake_kdf ''master secret'' transcript 32) (\<lambda>master.
     and_then (ok_or (hkdf_from_prk C master) (Bail ''invalid master secret'')) (\<lambda>master_kdf.
     and_then (and_then (expand C master_kdf ''epoch root'' transcript 32) (fixed 32)) (\<lambda>epoch_secret.
     and_then (and_then (expand C master_kdf ''migration'' transcript 32) (fixed 32)) (\<lambda>migration.
     and_then (and_then (expand C master_kdf ''resumption'' transcript 32) (fixed 32)) (\<lambda>resumption.
     and_then (and_then (expand C master_kdf ''exporter'' transcript 32) (fixed 32)) (\<lambda>exporter.
     and_then (epoch_keys_derive C epoch_secret session_id 0) (\<lambda>epoch.
       Inr \<lparr>as_epoch_secret = epoch_secret, as_migration = migration,
            as_resumption = resumption, as_exporter = exporter, as_epoch = epoch\<rparr>)))))))"

section \<open>The record header\<close>

datatype record_kind = Data | Control

record record_header =
  rh_kind :: record_kind
  rh_key_phase :: bool
  rh_padded :: bool
  rh_session_id :: bytes
  rh_epoch :: u32
  rh_number :: u64
  rh_ciphertext_len :: u16

definition record_header_encode :: "record_header \<Rightarrow> bytes" where
  "record_header_encode h =
     [0x10 OR (case rh_kind h of Data \<Rightarrow> 0 | Control \<Rightarrow> 0x08)
        OR push_bit 2 (of_bool (rh_key_phase h)) OR push_bit 1 (of_bool (rh_padded h))] @
     rh_session_id h @ be32 (rh_epoch h) @ be64 (rh_number h) @ be16 (rh_ciphertext_len h)"

definition record_header_parse :: "bytes \<Rightarrow> record_header result" where
  "record_header_parse encoded =
     (if length encoded < 31 then Inl (Bail ''truncated record header'')
      else
        let version_flags = encoded ! 0 in
        if drop_bit 4 version_flags \<noteq> 1 \<or> version_flags AND 0x01 \<noteq> 0
        then Inl (Bail ''invalid record version or flags'')
        else
          let ciphertext_len = from_be (subrange 29 31 encoded) :: u16 in
          if \<not> (16 \<le> ciphertext_len \<and> ciphertext_len \<le> 4096)
          then Inl (Bail ''invalid ciphertext length'')
          else Inr \<lparr>rh_kind = (if version_flags AND 0x08 \<noteq> 0 then Control else Data),
                    rh_key_phase = (version_flags AND 0x04 \<noteq> 0),
                    rh_padded = (version_flags AND 0x02 \<noteq> 0),
                    rh_session_id = subrange 1 17 encoded,
                    rh_epoch = from_be (subrange 17 21 encoded),
                    rh_number = from_be (subrange 21 29 encoded),
                    rh_ciphertext_len = ciphertext_len\<rparr>)"

section \<open>Sender, receiver and the record layer of an epoch\<close>

record record_sender =
  rs_kind :: record_kind
  rs_session_id :: bytes
  rs_epoch :: u32
  rs_key :: traffic_key
  rs_next_number :: u64

record record_receiver =
  rr_kind :: record_kind
  rr_session_id :: bytes
  rr_epoch :: u32
  rr_key :: traffic_key
  rr_replay :: replay_window

record session_record_layer =
  sl_c2s_data :: record_receiver
  sl_s2c_data :: record_sender
  sl_c2s_control :: record_receiver
  sl_s2c_control :: record_sender

definition max_records_per_epoch :: u64 where
  "max_records_per_epoch = 2 ^ 32"

definition record_sender_new :: "record_kind \<Rightarrow> bytes \<Rightarrow> u32 \<Rightarrow> traffic_key \<Rightarrow> record_sender" where
  "record_sender_new kind session_id epoch key =
     \<lparr>rs_kind = kind, rs_session_id = session_id, rs_epoch = epoch, rs_key = key,
      rs_next_number = 0\<rparr>"

definition sender_header :: "record_sender \<Rightarrow> u64 \<Rightarrow> nat \<Rightarrow> bool \<Rightarrow> record_header" where
  "sender_header s number plaintext_len padded =
     \<lparr>rh_kind = rs_kind s, rh_key_phase = (rs_epoch s AND 1 \<noteq> 0), rh_padded = padded,
      rh_session_id = rs_session_id s, rh_epoch = rs_epoch s, rh_number = number,
      rh_ciphertext_len = of_nat (plaintext_len + 16)\<rparr>"

definition record_sender_seal ::
    "crypto \<Rightarrow> record_sender \<Rightarrow> bytes \<Rightarrow> bool \<Rightarrow> bytes result \<times> record_sender" where
  "record_sender_seal C s plaintext padded =
     (if length plaintext + 16 > 4096 then (Inl (Bail ''record plaintext too large''), s)
      else
        let number = rs_next_number s;
            s1 = s\<lparr>rs_next_number := number + 1\<rparr>
        in if max_records_per_epoch \<le> number
           then (Inl (Bail ''record hard limit reached''),
                 s1\<lparr>rs_next_number := max_records_per_epoch\<rparr>)
           else
             let encoded_header =
                   record_header_encode (sender_header s number (length plaintext) padded)
             in (and_then (traffic_key_seal C (rs_key s) number encoded_header plaintext)
                   (\<lambda>ciphertext. Inr (encoded_header @ ciphertext)), s1))"

definition record_receiver_new ::
    "record_kind \<Rightarrow> bytes \<Rightarrow> u32 \<Rightarrow> traffic_key \<Rightarrow> nat \<Rightarrow> record_receiver result" where
  "record_receiver_new kind session_id epoch key width =
     and_then (replay_new width) (\<lambda>replay.
       Inr \<lparr>rr_kind = kind, rr_session_id = session_id, rr_epoch = epoch, rr_key = key,
            rr_replay = replay\<rparr>)"

definition record_receiver_open ::
    "crypto \<Rightarrow> record_receiver \<Rightarrow> bytes \<Rightarrow> bytes result \<times> record_receiver" where
  "record_receiver_open C r encoded =
     (case record_header_parse encoded of
        Inl e \<Rightarrow> (Inl e, r)
      | Inr header \<Rightarrow>
          if rh_kind header \<noteq> rr_kind r \<or> rh_session_id header \<noteq> rr_session_id r \<or>
             rh_epoch header \<noteq> rr_epoch r \<or> rh_key_phase header \<noteq> (rr_epoch r AND 1 \<noteq> 0)
          then (Inl (Bail ''record context mismatch''), r)
          else if length encoded \<noteq> 31 + unat (rh_ciphertext_len header)
          then (Inl (Bail ''record length mismatch''), r)
          else if \<not> replay_plausible (rr_replay r) (rh_number header)
          then (Inl (Bail ''record rejected by replay precheck''), r)
          else case traffic_key_open C (rr_key r) (rh_number header) (take 31 encoded)
                 (drop 31 encoded) of
            Inl e \<Rightarrow> (Inl e, r)
          | Inr plaintext \<Rightarrow>
              let (ok, replay) = replay_commit_authenticated (rr_replay r) (rh_number header);
                  r' = r\<lparr>rr_replay := replay\<rparr>
              in if ok then (Inr plaintext, r') else (Inl (Bail ''record replayed''), r'))"

definition session_record_layer_new ::
    "bytes \<Rightarrow> u32 \<Rightarrow> epoch_keys \<Rightarrow> nat \<Rightarrow> session_record_layer result" where
  "session_record_layer_new session_id epoch keys width =
     and_then (record_receiver_new Data session_id epoch (ek_c2s_data keys) width) (\<lambda>c2s_data.
     and_then (record_receiver_new Control session_id epoch (ek_c2s_control keys) width) (\<lambda>c2s_control.
       Inr \<lparr>sl_c2s_data = c2s_data,
            sl_s2c_data = record_sender_new Data session_id epoch (ek_s2c_data keys),
            sl_c2s_control = c2s_control,
            sl_s2c_control = record_sender_new Control session_id epoch (ek_s2c_control keys)\<rparr>))"

text \<open>
  \<open>seal\<close> takes \<open>&self\<close>: threads may interleave between the atomic \<open>fetch_add\<close> and the atomic
  \<open>store\<close>. The state of such a run is the counter, how many callers sit between the two operations,
  and the numbers handed to the cipher so far, latest first.
\<close>

record seal_race =
  race_counter :: u64
  race_stalled :: nat
  race_issued :: "u64 list"

inductive race_step :: "seal_race \<Rightarrow> seal_race \<Rightarrow> bool" where
  fetch_issue:
    "race_counter s < max_records_per_epoch \<Longrightarrow>
     race_step s (s\<lparr>race_counter := race_counter s + 1,
                    race_issued := race_counter s # race_issued s\<rparr>)"
| fetch_limit:
    "max_records_per_epoch \<le> race_counter s \<Longrightarrow>
     race_step s (s\<lparr>race_counter := race_counter s + 1, race_stalled := race_stalled s + 1\<rparr>)"
| store_limit:
    "0 < race_stalled s \<Longrightarrow>
     race_step s (s\<lparr>race_counter := max_records_per_epoch, race_stalled := race_stalled s - 1\<rparr>)"

inductive_cases race_stepE: "race_step s t"

text \<open>Runs in which at most \<open>limit\<close> callers are ever between the two operations.\<close>

inductive race_reachable :: "nat \<Rightarrow> seal_race \<Rightarrow> bool" for limit where
  start: "race_reachable limit \<lparr>race_counter = 0, race_stalled = 0, race_issued = []\<rparr>"
| step: "race_reachable limit s \<Longrightarrow> race_step s t \<Longrightarrow> race_stalled t \<le> limit \<Longrightarrow>
    race_reachable limit t"

section \<open>Specification\<close>

definition record_header_wf :: "record_header \<Rightarrow> bool" where
  "record_header_wf h \<longleftrightarrow>
     length (rh_session_id h) = 16 \<and> 16 \<le> rh_ciphertext_len h \<and> rh_ciphertext_len h \<le> 4096"

definition traffic_key_wf :: "traffic_key \<Rightarrow> bool" where
  "traffic_key_wf tk \<longleftrightarrow> length (tk_key tk) = 32 \<and> length (tk_iv tk) = 12"

text \<open>What of a sender and of a receiver never changes.\<close>

definition sender_ctx :: "record_sender \<Rightarrow> record_kind \<times> bytes \<times> u32 \<times> traffic_key" where
  "sender_ctx s = (rs_kind s, rs_session_id s, rs_epoch s, rs_key s)"

definition receiver_ctx :: "record_receiver \<Rightarrow> record_kind \<times> bytes \<times> u32 \<times> traffic_key" where
  "receiver_ctx r = (rr_kind r, rr_session_id r, rr_epoch r, rr_key r)"

text \<open>What the receiver checks of a header, and that both ends share their context and key.\<close>

definition header_for :: "record_receiver \<Rightarrow> record_header \<Rightarrow> bool" where
  "header_for r h \<longleftrightarrow> rh_kind h = rr_kind r \<and> rh_session_id h = rr_session_id r \<and>
     rh_epoch h = rr_epoch r \<and> rh_key_phase h = (rr_epoch r AND 1 \<noteq> 0)"

definition record_peers :: "record_sender \<Rightarrow> record_receiver \<Rightarrow> bool" where
  "record_peers s r \<longleftrightarrow> sender_ctx s = receiver_ctx r"

definition record_sender_wf :: "record_sender \<Rightarrow> bool" where
  "record_sender_wf s \<longleftrightarrow> length (rs_session_id s) = 16 \<and> traffic_key_wf (rs_key s) \<and>
     rs_next_number s \<le> max_records_per_epoch"

text \<open>Opening a sequence of inputs: what was opened, as number and plaintext, and the final state.\<close>

fun open_run :: "crypto \<Rightarrow> record_receiver \<Rightarrow> bytes list \<Rightarrow> (u64 \<times> bytes) list \<times> record_receiver" where
  "open_run C r [] = ([], r)"
| "open_run C r (e # es) =
     (let (res, r') = record_receiver_open C r e; (out, t) = open_run C r' es
      in (case (record_header_parse e, res) of
            (Inr h, Inr p) \<Rightarrow> (rh_number h, p) # out
          | _ \<Rightarrow> out, t))"

fun seal_run :: "crypto \<Rightarrow> record_sender \<Rightarrow> (bytes \<times> bool) list \<Rightarrow> bytes list \<times> record_sender" where
  "seal_run C s [] = ([], s)"
| "seal_run C s ((p, padded) # ps) =
     (let (res, s') = record_sender_seal C s p padded; (out, t) = seal_run C s' ps
      in (case res of Inl _ \<Rightarrow> out | Inr e \<Rightarrow> e # out, t))"

section \<open>The header codec\<close>

lemma version_flags_decode:
  fixes k kp pd :: bool
  defines "b \<equiv> (0x10 OR (if k then 0x08 else 0) OR push_bit 2 (of_bool kp) OR push_bit 1 (of_bool pd) :: byte)"
  shows "drop_bit 4 b = 1" "b AND 1 = 0" "b AND 8 \<noteq> 0 \<longleftrightarrow> k" "b AND 4 \<noteq> 0 \<longleftrightarrow> kp" "b AND 2 \<noteq> 0 \<longleftrightarrow> pd"
  unfolding b_def by (cases k; cases kp; cases pd; simp)+

lemma version_flags_encode:
  fixes b :: byte
  assumes "drop_bit 4 b = 1" and "b AND 1 = 0"
  shows "0x10 OR (if b AND 8 \<noteq> 0 then 0x08 else 0) OR push_bit 2 (of_bool (b AND 4 \<noteq> 0))
    OR push_bit 1 (of_bool (b AND 2 \<noteq> 0)) = b"
proof (rule bit_word_eqI)
  fix i
  assume "i < LENGTH(8)"
  then have i: "i \<in> {0, 1, 2, 3, 4, 5, 6, 7}" by auto
  have top: "bit b (4 + j) \<longleftrightarrow> j = 0" for j
    using assms(1) by (metis bit_1_iff bit_drop_bit_eq comp_apply)
  have t4: "bit b 4" "\<not> bit b 5" "\<not> bit b 6" "\<not> bit b 7"
    using top [of 0] top [of 1] top [of 2] top [of 3] by simp_all
  have low: "\<not> bit b 0" using assms(2) by (simp add: and_one_eq bit_0 odd_iff_mod_2_eq_one)
  have pick: "b AND 8 \<noteq> 0 \<longleftrightarrow> bit b 3" "b AND 4 \<noteq> 0 \<longleftrightarrow> bit b 2" "b AND 2 \<noteq> 0 \<longleftrightarrow> bit b 1"
    using and_exp_eq_0_iff_not_bit [of b 3] and_exp_eq_0_iff_not_bit [of b 2]
      and_exp_eq_0_iff_not_bit [of b 1] by simp_all
  show "bit (0x10 OR (if b AND 8 \<noteq> 0 then 0x08 else 0) OR push_bit 2 (of_bool (b AND 4 \<noteq> 0))
    OR push_bit 1 (of_bool (b AND 2 \<noteq> 0)) :: byte) i \<longleftrightarrow> bit b i"
    unfolding pick using i t4 low by (elim insertE emptyE) auto
qed

lemma kind_flag: "(case k of Data \<Rightarrow> 0 | Control \<Rightarrow> 0x08) = (if k = Control then 0x08 else 0 :: byte)"
  by (cases k) auto

lemma length_record_header_encode [simp]:
  "length (record_header_encode h) = 15 + length (rh_session_id h)"
  by (simp add: record_header_encode_def)

lemma record_header_parse_encode:
  assumes "record_header_wf h"
  shows "record_header_parse (record_header_encode h @ rest) = Inr h"
proof -
  have sid: "length (rh_session_id h) = 16" and len: "16 \<le> rh_ciphertext_len h" "rh_ciphertext_len h \<le> 4096"
    using assms by (auto simp: record_header_wf_def)
  note flags = version_flags_decode [of "rh_kind h = Control" "rh_key_phase h" "rh_padded h"]
  show ?thesis
    using sid len flags by (cases h; cases "rh_kind h")
      (simp_all add: record_header_parse_def record_header_encode_def Let_def codec_simps)
qed

lemma record_header_encode_parse:
  assumes "record_header_parse bs = Inr h"
  shows "record_header_wf h \<and> 31 \<le> length bs \<and> take 31 bs = record_header_encode h"
proof -
  let ?b = "bs ! 0"
  have len: "31 \<le> length bs" and b: "drop_bit 4 ?b = 1" "?b AND 1 = 0"
    and h: "h = \<lparr>rh_kind = (if ?b AND 0x08 \<noteq> 0 then Control else Data),
      rh_key_phase = (?b AND 0x04 \<noteq> 0), rh_padded = (?b AND 0x02 \<noteq> 0),
      rh_session_id = subrange 1 17 bs, rh_epoch = from_be (subrange 17 21 bs),
      rh_number = from_be (subrange 21 29 bs), rh_ciphertext_len = from_be (subrange 29 31 bs)\<rparr>"
    and wf: "record_header_wf h"
    using assms by (auto simp: record_header_parse_def record_header_wf_def Let_def codec_simps
        split: if_splits)
  have one: "take 1 bs = [?b]" using len by (cases bs) auto
  have "record_header_encode h =
      [?b] @ subrange 1 17 bs @ subrange 17 21 bs @ subrange 21 29 bs @ subrange 29 31 bs"
    using len version_flags_encode [OF b]
    by (auto simp: h record_header_encode_def kind_flag be_encode codec_simps split: if_splits)
  also have "\<dots> = take 31 bs"
    by (simp add: subrange_append_subrange take_subrange flip: one)
  finally show ?thesis using len wf by simp
qed

lemma record_header_parse_iff:
  "record_header_parse bs = Inr h \<longleftrightarrow>
     record_header_wf h \<and> 31 \<le> length bs \<and> take 31 bs = record_header_encode h"
  using record_header_encode_parse record_header_parse_encode append_take_drop_id by metis

section \<open>Nonces and keys\<close>

lemma length_nonce: "length iv = 12 \<Longrightarrow> length (nonce iv n) = 12"
  by (simp add: nonce_def)

lemma map2_xor_cancel:
  fixes xs ys zs :: bytes
  assumes "length ys = length xs" and "length zs = length xs"
  shows "map2 (XOR) xs ys = map2 (XOR) xs zs \<longleftrightarrow> ys = zs"
  using assms
proof (induction xs arbitrary: ys zs)
  case (Cons x xs)
  then show ?case
    by (cases ys; cases zs; simp) (metis xor.left_commute xor.right_neutral xor_self_eq)
qed simp

lemma traffic_key_derive_ok:
  assumes "hkdf_total C" and "length p \<le> 200" and "length c \<le> 65535"
  shows "\<exists>tk. traffic_key_derive C kdf p c = Inr tk \<and> traffic_key_wf tk \<and>
    hkdf_expand C kdf (hkdf_info (p @ '' key'') c 32) 32 = Some (tk_key tk) \<and>
    hkdf_expand C kdf (hkdf_info (p @ '' iv'') c 12) 12 = Some (tk_iv tk)"
proof -
  have ok: "label_ok (p @ '' key'') c 32" "label_ok (p @ '' iv'') c 12"
    using assms(2,3) by (simp_all add: label_ok_def)
  obtain key where "expand C kdf (p @ '' key'') c 32 = Inr key" "length key = 32"
    "hkdf_expand C kdf (hkdf_info (p @ '' key'') c 32) 32 = Some key"
    using expand_ok [OF assms(1) ok(1)] by auto
  moreover obtain iv where "expand C kdf (p @ '' iv'') c 12 = Inr iv" "length iv = 12"
    "hkdf_expand C kdf (hkdf_info (p @ '' iv'') c 12) 12 = Some iv"
    using expand_ok [OF assms(1) ok(2)] by auto
  ultimately show ?thesis by (simp add: traffic_key_derive_def traffic_key_wf_def fixed_def)
qed

definition epoch_keys_wf :: "epoch_keys \<Rightarrow> bool" where
  "epoch_keys_wf k \<longleftrightarrow> traffic_key_wf (ek_c2s_data k) \<and> traffic_key_wf (ek_s2c_data k) \<and>
     traffic_key_wf (ek_c2s_control k) \<and> traffic_key_wf (ek_s2c_control k)"

lemma epoch_keys_derive_ok:
  assumes "hkdf_total C" and "length secret = 32" and "length sid = 16"
  shows "\<exists>keys. epoch_keys_derive C secret sid epoch = Inr keys \<and> epoch_keys_wf keys"
proof -
  obtain kdf where "hkdf_from_prk C secret = Some kdf" using hkdf_total_prk assms by blast
  moreover have "\<exists>tk. traffic_key_derive C kdf p (sid @ be32 epoch) = Inr tk \<and> traffic_key_wf tk"
    if "length p \<le> 200" for p
    using traffic_key_derive_ok [OF assms(1) that, of "sid @ be32 epoch" kdf] assms(3) by auto
  from this [of "''data c2s''"] this [of "''data s2c''"] this [of "''control c2s''"]
    this [of "''control s2c''"]
  obtain a b c d where
    "traffic_key_derive C kdf ''data c2s'' (sid @ be32 epoch) = Inr a"
    "traffic_key_derive C kdf ''data s2c'' (sid @ be32 epoch) = Inr b"
    "traffic_key_derive C kdf ''control c2s'' (sid @ be32 epoch) = Inr c"
    "traffic_key_derive C kdf ''control s2c'' (sid @ be32 epoch) = Inr d"
    "traffic_key_wf a" "traffic_key_wf b" "traffic_key_wf c" "traffic_key_wf d"
    by auto
  ultimately show ?thesis by (simp add: epoch_keys_derive_def epoch_keys_wf_def)
qed

section \<open>Sender\<close>

lemma unat_max_records [simp]: "unat max_records_per_epoch = 2 ^ 32"
  by (simp add: max_records_per_epoch_def)

lemma sender_header_wf:
  assumes "length (rs_session_id s) = 16" and "n + 16 \<le> 4096"
  shows "record_header_wf (sender_header s number n padded)"
    and "unat (rh_ciphertext_len (sender_header s number n padded)) = n + 16"
proof -
  have u: "unat (of_nat (n + 16) :: u16) = n + 16"
    using assms(2) by (subst unat_of_nat) simp
  then show "unat (rh_ciphertext_len (sender_header s number n padded)) = n + 16"
    by (simp add: sender_header_def)
  show "record_header_wf (sender_header s number n padded)"
    using assms u by (simp add: record_header_wf_def sender_header_def word_le_nat_alt)
qed

text \<open>Every outcome of \<open>seal\<close>: only the counter changes, and it never decreases.\<close>

lemma record_sender_seal_cases:
  assumes "record_sender_seal C s p padded = (res, s')" and "record_sender_wf s"
  shows "record_sender_wf s' \<and> sender_ctx s' = sender_ctx s \<and>
    unat (rs_next_number s) \<le> unat (rs_next_number s') \<and>
    (case res of Inl e \<Rightarrow> \<exists>m. e = Bail m
     | Inr rec \<Rightarrow> unat (rs_next_number s) < 2 ^ 32 \<and>
         unat (rs_next_number s') = unat (rs_next_number s) + 1 \<and>
         (\<exists>ct. rec = record_header_encode (sender_header s (rs_next_number s) (length p) padded) @ ct) \<and>
         record_header_parse rec = Inr (sender_header s (rs_next_number s) (length p) padded))"
proof -
  let ?n = "rs_next_number s"
  consider (large) "length p + 16 > 4096" | (limit) "length p + 16 \<le> 4096" "max_records_per_epoch \<le> ?n"
    | (send) "length p + 16 \<le> 4096" "unat ?n < 2 ^ 32"
    unfolding word_le_nat_alt unat_max_records by linarith
  then show ?thesis
  proof cases
    case large
    then show ?thesis using assms by (auto simp: record_sender_seal_def)
  next
    case limit
    then have "?n = max_records_per_epoch" using assms(2) by (auto simp: record_sender_wf_def)
    then show ?thesis using limit assms by (auto simp: record_sender_seal_def record_sender_wf_def sender_ctx_def)
  next
    case send
    have n1: "unat (?n + 1) = unat ?n + 1"
      using send(2) by (simp add: unat_word_ariths)
    have "\<not> max_records_per_epoch \<le> ?n" using send(2) by (simp add: word_le_nat_alt)
    then have eq: "res = and_then (traffic_key_seal C (rs_key s) ?n
        (record_header_encode (sender_header s ?n (length p) padded)) p)
        (\<lambda>ct. Inr (record_header_encode (sender_header s ?n (length p) padded) @ ct))"
      "s' = s\<lparr>rs_next_number := ?n + 1\<rparr>"
      using assms(1) send(1) by (auto simp: record_sender_seal_def Let_def)
    have sid: "length (rs_session_id s) = 16" using assms(2) by (simp add: record_sender_wf_def)
    have wf: "record_sender_wf s'"
      using assms(2) send(2) n1 by (simp add: eq record_sender_wf_def word_le_nat_alt)
    show ?thesis
      using wf n1 send(2) record_header_parse_encode [OF sender_header_wf(1) [OF sid send(1)]]
      by (auto simp: eq traffic_key_seal_def sender_ctx_def split: sum.splits)
        (auto simp: ok_or_def split: option.splits)
  qed
qed

lemma seal_run_numbers:
  assumes "record_sender_wf s"
  shows "\<exists>hs. map record_header_parse (fst (seal_run C s ps)) = map Inr hs \<and>
    sorted_wrt (<) (map rh_number hs) \<and>
    (\<forall>h\<in>set hs. rs_next_number s \<le> rh_number h \<and> rh_number h < max_records_per_epoch \<and>
       rh_kind h = rs_kind s \<and> rh_session_id h = rs_session_id s \<and> rh_epoch h = rs_epoch s)"
  using assms
proof (induction ps arbitrary: s)
  case (Cons q ps)
  obtain p padded where q: "q = (p, padded)" by fastforce
  obtain res s' where seal: "record_sender_seal C s p padded = (res, s')" by fastforce
  note c = record_sender_seal_cases [OF seal Cons.prems]
  obtain hs where hs: "map record_header_parse (fst (seal_run C s' ps)) = map Inr hs"
    "sorted_wrt (<) (map rh_number hs)"
    "\<forall>h\<in>set hs. rs_next_number s' \<le> rh_number h \<and> rh_number h < max_records_per_epoch \<and>
       rh_kind h = rs_kind s' \<and> rh_session_id h = rs_session_id s' \<and> rh_epoch h = rs_epoch s'"
    using Cons.IH c by blast
  have ctx: "rs_kind s' = rs_kind s" "rs_session_id s' = rs_session_id s" "rs_epoch s' = rs_epoch s"
    using c by (auto simp: sender_ctx_def)
  show ?case
  proof (cases res)
    case (Inl e)
    then show ?thesis using hs c ctx
      by (intro exI [of _ hs]) (auto simp: q seal split_beta word_le_nat_alt)
  next
    case (Inr rec)
    let ?h = "sender_header s (rs_next_number s) (length p) padded"
    have "rh_number ?h = rs_next_number s" "rh_kind ?h = rs_kind s"
      "rh_session_id ?h = rs_session_id s" "rh_epoch ?h = rs_epoch s"
      by (simp_all add: sender_header_def)
    moreover have "rs_next_number s < rs_next_number s'" "rs_next_number s < max_records_per_epoch"
      using Inr c by (auto simp: word_less_nat_alt)
    ultimately show ?thesis using Inr hs c ctx
      by (intro exI [of _ "?h # hs"]) (fastforce simp: q seal split_beta)
  qed
qed simp

section \<open>Concurrent callers of \<open>seal\<close>\<close>

lemma race_counter_invar:
  assumes "race_reachable limit s" and "limit < 2 ^ 63"
  shows "unat (race_counter s) \<le> 2 ^ 32 + race_stalled s \<and> race_stalled s \<le> limit \<and>
    distinct (race_issued s) \<and> (\<forall>n\<in>set (race_issued s). n < race_counter s \<and> n < max_records_per_epoch)"
  using assms(1)
proof induction
  case (step s t)
  have st: "race_stalled s < 2 ^ 63" using step.IH assms(2) by linarith
  then have inc: "unat (race_counter s + 1) = unat (race_counter s) + 1"
    using step.IH by (simp add: unat_word_ariths)
  from step.hyps(2) show ?case
    by (rule race_stepE) (use step.IH step.hyps(3) inc in \<open>auto simp: word_less_nat_alt less_Suc_eq\<close>)
qed simp

section \<open>Receiver\<close>

text \<open>Every outcome of \<open>open\<close>: an error leaves the receiver as it was; success means the header
  belongs to this receiver, its number is new, and the AEAD accepted the record.\<close>

lemma record_receiver_open_cases:
  assumes "record_receiver_open C r e = (res, r')" and "replay_repr (rr_replay r) S"
  shows "case res of
      Inl err \<Rightarrow> r' = r \<and> (\<exists>m. err = Bail m)
    | Inr p \<Rightarrow> \<exists>h. record_header_parse e = Inr h \<and> header_for r h \<and>
        length e = 31 + unat (rh_ciphertext_len h) \<and> rh_number h \<notin> S \<and>
        aead_decrypt C (tk_key (rr_key r)) (nonce (tk_iv (rr_key r)) (rh_number h))
          (take 31 e) (drop 31 e) = Some p \<and>
        receiver_ctx r' = receiver_ctx r \<and> replay_repr (rr_replay r') (insert (rh_number h) S)"
proof (cases "record_header_parse e")
  case (Inl err)
  moreover have "\<exists>m. err = Bail m"
    using Inl by (auto simp: record_header_parse_def Let_def split: if_splits)
  ultimately show ?thesis using assms(1) by (auto simp: record_receiver_open_def)
next
  case (Inr h)
  let ?n = "rh_number h"
  obtain ok w where c: "replay_commit_authenticated (rr_replay r) ?n = (ok, w)" by fastforce
  have "ok = replay_plausible (rr_replay r) ?n"
    using replay.commit_probe [OF assms(2), of ?n] c by simp
  moreover have "replay_plausible (rr_replay r) ?n \<Longrightarrow> replay_repr w (insert ?n S) \<and> ?n \<notin> S"
    using replay.commit_accept [OF assms(2), of ?n] replay.probe_fresh [OF assms(2)] c by simp
  ultimately show ?thesis using assms(1) Inr
    by (auto simp: record_receiver_open_def header_for_def traffic_key_open_def c ok_or_def receiver_ctx_def
        split: if_splits option.splits)
qed

lemma open_run_fresh:
  assumes "replay_repr (rr_replay r) S"
  shows "distinct (map fst (fst (open_run C r es))) \<and> fst ` set (fst (open_run C r es)) \<inter> S = {}"
  using assms
proof (induction es arbitrary: r S)
  case (Cons e es)
  obtain res r' where o: "record_receiver_open C r e = (res, r')" by fastforce
  note c = record_receiver_open_cases [OF o Cons.prems]
  show ?case
  proof (cases res)
    case (Inl err)
    then show ?thesis using c Cons by (auto simp: o split_beta split: sum.splits)
  next
    case (Inr p)
    then obtain h where h: "record_header_parse e = Inr h" "rh_number h \<notin> S"
      "replay_repr (rr_replay r') (insert (rh_number h) S)" using c by auto
    show ?thesis using Cons.IH [OF h(3)] h Inr by (auto simp: o split_beta)
  qed
qed simp

lemma record_open_seal:
  assumes "aead_correct C" and "record_sender_wf s" and "record_peers s r"
    and "replay_repr (rr_replay r) S" and "rs_next_number s \<notin> S"
    and "\<not> replay_too_old (rr_replay r) (rs_next_number s)"
    and "rs_next_number s < max_records_per_epoch" and "length p \<le> 4080"
  shows "\<exists>e s' r'. record_sender_seal C s p padded = (Inr e, s') \<and>
    record_receiver_open C r e = (Inr p, r') \<and>
    rs_next_number s' = rs_next_number s + 1 \<and>
    replay_repr (rr_replay r') (insert (rs_next_number s) S) \<and> length e = length p + 47 \<and>
    record_receiver_open C r' e = (Inl (Bail ''record rejected by replay precheck''), r')"
proof -
  let ?n = "rs_next_number s" and ?h = "sender_header s (rs_next_number s) (length p) padded"
  let ?a = "record_header_encode ?h" and ?iv = "nonce (tk_iv (rs_key s)) ?n"
  have key: "length (tk_key (rs_key s)) = 32" "length ?iv = 12" and sid: "length (rs_session_id s) = 16"
    using assms(2) by (auto simp: record_sender_wf_def traffic_key_wf_def length_nonce)
  obtain ct where ct: "aead_encrypt C (tk_key (rs_key s)) ?iv ?a p = Some ct" "length ct = length p + 16"
    "aead_decrypt C (tk_key (rs_key s)) ?iv ?a ct = Some p"
    using aead_correctD [OF assms(1) key, of p ?a] assms(8) by auto
  have len: "length p + 16 \<le> 4096" using assms(8) by simp
  note wf = sender_header_wf [OF sid len]
  have seal: "record_sender_seal C s p padded = (Inr (?a @ ct), s\<lparr>rs_next_number := ?n + 1\<rparr>)"
    using assms(7) len ct by (simp add: record_sender_seal_def traffic_key_seal_def not_le Let_def)
  have n: "rh_number ?h = ?n" and a: "length ?a = 31" and hf: "header_for r' ?h" and
    k: "rr_key r' = rs_key s" if "receiver_ctx r' = receiver_ctx r" for r'
    using assms(3) that sid
    by (auto simp: sender_header_def header_for_def record_peers_def sender_ctx_def receiver_ctx_def)
  obtain ok w where c: "replay_commit_authenticated (rr_replay r) ?n = (ok, w)" by fastforce
  have p: "replay_plausible (rr_replay r) ?n" using replay_plausible_iff [OF assms(4)] assms(5,6) by simp
  have w: "ok" "replay_repr w (insert ?n S)"
    using replay_commit_plausible [OF assms(4) p] c by simp_all
  have open1: "record_receiver_open C r (?a @ ct) = (Inr p, r\<lparr>rr_replay := w\<rparr>)"
    using record_header_parse_encode [OF wf(1), of _ _ ct] wf(2) hf [of r] k [of r] a [of r] n [of r] ct c p w
    by (simp add: record_receiver_open_def header_for_def traffic_key_open_def)
  have "\<not> replay_plausible w ?n" using replay_plausible_iff [OF w(2)] by simp
  then have "record_receiver_open C (r\<lparr>rr_replay := w\<rparr>) (?a @ ct) =
      (Inl (Bail ''record rejected by replay precheck''), r\<lparr>rr_replay := w\<rparr>)"
    using record_header_parse_encode [OF wf(1), of _ _ ct] wf(2) hf [of r] a [of r] n [of r] ct
    by (simp add: record_receiver_open_def header_for_def)
  then show ?thesis using seal open1 w a [of r] ct by auto
qed

text \<open>The HKDF inputs of the eight values an epoch derives, in the order of the code.\<close>

definition key_infos :: "bytes \<Rightarrow> u32 \<Rightarrow> bytes list" where
  "key_infos sid epoch = map (\<lambda>(label, n). hkdf_info label (sid @ be32 epoch) n)
     [(''data c2s key'', 32), (''data c2s iv'', 12), (''data s2c key'', 32), (''data s2c iv'', 12),
      (''control c2s key'', 32), (''control c2s iv'', 12), (''control s2c key'', 32), (''control s2c iv'', 12)]"

definition key_material :: "epoch_keys \<Rightarrow> bytes list" where
  "key_material k = concat (map (\<lambda>tk. [tk_key tk, tk_iv tk])
     [ek_c2s_data k, ek_s2c_data k, ek_c2s_control k, ek_s2c_control k])"

lemma key_infos_separated:
  assumes "length sid = 16" and "length sid' = 16" and "(sid, epoch) \<noteq> (sid', epoch')"
  shows "distinct (key_infos sid epoch)" and "set (key_infos sid epoch) \<inter> set (key_infos sid' epoch') = {}"
proof -
  have ok: "label_ok l (s @ be32 e) n" if "length l \<le> 20" "n \<le> 32" "length s = 16" for l n s and e :: u32
    using that by (simp add: label_ok_def)
  show "distinct (key_infos sid epoch)"
    using assms(1) by (simp add: key_infos_def hkdf_info_inject ok)
  have "sid @ be32 epoch \<noteq> sid' @ be32 epoch'" using assms by auto
  then show "set (key_infos sid epoch) \<inter> set (key_infos sid' epoch') = {}"
    using assms(1,2) by (simp add: key_infos_def hkdf_info_inject ok)
qed

lemma epoch_keys_material:
  assumes "hkdf_total C" and "length secret = 32" and "length sid = 16"
  shows "\<exists>kdf keys. hkdf_from_prk C secret = Some kdf \<and> epoch_keys_derive C secret sid epoch = Inr keys \<and>
    map2 (hkdf_expand C kdf) (key_infos sid epoch) [32, 12, 32, 12, 32, 12, 32, 12] =
      map Some (key_material keys)"
proof -
  let ?c = "sid @ be32 epoch"
  obtain kdf where kdf: "hkdf_from_prk C secret = Some kdf" using hkdf_total_prk assms by blast
  have c: "length ?c \<le> 65535" using assms(3) by simp
  note d = traffic_key_derive_ok [OF assms(1) _ c, of _ kdf]
  obtain t1 where t1: "traffic_key_derive C kdf ''data c2s'' ?c = Inr t1"
    "hkdf_expand C kdf (hkdf_info ''data c2s key'' ?c 32) 32 = Some (tk_key t1)"
    "hkdf_expand C kdf (hkdf_info ''data c2s iv'' ?c 12) 12 = Some (tk_iv t1)"
    using d [of "''data c2s''"] by auto
  obtain t2 where t2: "traffic_key_derive C kdf ''data s2c'' ?c = Inr t2"
    "hkdf_expand C kdf (hkdf_info ''data s2c key'' ?c 32) 32 = Some (tk_key t2)"
    "hkdf_expand C kdf (hkdf_info ''data s2c iv'' ?c 12) 12 = Some (tk_iv t2)"
    using d [of "''data s2c''"] by auto
  obtain t3 where t3: "traffic_key_derive C kdf ''control c2s'' ?c = Inr t3"
    "hkdf_expand C kdf (hkdf_info ''control c2s key'' ?c 32) 32 = Some (tk_key t3)"
    "hkdf_expand C kdf (hkdf_info ''control c2s iv'' ?c 12) 12 = Some (tk_iv t3)"
    using d [of "''control c2s''"] by auto
  obtain t4 where t4: "traffic_key_derive C kdf ''control s2c'' ?c = Inr t4"
    "hkdf_expand C kdf (hkdf_info ''control s2c key'' ?c 32) 32 = Some (tk_key t4)"
    "hkdf_expand C kdf (hkdf_info ''control s2c iv'' ?c 12) 12 = Some (tk_iv t4)"
    using d [of "''control s2c''"] by auto
  show ?thesis using kdf t1 t2 t3 t4
    by (simp add: epoch_keys_derive_def key_infos_def key_material_def)
qed

section \<open>Properties\<close>

text \<open>The record header codec is exact: \<open>RecordHeader::parse\<close> accepts a byte string and yields
  the header \<open>h\<close> precisely when \<open>h\<close> is well formed and the first 31 bytes are \<open>h.encode()\<close>. So
  parsing inverts encoding, and every accepted header has one encoding only.\<close>

theorem record_header_codec:
  "record_header_parse bs = Inr h \<longleftrightarrow>
     record_header_wf h \<and> 31 \<le> length bs \<and> take 31 bs = record_header_encode h"
  by (rule record_header_parse_iff)

text \<open>Under one IV, different record numbers give different AEAD nonces, all of 12 bytes.\<close>

theorem nonce_injective:
  assumes "length iv = 12"
  shows "(nonce iv a = nonce iv b \<longleftrightarrow> a = b) \<and> length (nonce iv a) = 12"
proof -
  have "map2 (XOR) (drop 4 iv) (be64 a) = map2 (XOR) (drop 4 iv) (be64 b) \<longleftrightarrow> be64 a = be64 b"
    using assms by (intro map2_xor_cancel) simp_all
  then show ?thesis using assms by (simp add: nonce_def)
qed

theorem nonce_injective_witness:
  "nonce (replicate 12 7) 1 \<noteq> nonce (replicate 12 7) 256 \<and> length (nonce (replicate 12 7) 1) = 12"
  using nonce_injective [of "replicate 12 7" 1 256] by simp

text \<open>\<open>EpochKeys::derive\<close> succeeds and separates its keys: the eight values are HKDF outputs for
  eight different inputs, and no input is shared with another session or another epoch.\<close>

theorem epoch_keys_separated:
  assumes "hkdf_total C" and "length secret = 32" and "length sid = 16"
    and "length sid' = 16" and "(sid, epoch) \<noteq> (sid', epoch')"
  shows "\<exists>kdf keys. hkdf_from_prk C secret = Some kdf \<and> epoch_keys_derive C secret sid epoch = Inr keys \<and>
    map2 (hkdf_expand C kdf) (key_infos sid epoch) [32, 12, 32, 12, 32, 12, 32, 12] =
      map Some (key_material keys) \<and>
    distinct (key_infos sid epoch) \<and> set (key_infos sid epoch) \<inter> set (key_infos sid' epoch') = {}"
  using epoch_keys_material [OF assms(1-3)] key_infos_separated [OF assms(3-5)] by blast

theorem epoch_keys_separated_witness:
  "\<exists>kdf keys. hkdf_from_prk clear_crypto (replicate 32 9) = Some kdf \<and>
    epoch_keys_derive clear_crypto (replicate 32 9) (replicate 16 4) 0 = Inr keys \<and>
    map2 (hkdf_expand clear_crypto kdf) (key_infos (replicate 16 4) 0) [32, 12, 32, 12, 32, 12, 32, 12] =
      map Some (key_material keys) \<and>
    distinct (key_infos (replicate 16 4) 0) \<and>
    set (key_infos (replicate 16 4) 0) \<inter> set (key_infos (replicate 16 4) 1) = {}"
  by (rule epoch_keys_separated) (simp_all add: clear_crypto_ok)

text \<open>C10. A sealed record is opened by the peer's receiver to the same plaintext, as long as the
  epoch's record limit is not reached, the number is new to the receiver and still inside its window;
  opening the same bytes again is refused by the replay precheck and changes nothing.\<close>

theorem record_seal_open_round_trip:
  assumes "aead_correct C" and "record_sender_wf s" and "record_peers s r"
    and "replay_repr (rr_replay r) S" and "rs_next_number s \<notin> S"
    and "\<not> replay_too_old (rr_replay r) (rs_next_number s)"
    and "rs_next_number s < max_records_per_epoch" and "length p \<le> 4080"
  shows "\<exists>e s' r'. record_sender_seal C s p padded = (Inr e, s') \<and>
    record_receiver_open C r e = (Inr p, r') \<and>
    rs_next_number s' = rs_next_number s + 1 \<and>
    replay_repr (rr_replay r') (insert (rs_next_number s) S) \<and> length e = length p + 47 \<and>
    record_receiver_open C r' e = (Inl (Bail ''record rejected by replay precheck''), r')"
  by (rule record_open_seal [OF assms])

theorem record_seal_open_round_trip_witness:
  "\<exists>tk s r e s' r'. s = record_sender_new Data (replicate 16 4) 0 tk \<and>
     record_receiver_new Data (replicate 16 4) 0 tk 4096 = Inr r \<and>
     record_sender_seal clear_crypto s [1, 2, 3] False = (Inr e, s') \<and>
     record_receiver_open clear_crypto r e = (Inr [1, 2, 3], r') \<and> length e = 50 \<and>
     record_receiver_open clear_crypto r' e = (Inl (Bail ''record rejected by replay precheck''), r')"
proof -
  define tk where "tk = \<lparr>tk_key = replicate 32 9, tk_iv = replicate 12 (5 :: byte)\<rparr>"
  define s where "s = record_sender_new Data (replicate 16 4) 0 tk"
  obtain w where w: "replay_new 4096 = Inr w" using replay_new_ok [of 4096] by auto
  define r where "r = \<lparr>rr_kind = Data, rr_session_id = replicate 16 4, rr_epoch = 0, rr_key = tk, rr_replay = w\<rparr>"
  have w0: "replay_repr (rr_replay r) {}" "\<not> rw_initialized w"
    using replay_new_repr [OF w] w by (auto simp: r_def replay_new_def)
  have "\<exists>e s' r'. record_sender_seal clear_crypto s [1, 2, 3] False = (Inr e, s') \<and>
    record_receiver_open clear_crypto r e = (Inr [1, 2, 3], r') \<and>
    rs_next_number s' = rs_next_number s + 1 \<and>
    replay_repr (rr_replay r') (insert (rs_next_number s) {}) \<and> length e = length [1, 2, 3 :: byte] + 47 \<and>
    record_receiver_open clear_crypto r' e = (Inl (Bail ''record rejected by replay precheck''), r')"
    by (rule record_seal_open_round_trip [OF clear_crypto_ok(1) _ _ w0(1)])
      (use w0(2) in \<open>auto simp: s_def r_def tk_def record_sender_new_def record_sender_wf_def
        traffic_key_wf_def record_peers_def sender_ctx_def receiver_ctx_def replay_too_old_def
        max_records_per_epoch_def\<close>)
  moreover have "record_receiver_new Data (replicate 16 4) 0 tk 4096 = Inr r"
    by (simp add: record_receiver_new_def w r_def)
  ultimately show ?thesis using s_def by auto
qed

text \<open>Whatever bytes arrive, a receiver built by \<open>RecordReceiver::new\<close> never opens two records
  with the same number.\<close>

theorem receiver_opens_at_most_once:
  assumes "record_receiver_new kind sid epoch key w = Inr r"
  shows "distinct (map fst (fst (open_run C r es)))"
proof -
  have "replay_repr (rr_replay r) {}"
    using assms replay_new_repr by (fastforce simp: record_receiver_new_def and_then_Inr_iff)
  then show ?thesis using open_run_fresh by blast
qed

theorem receiver_opens_at_most_once_witness:
  "\<exists>r. record_receiver_new Control (replicate 16 4) 3 \<lparr>tk_key = [], tk_iv = []\<rparr> 256 = Inr r \<and>
     distinct (map fst (fst (open_run clear_crypto r [[1, 2], [], [3]])))"
proof -
  obtain r where "record_receiver_new Control (replicate 16 4) 3 \<lparr>tk_key = [], tk_iv = []\<rparr> 256 = Inr r"
    by (auto simp: record_receiver_new_def replay_new_def)
  then show ?thesis using receiver_opens_at_most_once by blast
qed

text \<open>A receiver changes its replay window only after the AEAD has accepted the record: whenever
  \<open>open\<close> fails, for whatever reason, the receiver is exactly what it was before.\<close>

theorem receiver_failure_keeps_state:
  assumes "replay_repr (rr_replay r) S" and "record_receiver_open C r e = (Inl err, r')"
  shows "r' = r"
  using record_receiver_open_cases [OF assms(2,1)] by simp

theorem receiver_failure_keeps_state_witness:
  "\<exists>r. record_receiver_new Data (replicate 16 4) 0 \<lparr>tk_key = [], tk_iv = []\<rparr> 256 = Inr r \<and>
     record_receiver_open clear_crypto r [1, 2, 3] = (Inl (Bail ''truncated record header''), r)"
proof -
  obtain w where w: "replay_new 256 = Inr w" using replay_new_ok [of 256] by auto
  define r where "r = \<lparr>rr_kind = Data, rr_session_id = replicate 16 4, rr_epoch = 0,
    rr_key = \<lparr>tk_key = [], tk_iv = []\<rparr>, rr_replay = w\<rparr>"
  obtain r' where o: "record_receiver_open clear_crypto r [1, 2, 3] = (Inl (Bail ''truncated record header''), r')"
    by (simp add: record_receiver_open_def record_header_parse_def)
  have "replay_repr (rr_replay r) {}" using replay_new_repr [OF w] by (simp add: r_def)
  then have "r' = r" using receiver_failure_keeps_state o by blast
  then show ?thesis using o w by (auto simp: record_receiver_new_def r_def)
qed

text \<open>A sender never reuses a record number: the records it seals, over any sequence of calls,
  carry strictly increasing numbers below \<open>MAX_RECORDS_PER_EPOCH\<close> and its own kind, session and
  epoch.\<close>

theorem sender_numbers_increase:
  assumes "length sid = 16" and "traffic_key_wf key"
  shows "\<exists>hs. map record_header_parse (fst (seal_run C (record_sender_new kind sid epoch key) ps)) = map Inr hs \<and>
    sorted_wrt (<) (map rh_number hs) \<and>
    list_all (\<lambda>h. rh_number h < max_records_per_epoch \<and> rh_kind h = kind \<and>
      rh_session_id h = sid \<and> rh_epoch h = epoch) hs"
proof -
  have wf: "record_sender_wf (record_sender_new kind sid epoch key)"
    using assms by (simp add: record_sender_wf_def record_sender_new_def)
  show ?thesis using seal_run_numbers [OF wf, of C ps]
    by (auto simp: record_sender_new_def list_all_iff)
qed

theorem sender_numbers_increase_witness:
  "\<exists>hs. map record_header_parse (fst (seal_run clear_crypto
      (record_sender_new Data (replicate 16 4) 0 \<lparr>tk_key = replicate 32 1, tk_iv = replicate 12 2\<rparr>)
      [([1], False), ([2, 3], True)])) = map Inr hs \<and>
    sorted_wrt (<) (map rh_number hs) \<and>
    list_all (\<lambda>h. rh_number h < max_records_per_epoch \<and> rh_kind h = Data \<and>
      rh_session_id h = replicate 16 4 \<and> rh_epoch h = 0) hs"
  by (rule sender_numbers_increase) (simp_all add: traffic_key_wf_def)

text \<open>C12. \<open>seal\<close> is safe to call concurrently: in every interleaving of the atomic \<open>fetch_add\<close> and
  \<open>store\<close> operations with fewer than 2^63 callers between the two, the numbers handed to the cipher
  are pairwise different and below the limit; resetting the counter never reopens a used number.\<close>

theorem concurrent_seal_numbers_unique:
  assumes "race_reachable limit s" and "limit < 2 ^ 63"
  shows "distinct (race_issued s) \<and> list_all (\<lambda>n. n < max_records_per_epoch) (race_issued s)"
  using race_counter_invar [OF assms] by (simp add: list_all_iff)

theorem concurrent_seal_numbers_unique_witness:
  "race_reachable 8 \<lparr>race_counter = 2, race_stalled = 0, race_issued = [1, 0]\<rparr> \<and>
     distinct [1, 0 :: u64] \<and> list_all (\<lambda>n. n < max_records_per_epoch) [1, 0]"
proof -
  let ?s0 = "\<lparr>race_counter = 0, race_stalled = 0, race_issued = []\<rparr>"
  let ?s1 = "\<lparr>race_counter = 1, race_stalled = 0, race_issued = [0]\<rparr>"
  let ?s2 = "\<lparr>race_counter = 2, race_stalled = 0, race_issued = [1, 0]\<rparr>"
  have "race_step ?s0 ?s1" "race_step ?s1 ?s2"
    using fetch_issue [of ?s0] fetch_issue [of ?s1] by (simp_all add: max_records_per_epoch_def)
  then have "race_reachable 8 ?s2"
    using race_reachable.step [OF race_reachable.step [OF race_reachable.start]] by simp
  then show ?thesis using concurrent_seal_numbers_unique [of 8 ?s2] by simp
qed

end
