(* ===== verification/Reka_Frames.thy ===== *)
theory Reka_Frames
  imports Reka_Record
begin

text \<open>
  Frames inside a record plaintext (\<open>Frame::encode\<close> and \<open>parse_frames\<close> of \<open>record.rs\<close>). The parser
  loop is modelled by its offset, as in the code, and related to the concatenation of encoded frames:
  it returns exactly the known frames of such a concatenation, skips unknown optional ones and rejects
  unknown critical ones and truncated input.
\<close>

record frame =
  fr_type :: byte
  fr_flags :: byte
  fr_body :: bytes

definition frame_encode :: "frame \<Rightarrow> bytes result" where
  "frame_encode f =
     (if length (fr_body f) > 65535 then Inl (Bail ''frame body too large'')
      else Inr ([fr_type f, fr_flags f] @ be16 (of_nat (length (fr_body f))) @ fr_body f))"

definition frame_known :: "record_kind \<Rightarrow> byte \<Rightarrow> bool" where
  "frame_known kind frame_type =
     (case kind of Data \<Rightarrow> frame_type \<le> 0x06 | Control \<Rightarrow> 0x01 \<le> frame_type \<and> frame_type \<le> 0x13)"

function parse_frames_from :: "bytes \<Rightarrow> record_kind \<Rightarrow> nat \<Rightarrow> frame list \<Rightarrow> frame list result" where
  "parse_frames_from plaintext kind offset frames =
     (if \<not> offset < length plaintext then Inr frames
      else if length plaintext - offset < 4 then Inl (Bail ''truncated frame header'')
      else
        let frame_type = plaintext ! offset;
            flags = plaintext ! (offset + 1);
            frame_len = unat (from_be (subrange (offset + 2) (offset + 4) plaintext) :: u16)
        in case usize_checked_add (offset + 4) frame_len of
             None \<Rightarrow> Inl (Bail ''frame length overflow'')
           | Some stop \<Rightarrow>
               if \<not> stop \<le> length plaintext then Inl (Bail ''truncated frame body'')
               else
                 let body = subrange (offset + 4) stop plaintext;
                     known = frame_known kind frame_type
                 in if \<not> known \<and> 0x80 \<le> frame_type then Inl (Bail ''unsupported critical frame'')
                    else parse_frames_from plaintext kind stop
                           (if known then frames @ [\<lparr>fr_type = frame_type, fr_flags = flags, fr_body = body\<rparr>]
                            else frames))"
  by pat_completeness auto
termination
  by (relation "measure (\<lambda>(plaintext, kind, offset, frames). length plaintext - offset)")
    (auto simp: usize_checked_add_Some)

definition parse_frames :: "bytes \<Rightarrow> record_kind \<Rightarrow> frame list result" where
  "parse_frames plaintext kind = parse_frames_from plaintext kind 0 []"

section \<open>Specification\<close>

definition frame_wf :: "frame \<Rightarrow> bool" where
  "frame_wf f \<longleftrightarrow> length (fr_body f) \<le> 65535"

definition frame_bytes :: "frame \<Rightarrow> bytes" where
  "frame_bytes f = [fr_type f, fr_flags f] @ be16 (of_nat (length (fr_body f))) @ fr_body f"

text \<open>A frame no receiver of this kind understands and none may skip.\<close>

definition frame_critical :: "record_kind \<Rightarrow> frame \<Rightarrow> bool" where
  "frame_critical kind f \<longleftrightarrow> \<not> frame_known kind (fr_type f) \<and> 0x80 \<le> fr_type f"

section \<open>Lemmas\<close>

declare parse_frames_from.simps [simp del]

lemma frame_encode_Inr: "frame_encode f = Inr bs \<longleftrightarrow> frame_wf f \<and> bs = frame_bytes f"
  by (auto simp: frame_encode_def frame_wf_def frame_bytes_def)

lemma length_frame_bytes [simp]: "length (frame_bytes f) = 4 + length (fr_body f)"
  by (simp add: frame_bytes_def)

lemma frame_eta: "\<lparr>fr_type = fr_type f, fr_flags = fr_flags f, fr_body = fr_body f\<rparr> = f"
  by simp

text \<open>One turn of the loop in front of an encoded frame.\<close>

lemma parse_frames_step:
  assumes "frame_wf f" and "length (pre @ frame_bytes f @ post) < 2 ^ 64"
  shows "parse_frames_from (pre @ frame_bytes f @ post) kind (length pre) acc =
    (if frame_critical kind f then Inl (Bail ''unsupported critical frame'')
     else parse_frames_from (pre @ frame_bytes f @ post) kind (length (pre @ frame_bytes f))
            (if frame_known kind (fr_type f) then acc @ [f] else acc))"
proof -
  let ?p = "pre @ frame_bytes f @ post" and ?n = "length pre"
  have len: "unat (of_nat (length (fr_body f)) :: u16) = length (fr_body f)"
    using assms(1) by (subst unat_of_nat) (simp add: frame_wf_def)
  have "?p ! ?n = fr_type f" "?p ! (?n + 1) = fr_flags f"
    by (simp_all add: frame_bytes_def nth_append)
  moreover have "subrange (?n + 2) (?n + 4) ?p = be16 (of_nat (length (fr_body f)))"
    by (simp add: frame_bytes_def codec_simps)
  moreover have "subrange (?n + 4) (?n + 4 + length (fr_body f)) ?p = fr_body f"
    by (simp add: frame_bytes_def codec_simps)
  moreover have "usize_checked_add (?n + 4) (length (fr_body f)) = Some (?n + 4 + length (fr_body f))"
    using assms(2) by (simp add: usize_checked_add_def)
  ultimately show ?thesis
    by (subst parse_frames_from.simps) (simp add: Let_def len frame_critical_def frame_eta add.commute add.left_commute)
qed

lemma parse_frames_from_concat:
  assumes "list_all frame_wf fs" and "length (pre @ concat (map frame_bytes fs)) < 2 ^ 64"
  shows "parse_frames_from (pre @ concat (map frame_bytes fs)) kind (length pre) acc =
    (if list_ex (frame_critical kind) fs then Inl (Bail ''unsupported critical frame'')
     else Inr (acc @ filter (\<lambda>f. frame_known kind (fr_type f)) fs))"
  using assms
proof (induction fs arbitrary: pre acc)
  case Nil
  then show ?case by (subst parse_frames_from.simps) simp
next
  case (Cons f fs)
  have "parse_frames_from (pre @ concat (map frame_bytes (f # fs))) kind (length pre) acc =
    (if frame_critical kind f then Inl (Bail ''unsupported critical frame'')
     else parse_frames_from ((pre @ frame_bytes f) @ concat (map frame_bytes fs)) kind
       (length (pre @ frame_bytes f)) (if frame_known kind (fr_type f) then acc @ [f] else acc))"
    using parse_frames_step [of f pre "concat (map frame_bytes fs)"] Cons.prems by simp
  then show ?case using Cons.IH [of "pre @ frame_bytes f"] Cons.prems by simp
qed

text \<open>Conversely, whatever the loop accepts is such a concatenation.\<close>

lemma frame_bytes_split:
  assumes "offset + 4 + n \<le> length p" and "n = unat (from_be (subrange (offset + 2) (offset + 4) p) :: u16)"
  shows "drop offset p = frame_bytes \<lparr>fr_type = p ! offset, fr_flags = p ! (offset + 1),
      fr_body = subrange (offset + 4) (offset + 4 + n) p\<rparr> @ drop (offset + 4 + n) p"
    and "n \<le> 65535"
proof -
  let ?l = "subrange (offset + 2) (offset + 4) p"
  have l: "length ?l = 2" using assms(1) by (simp add: codec_simps)
  have "be16 (of_nat n) = ?l" using l by (simp add: assms(2) be_encode)
  moreover have "length (subrange (offset + 4) (offset + 4 + n) p) = n"
    using assms(1) by (simp add: codec_simps)
  moreover have "drop offset p = p ! offset # p ! (offset + 1) # drop (offset + 2) p"
    using assms(1) by (simp add: Cons_nth_drop_Suc)
  moreover have "drop (offset + 2) p = ?l @ subrange (offset + 4) (offset + 4 + n) p @ drop (offset + 4 + n) p"
  proof -
    have "subrange (offset + 2) (offset + 4 + n) p @ drop (offset + 4 + n) p = drop (offset + 2) p"
      using append_take_drop_id [of "n + 2" "drop (offset + 2) p"]
      by (simp add: subrange_def numeral_eq_Suc add.commute)
    then show ?thesis
      using subrange_append_subrange [of "offset + 2" "offset + 4" "offset + 4 + n" p] by (simp flip: append_assoc)
  qed
  ultimately show "drop offset p = frame_bytes \<lparr>fr_type = p ! offset, fr_flags = p ! (offset + 1),
      fr_body = subrange (offset + 4) (offset + 4 + n) p\<rparr> @ drop (offset + 4 + n) p"
    by (simp add: frame_bytes_def)
  show "n \<le> 65535" using unsigned_less [of "from_be ?l :: u16", where ?'a = nat] assms(2) by simp
qed

lemma parse_frames_from_sound:
  assumes "parse_frames_from p kind offset acc = Inr out" and "offset \<le> length p"
  shows "\<exists>fs. list_all frame_wf fs \<and> drop offset p = concat (map frame_bytes fs) \<and>
    \<not> list_ex (frame_critical kind) fs \<and> out = acc @ filter (\<lambda>f. frame_known kind (fr_type f)) fs"
  using assms
proof (induction p kind offset acc rule: parse_frames_from.induct)
  case (1 p kind offset acc)
  let ?n = "unat (from_be (subrange (offset + 2) (offset + 4) p) :: u16)"
  let ?f = "\<lparr>fr_type = p ! offset, fr_flags = p ! (offset + 1),
    fr_body = subrange (offset + 4) (offset + 4 + ?n) p\<rparr>"
  show ?case
  proof (cases "offset < length p")
    case False
    then show ?thesis using 1(2) by (subst (asm) parse_frames_from.simps) (auto intro!: exI [of _ "[]"])
  next
    case True
    have four: "\<not> length p - offset < 4" and add: "usize_checked_add (offset + 4) ?n = Some (offset + 4 + ?n)"
      and stop: "offset + 4 + ?n \<le> length p" and crit: "\<not> frame_critical kind ?f"
      and rec: "parse_frames_from p kind (offset + 4 + ?n)
        (if frame_known kind (p ! offset) then acc @ [?f] else acc) = Inr out"
      using 1(2) True by (subst (asm) parse_frames_from.simps,
        auto simp: Let_def frame_critical_def usize_checked_add_Some split: if_splits option.splits)+
    have split: "drop offset p = frame_bytes ?f @ drop (offset + 4 + ?n) p" and wf: "frame_wf ?f"
      and known: "frame_known kind (fr_type ?f) = frame_known kind (p ! offset)"
      using frame_bytes_split [OF stop refl] stop by (simp_all add: frame_wf_def codec_simps)
    obtain fs where "list_all frame_wf fs" "drop (offset + 4 + ?n) p = concat (map frame_bytes fs)"
      "\<not> list_ex (frame_critical kind) fs"
      "out = (if frame_known kind (p ! offset) then acc @ [?f] else acc) @
        filter (\<lambda>f. frame_known kind (fr_type f)) fs"
      using 1(1) [OF _ four refl refl refl add _ refl refl] True stop crit rec
      unfolding frame_critical_def by auto
    then show ?thesis
      using split crit wf known by (intro exI [of _ "?f # fs"]) (simp split del: if_split, simp)
  qed
qed

lemma parse_frames_concat:
  assumes "list_all frame_wf fs" and "length (concat (map frame_bytes fs)) < 2 ^ 64"
  shows "parse_frames (concat (map frame_bytes fs)) kind =
    (if list_ex (frame_critical kind) fs then Inl (Bail ''unsupported critical frame'')
     else Inr (filter (\<lambda>f. frame_known kind (fr_type f)) fs))"
  using parse_frames_from_concat [of fs "[]" kind "[]"] assms by (simp add: parse_frames_def)

section \<open>Properties\<close>

text \<open>C30. \<open>parse_frames\<close> accepts exactly the concatenations of encoded frames without an unknown
  critical frame, and returns their known frames in order; the loop always ends.\<close>

theorem parse_frames_exact:
  assumes "length p < 2 ^ 64"
  shows "parse_frames p kind = Inr out \<longleftrightarrow>
    (\<exists>fs. map frame_encode fs = map (\<lambda>f. Inr (frame_bytes f)) fs \<and> p = concat (map frame_bytes fs) \<and>
       \<not> list_ex (frame_critical kind) fs \<and> out = filter (\<lambda>f. frame_known kind (fr_type f)) fs)"
proof -
  have enc: "map frame_encode fs = map (\<lambda>f. Inr (frame_bytes f)) fs \<longleftrightarrow> list_all frame_wf fs" for fs
    by (auto simp: frame_encode_Inr list_all_iff)
  show ?thesis
  proof
    assume "parse_frames p kind = Inr out"
    then show "\<exists>fs. map frame_encode fs = map (\<lambda>f. Inr (frame_bytes f)) fs \<and> p = concat (map frame_bytes fs) \<and>
       \<not> list_ex (frame_critical kind) fs \<and> out = filter (\<lambda>f. frame_known kind (fr_type f)) fs"
      using parse_frames_from_sound [of p kind 0 "[]" out] unfolding enc by (simp add: parse_frames_def)
  qed (unfold enc, use assms parse_frames_concat in auto)
qed

theorem parse_frames_exact_witness:
  "parse_frames [1, 0, 0, 2, 9, 8, 0x40, 0, 0, 0] Data = Inr [\<lparr>fr_type = 1, fr_flags = 0, fr_body = [9, 8]\<rparr>]"
proof -
  let ?f = "\<lparr>fr_type = 1, fr_flags = 0, fr_body = [9, 8]\<rparr>" and ?g = "\<lparr>fr_type = 0x40, fr_flags = 0, fr_body = []\<rparr>"
  have "be16 (of_nat 2) = [0, 2]" "be16 (of_nat 0) = [0, 0]"
    by (simp_all add: to_be_def upt_rec)
  then have "\<exists>fs. map frame_encode fs = map (\<lambda>f. Inr (frame_bytes f)) fs \<and>
      [1, 0, 0, 2, 9, 8, 0x40, 0, 0, 0] = concat (map frame_bytes fs) \<and>
      \<not> list_ex (frame_critical Data) fs \<and> [?f] = filter (\<lambda>f. frame_known Data (fr_type f)) fs"
    by (intro exI [of _ "[?f, ?g]"])
      (simp add: frame_encode_def frame_bytes_def frame_critical_def frame_known_def)
  then show ?thesis using parse_frames_exact [of "[1, 0, 0, 2, 9, 8, 0x40, 0, 0, 0]" Data "[?f]"] by simp
qed

text \<open>A record that contains an unknown frame of type 0x80 or above is rejected as a whole, even
  when all its frames are well formed.\<close>

theorem critical_frame_rejected:
  assumes "list_all frame_wf fs" and "list_ex (frame_critical kind) fs"
    and "length (concat (map frame_bytes fs)) < 2 ^ 64"
  shows "parse_frames (concat (map frame_bytes fs)) kind = Inl (Bail ''unsupported critical frame'')"
  using parse_frames_concat [OF assms(1,3)] assms(2) by simp

theorem critical_frame_rejected_witness:
  "parse_frames (concat (map frame_bytes [\<lparr>fr_type = 1, fr_flags = 0, fr_body = [7]\<rparr>,
     \<lparr>fr_type = 0x80, fr_flags = 0, fr_body = []\<rparr>])) Control = Inl (Bail ''unsupported critical frame'')"
  by (rule critical_frame_rejected) (simp_all add: frame_wf_def frame_critical_def frame_known_def)

end
