(* ===== verification/Reka_Ipv4.thy ===== *)
theory Reka_Ipv4
  imports Reka_Frames
begin

text \<open>
  The packet checks: \<open>validate_ipv4_packet\<close>, \<open>ipv4_checksum\<close> and \<open>validate_data_frame\<close> of \<open>main.rs\<close>,
  \<open>ipv4_destination\<close> and \<open>prefix_mask\<close> of \<open>network.rs\<close>, and \<open>valid_ipv4\<close> of the network helper
  (\<open>bin/net_helper.rs\<close>). The checksum is computed at the width of the code, a \<open>u32\<close> sum folded to 16
  bits.
\<close>

unbundle bit_operations_syntax

section \<open>Model\<close>

fun checksum_words :: "bytes \<Rightarrow> u32 list" where
  "checksum_words (a # b # rest) = ucast (from_be [a, b] :: u16) # checksum_words rest"
| "checksum_words _ = []"

lemma unat_drop16: "unat (drop_bit 16 s :: u32) = unat s div 65536"
  by (simp add: drop_bit_eq_div unat_div_distrib)

lemma unat_mask16: "unat (s AND 0xffff :: u32) = unat s mod 65536"
proof -
  have "s AND 0xffff = take_bit 16 s" by (simp add: take_bit_eq_mask mask_eq_exp_minus_1)
  then show ?thesis by (simp add: take_bit_eq_mod unat_mod_distrib)
qed

lemma fold_step_unat:
  "unat ((s AND 0xffff) + drop_bit 16 s :: u32) = unat s mod 65536 + unat s div 65536"
proof -
  have "unat s < 2 ^ 32" using unsigned_less [of s] by simp
  then have d: "unat s div 65536 < 65536" by simp
  note m = unat_mask16 [of s] and q = unat_drop16 [of s]
  have "unat s mod 65536 < 65536" by simp
  with d have "unat (s AND 0xffff) + unat (drop_bit 16 s) < 2 ^ LENGTH(32)" unfolding m q by simp
  then have "unat ((s AND 0xffff) + drop_bit 16 s) = unat (s AND 0xffff) + unat (drop_bit 16 s)"
    unfolding unat_plus_if' by simp
  then show ?thesis unfolding m q .
qed

function checksum_fold :: "u32 \<Rightarrow> u32" where
  "checksum_fold s = (if drop_bit 16 s \<noteq> 0 then checksum_fold ((s AND 0xffff) + drop_bit 16 s) else s)"
  by pat_completeness auto
termination
proof (relation "measure unat")
  fix s :: u32
  assume "drop_bit 16 s \<noteq> 0"
  then have "0 < unat (drop_bit 16 s)" by (simp only: unat_gt_0 not_False_eq_True)
  then have "0 < unat s div 65536" by (simp only: unat_drop16)
  moreover have "unat s = 65536 * (unat s div 65536) + unat s mod 65536" by simp
  ultimately have "unat s mod 65536 + unat s div 65536 < unat s" by linarith
  then show "((s AND 0xffff) + drop_bit 16 s, s) \<in> measure unat" by (simp add: fold_step_unat)
qed simp

declare checksum_fold.simps [simp del]

definition ipv4_checksum :: "bytes \<Rightarrow> u16" where
  "ipv4_checksum header = NOT (ucast (checksum_fold (foldl (+) 0 (checksum_words header))))"

definition validate_ipv4_packet :: "bytes \<Rightarrow> bytes \<Rightarrow> unit result" where
  "validate_ipv4_packet packet expected_source =
     (if length packet < 20 \<or> drop_bit 4 (packet ! 0) \<noteq> 4 then Inl (Bail ''invalid IPv4 header'')
      else
        let header_len = unat (packet ! 0 AND 0x0f) * 4;
            total_len = unat (from_be (subrange 2 4 packet) :: u16)
        in if header_len < 20 \<or> header_len > length packet then Inl (Bail ''invalid IPv4 header length'')
           else if total_len \<noteq> length packet \<or> total_len > 1280 then Inl (Bail ''invalid IPv4 packet length'')
           else if subrange 12 16 packet \<noteq> expected_source then Inl (Bail ''IPv4 source policy violation'')
           else if ipv4_checksum (take header_len packet) \<noteq> 0 then Inl (Bail ''invalid IPv4 header checksum'')
           else Inr ())"

definition validate_data_frame :: "frame \<Rightarrow> bytes \<Rightarrow> frame option result" where
  "validate_data_frame frame tunnel_ipv4 =
     (if fr_flags frame \<noteq> 0 then Inl (Bail ''unsupported data frame flags'')
      else if fr_type frame = 0x00 then Inr None
      else if fr_type frame = 0x01 then
        and_then (validate_ipv4_packet (fr_body frame) tunnel_ipv4) (\<lambda>_. Inr None)
      else if fr_type frame = 0x02 then Inl (Bail ''IPv6 is not enabled for this client'')
      else if fr_type frame = 0x03 then Inr None
      else if fr_type frame = 0x04 then
        (if fr_body frame \<noteq> [] then Inl (Bail ''keepalive frame must be empty'')
         else Inr (Some \<lparr>fr_type = 0x04, fr_flags = 0, fr_body = []\<rparr>))
      else if fr_type frame = 0x05 then
        (if length (fr_body frame) > 64 then Inl (Bail ''path probe too large'')
         else Inr (Some \<lparr>fr_type = 0x06, fr_flags = 0, fr_body = fr_body frame\<rparr>))
      else if fr_type frame = 0x06 then
        (if length (fr_body frame) > 64 then Inl (Bail ''path probe reply too large'') else Inr None)
      else Inr None)"

text \<open>The destination of a packet from the kernel, and the helper's own check of what the edge sends.
  A prefix length is at most 32, which both programs check when they start.\<close>

definition ipv4_destination :: "bytes \<Rightarrow> bytes option" where
  "ipv4_destination packet =
     (if length packet < 20 \<or> drop_bit 4 (packet ! 0) \<noteq> 4 then None
      else
        let header_len = unat (packet ! 0 AND 0x0f) * 4;
            total_len = unat (from_be (subrange 2 4 packet) :: u16)
        in if header_len < 20 \<or> header_len > length packet \<or> total_len \<noteq> length packet then None
           else Some (subrange 16 20 packet))"

definition prefix_mask :: "nat \<Rightarrow> u32" where
  "prefix_mask prefix = (if prefix = 0 then 0 else push_bit (32 - prefix) (- 1))"

definition valid_ipv4 :: "bytes \<Rightarrow> u32 \<Rightarrow> nat \<Rightarrow> nat \<Rightarrow> bool" where
  "valid_ipv4 packet network prefix mtu =
     (if length packet < 20 \<or> length packet > mtu \<or> drop_bit 4 (packet ! 0) \<noteq> 4 then False
      else
        let header_len = unat (packet ! 0 AND 0x0f) * 4;
            total_len = unat (from_be (subrange 2 4 packet) :: u16)
        in if header_len < 20 \<or> header_len > length packet \<or> total_len \<noteq> length packet then False
           else from_be (subrange 12 16 packet) AND prefix_mask prefix = network)"

text \<open>Dotted-decimal notation as \<open>Ipv4Addr::from_str\<close> reads it: four numbers of up to three digits,
  without leading zeros.\<close>

fun split_dots :: "string \<Rightarrow> string list" where
  "split_dots [] = [[]]"
| "split_dots (c # cs) =
     (if c = CHR ''.'' then [] # split_dots cs
      else case split_dots cs of w # ws \<Rightarrow> (c # w) # ws | [] \<Rightarrow> [[c]])"

definition decimal_value :: "string \<Rightarrow> nat" where
  "decimal_value ds = foldl (\<lambda>n c. 10 * n + (of_char c - 48)) 0 ds"

definition parse_octet :: "string \<Rightarrow> byte option" where
  "parse_octet ds =
     (if ds = [] \<or> length ds > 3 \<or> \<not> list_all (\<lambda>c. c \<in> set ''0123456789'') ds \<or>
         (length ds > 1 \<and> hd ds = CHR ''0'') \<or> decimal_value ds > 255
      then None else Some (of_nat (decimal_value ds)))"

definition parse_ipv4 :: "string \<Rightarrow> bytes option" where
  "parse_ipv4 s =
     (case map parse_octet (split_dots s) of
        [Some a, Some b, Some c, Some d] \<Rightarrow> Some [a, b, c, d]
      | _ \<Rightarrow> None)"

section \<open>The checksum\<close>

text \<open>The sum of the 16-bit words of a header as a number.\<close>

fun header_sum :: "bytes \<Rightarrow> nat" where
  "header_sum (a # b # rest) = unat (from_be [a, b] :: u16) + header_sum rest"
| "header_sum _ = 0"

lemma unat_ucast_u16: "unat (ucast (w :: u16) :: u32) = unat w"
proof -
  have "unat w < 2 ^ 16" using unsigned_less [of w] by simp
  then show ?thesis by (simp add: unsigned_ucast_eq take_bit_nat_eq_self)
qed

lemma header_sum_words: "sum_list (map unat (checksum_words h)) = header_sum h"
  by (induction h rule: header_sum.induct) (simp_all add: unat_ucast_u16)

lemma header_sum_bound: "header_sum h \<le> 65535 * (length h div 2)"
proof (induction h rule: header_sum.induct)
  case (1 a b rest)
  have "unat (from_be [a, b] :: u16) < 65536" using unsigned_less [of "from_be [a, b] :: u16"] by simp
  with 1 show ?case by simp
qed auto

lemma unat_foldl_plus:
  fixes x :: u32
  assumes "unat x + sum_list (map unat ws) < 2 ^ 32"
  shows "unat (foldl (+) x ws) = unat x + sum_list (map unat ws)"
  using assms
proof (induction ws arbitrary: x)
  case (Cons w ws)
  have "unat (x + w) = unat x + unat w" using Cons.prems unfolding unat_plus_if' by simp
  then show ?case using Cons.IH [of "x + w"] Cons.prems by (simp add: add.assoc)
qed simp

lemma carry_mod: "(65536 * d + m) mod 65535 = (m + d) mod (65535 :: nat)"
proof -
  have "65536 * d + m = (m + d) + 65535 * d" by simp
  then show ?thesis by (simp only: mod_mult_self2)
qed

lemma checksum_fold_spec:
  "unat (checksum_fold s) < 65536 \<and> unat (checksum_fold s) mod 65535 = unat s mod 65535 \<and>
   (unat (checksum_fold s) = 0 \<longleftrightarrow> unat s = 0)"
proof (induction s rule: checksum_fold.induct)
  case (1 s)
  note q = unat_drop16 [of s]
  have dm: "unat s = 65536 * (unat s div 65536) + unat s mod 65536" by simp
  show ?case
  proof (cases "drop_bit 16 s = 0")
    case True
    then have "unat s div 65536 = 0" using q by (simp only: unat_0)
    then show ?thesis using True by (simp add: checksum_fold.simps)
  next
    case False
    have "(unat s mod 65536 + unat s div 65536) mod 65535 = unat s mod 65535"
      using carry_mod [of "unat s div 65536" "unat s mod 65536"] dm by presburger
    moreover have "unat s mod 65536 + unat s div 65536 = 0 \<longleftrightarrow> unat s = 0" using dm by linarith
    ultimately show ?thesis using 1 [OF False] False by (simp add: checksum_fold.simps [of s] fold_step_unat)
  qed
qed

lemma unat_not_u16: "unat (NOT w :: u16) = 65535 - unat w"
proof -
  have "(- 1 :: u16) = 0xffff" by simp
  then have "NOT w = 0xffff - w" unfolding not_eq_complement by simp
  moreover have "unat w < 2 ^ 16" using unsigned_less [of w] by simp
  then have "w \<le> 0xffff" by (simp add: word_le_nat_alt)
  ultimately show ?thesis by (simp add: unat_sub)
qed

text \<open>A header is at most 60 bytes; its sum then fits the \<open>u32\<close> accumulator.\<close>

lemma checksum_value:
  assumes "length h \<le> 60"
  shows "\<exists>f < 65536. f mod 65535 = header_sum h mod 65535 \<and> (f = 0 \<longleftrightarrow> header_sum h = 0) \<and> unat (ipv4_checksum h) = 65535 - f"
proof -
  have "length h div 2 \<le> 30" using assms by simp
  then have b: "header_sum h \<le> 65535 * 30" using header_sum_bound [of h] by linarith
  define s where "s = foldl (+) (0 :: u32) (checksum_words h)"
  have s: "unat s = header_sum h"
    using unat_foldl_plus [of 0 "checksum_words h"] b by (simp add: header_sum_words s_def)
  define f where "f = unat (checksum_fold s)"
  have f: "f < 65536" "f mod 65535 = header_sum h mod 65535" "f = 0 \<longleftrightarrow> header_sum h = 0"
    using checksum_fold_spec [of s] by (auto simp: f_def s)
  have "unat (ucast (checksum_fold s) :: u16) = f"
    using f(1) by (simp add: unsigned_ucast_eq take_bit_nat_eq_self f_def)
  then have "unat (NOT (ucast (checksum_fold s) :: u16)) = 65535 - f"
    by (simp add: unat_not_u16)
  then show ?thesis using f by (intro exI [of _ f]) (simp add: ipv4_checksum_def s_def)
qed

lemma checksum_zero_iff:
  assumes "length h \<le> 60"
  shows "ipv4_checksum h = 0 \<longleftrightarrow> 0 < header_sum h \<and> 65535 dvd header_sum h"
proof -
  obtain f where f: "f < 65536" "f mod 65535 = header_sum h mod 65535" "f = 0 \<longleftrightarrow> header_sum h = 0"
    "unat (ipv4_checksum h) = 65535 - f" using checksum_value [OF assms] by auto
  have "ipv4_checksum h = 0 \<longleftrightarrow> f = 65535"
    using f(1,4) unat_0_iff [of "ipv4_checksum h"] by auto
  also have "\<dots> \<longleftrightarrow> 0 < header_sum h \<and> 65535 dvd header_sum h"
  proof (cases "f < 65535")
    case False
    then have "f = 65535" using f(1) by simp
    then show ?thesis using f(2,3) by (simp add: dvd_eq_mod_eq_0)
  qed (use f(2,3) in \<open>auto simp: dvd_eq_mod_eq_0\<close>)
  finally show ?thesis .
qed

text \<open>A header with its checksum field, bytes 10 and 11, set.\<close>

definition set_checksum :: "bytes \<Rightarrow> u16 \<Rightarrow> bytes" where
  "set_checksum h c = take 10 h @ be16 c @ drop 12 h"

lemma header_sum_append: "even (length xs) \<Longrightarrow> header_sum (xs @ ys) = header_sum xs + header_sum ys"
  by (induction xs rule: header_sum.induct) auto

lemma header_sum_be16: "header_sum (be16 c) = unat c"
proof -
  obtain a b where "be16 c = [a, b]"
    using length_to_be [of 2 c] by (auto simp: numeral_2_eq_2 length_Suc_conv simp del: length_to_be)
  then show ?thesis using be_decode(1) [of c] by simp
qed

lemma header_sum_set:
  assumes "12 \<le> length h"
  shows "header_sum (set_checksum h c) = header_sum (set_checksum h 0) + unat c"
  using assms by (simp add: set_checksum_def header_sum_append header_sum_be16)

section \<open>Network prefixes\<close>

lemma parse_ipv4_length: "parse_ipv4 s = Some ip \<Longrightarrow> length ip = 4"
  by (auto simp: parse_ipv4_def split: list.splits option.splits)

lemma bit_prefix_mask: "prefix \<le> 32 \<Longrightarrow> bit (prefix_mask prefix) i \<longleftrightarrow> 32 - prefix \<le> i \<and> i < 32"
  by (auto simp: prefix_mask_def bit_not_iff bit_mask_iff)

lemma prefix_agree_iff:
  assumes "prefix \<le> 32"
  shows "a AND prefix_mask prefix = b AND prefix_mask prefix \<longleftrightarrow> (\<forall>i. 32 - prefix \<le> i \<and> i < 32 \<longrightarrow> bit a i = bit b i)"
proof
  assume "a AND prefix_mask prefix = b AND prefix_mask prefix"
  then have "bit (a AND prefix_mask prefix) i = bit (b AND prefix_mask prefix) i" for i by simp
  then show "\<forall>i. 32 - prefix \<le> i \<and> i < 32 \<longrightarrow> bit a i = bit b i"
    by (simp add: bit_and_iff bit_prefix_mask [OF assms]) blast
next
  assume "\<forall>i. 32 - prefix \<le> i \<and> i < 32 \<longrightarrow> bit a i = bit b i"
  then show "a AND prefix_mask prefix = b AND prefix_mask prefix"
    by (intro bit_word_eqI) (auto simp: bit_and_iff bit_prefix_mask [OF assms])
qed

section \<open>Properties\<close>

text \<open>C38. The header checksum is the Internet checksum: it is zero exactly when the 16-bit words of the
  header sum to a positive multiple of 65535, and storing the checksum computed with an empty checksum field
  into that field makes the header valid.\<close>

theorem ipv4_checksum_correct:
  assumes "length h \<le> 60" and "12 \<le> length h" and "0 < header_sum (set_checksum h 0)"
  shows "(ipv4_checksum h = 0 \<longleftrightarrow> 0 < header_sum h \<and> 65535 dvd header_sum h) \<and>
    ipv4_checksum (set_checksum h (ipv4_checksum (set_checksum h 0))) = 0"
proof -
  have l: "length (set_checksum h c) \<le> 60" for c using assms(1,2) by (simp add: set_checksum_def)
  obtain f where f: "f < 65536" "f mod 65535 = header_sum (set_checksum h 0) mod 65535"
    "unat (ipv4_checksum (set_checksum h 0)) = 65535 - f" using checksum_value [OF l] by auto
  have "(header_sum (set_checksum h 0) + (65535 - f)) mod 65535 = (f + (65535 - f)) mod 65535"
    using f(2) mod_add_cong by metis
  also have "\<dots> = 0" using f(1) by simp
  finally have "65535 dvd header_sum (set_checksum h 0) + (65535 - f)" by (simp add: dvd_eq_mod_eq_0)
  moreover have "header_sum (set_checksum h (ipv4_checksum (set_checksum h 0))) = header_sum (set_checksum h 0) + (65535 - f)"
    using header_sum_set [OF assms(2), of "ipv4_checksum (set_checksum h 0)"] unfolding f(3) .
  ultimately have "ipv4_checksum (set_checksum h (ipv4_checksum (set_checksum h 0))) = 0"
    unfolding checksum_zero_iff [OF l] using assms(3) by (simp only: add_gr_0 simp_thms)
  then show ?thesis using checksum_zero_iff [OF assms(1)] by blast
qed

theorem ipv4_checksum_correct_witness:
  "ipv4_checksum (set_checksum (0x45 # replicate 19 0) (ipv4_checksum (set_checksum (0x45 # replicate 19 0) 0))) = 0"
proof -
  have "set_checksum (0x45 # replicate 19 0) 0 = 0x45 # replicate 19 0"
    by code_simp
  moreover have "header_sum (0x45 # replicate 19 0) = 17664" by code_simp
  ultimately show ?thesis using ipv4_checksum_correct [of "0x45 # replicate 19 0"] by simp
qed

text \<open>A packet that a session accepts from its client has the client's own tunnel address as source
  and passes every later check: the network helper forwards it when the address is in the helper's
  network and the MTU is at least 1280. And the helper forwards only packets whose source agrees with the
  configured address in all bits of the prefix.\<close>

theorem client_packets_pass_helper:
  assumes "validate_ipv4_packet packet source = Inr ()" and "prefix \<le> 32" and "1280 \<le> mtu"
    and "network = address AND prefix_mask prefix"
  shows "subrange 12 16 packet = source \<and> 20 \<le> length packet \<and> length packet \<le> 1280 \<and>
    ipv4_destination packet = Some (subrange 16 20 packet) \<and>
    (valid_ipv4 packet network prefix mtu \<longleftrightarrow>
      (\<forall>i. 32 - prefix \<le> i \<and> i < 32 \<longrightarrow> bit (from_be source :: u32) i = bit address i))"
proof -
  have p: "20 \<le> length packet" "drop_bit 4 (packet ! 0) = 4" "20 \<le> unat (packet ! 0 AND 0x0f) * 4"
    "unat (packet ! 0 AND 0x0f) * 4 \<le> length packet"
    "unat (from_be (subrange 2 4 packet) :: u16) = length packet" "length packet \<le> 1280" "subrange 12 16 packet = source"
    using assms(1) by (auto simp: validate_ipv4_packet_def Let_def split: if_splits)
  then have "ipv4_destination packet = Some (subrange 16 20 packet)" by (simp add: ipv4_destination_def)
  moreover have "valid_ipv4 packet network prefix mtu \<longleftrightarrow> from_be source AND prefix_mask prefix = address AND prefix_mask prefix"
    using p assms(3,4) by (simp add: valid_ipv4_def)
  ultimately show ?thesis using p prefix_agree_iff [OF assms(2)] by blast
qed

theorem client_packets_pass_helper_witness:
  "\<exists>packet. validate_ipv4_packet packet [10, 77, 0, 2] = Inr () \<and>
     ipv4_destination packet = Some [8, 8, 8, 8] \<and> valid_ipv4 packet 0x0A4D0000 24 1280"
proof -
  let ?p = "[0x45, 0, 0, 20, 0, 0, 0, 0, 64, 17, 0x60, 0x7B, 10, 77, 0, 2, 8, 8, 8, 8] :: bytes"
  have "header_sum ?p = 65535" by (simp add: from_be_def)
  then have c: "ipv4_checksum ?p = 0" by (subst checksum_zero_iff) simp_all
  have "validate_ipv4_packet ?p [10, 77, 0, 2] = Inr ()"
    using c by (simp add: validate_ipv4_packet_def subrange_def from_be_def)
  moreover have "(0x0A4D0000 :: u32) = 0x0A4D0001 AND prefix_mask 24" by code_simp
  moreover have "\<forall>i. 32 - 24 \<le> i \<and> i < 32 \<longrightarrow> bit (from_be [10, 77, 0, 2] :: u32) i = bit (0x0A4D0001 :: u32) i"
    by (subst prefix_agree_iff [symmetric]) (simp, code_simp)
  ultimately show ?thesis using client_packets_pass_helper [of ?p "[10, 77, 0, 2]" 24 1280 "0x0A4D0000" "0x0A4D0001"]
    by (intro exI [of _ ?p]) (simp add: subrange_def)
qed

end
