(* ===== verification/Reka_Network.thy ===== *)
theory Reka_Network
  imports Reka_Ipv4
begin

text \<open>
  The packet switch of the server (\<open>network.rs\<close>) and the privileged process that owns the TUN device
  (\<open>bin/net_helper.rs\<close>). The registry maps a tunnel address to the session that holds it; a session's
  bounded channel is the queue of its entry. What sockets and the device do is the outcome a call is
  given. The flags that only decide whether a warning is logged are left out.
\<close>

section \<open>Model\<close>

record tun_settings =
  ts_name :: string
  ts_address :: string
  ts_prefix_len :: nat
  ts_mtu :: nat
  ts_session_queue :: nat
  ts_helper_socket :: "string option"
  ts_helper_client_socket :: "string option"

definition validate_settings :: "tun_settings \<Rightarrow> unit result" where
  "validate_settings settings =
     (if ts_name settings = [] \<or> length (ts_name settings) > 15 then Inl (Bail ''invalid TUN interface name'')
      else if \<not> (576 \<le> ts_mtu settings \<and> ts_mtu settings \<le> 9000) then Inl (Bail ''invalid TUN MTU'')
      else if \<not> (8 \<le> ts_session_queue settings \<and> ts_session_queue settings \<le> 4096)
      then Inl (Bail ''invalid session queue size'')
      else if parse_ipv4 (ts_address settings) = None then Inl (Bail ''invalid TUN IPv4 address'')
      else if \<not> (1 \<le> ts_prefix_len settings \<and> ts_prefix_len settings \<le> 30)
      then Inl (Bail ''invalid TUN prefix length'')
      else case (ts_helper_socket settings, ts_helper_client_socket settings) of
        (Some server, Some client) \<Rightarrow>
          if server \<noteq> client then Inr () else Inl (Bail ''helper socket paths must be different'')
      | (Some _, None) \<Rightarrow> Inl (Bail ''helper_client_socket is required'')
      | (None, Some _) \<Rightarrow> Inl (Bail ''helper_socket is required'')
      | (None, None) \<Rightarrow> Inr ())"

record registered_session =
  rg_id :: u64
  rg_queue :: "bytes list"
  rg_open :: bool

record session_lease =
  lease_ip :: bytes
  lease_id :: u64

record network =
  nw_next_id :: u64
  nw_sessions :: "bytes \<rightharpoonup> registered_session"
  nw_poisoned :: bool
  nw_session_queue :: nat
  nw_ready :: bool
  nw_registration_pending :: bool
  nw_received :: u64
  nw_routed :: u64
  nw_unrouted :: u64
  nw_invalid :: u64
  nw_dropped :: u64

definition network_new :: "nat \<Rightarrow> bool \<Rightarrow> network" where
  "network_new session_queue ready =
     \<lparr>nw_next_id = 1, nw_sessions = Map.empty, nw_poisoned = False, nw_session_queue = session_queue,
      nw_ready = ready, nw_registration_pending = False, nw_received = 0, nw_routed = 0, nw_unrouted = 0,
      nw_invalid = 0, nw_dropped = 0\<rparr>"

definition network_register :: "network \<Rightarrow> bytes \<Rightarrow> session_lease result \<times> network" where
  "network_register n ip =
     (let session_id = nw_next_id n;
          n1 = n\<lparr>nw_next_id := session_id + 1\<rparr>
      in if nw_poisoned n1 then (Inl (Bail ''session registry poisoned''), n1)
         else if nw_sessions n1 ip \<noteq> None then (Inl (Bail ''client already has an active session''), n1)
         else (Inr \<lparr>lease_ip = ip, lease_id = session_id\<rparr>,
               n1\<lparr>nw_sessions := (nw_sessions n1)(ip \<mapsto> \<lparr>rg_id = session_id, rg_queue = [], rg_open = True\<rparr>)\<rparr>))"

definition lease_drop :: "network \<Rightarrow> session_lease \<Rightarrow> network" where
  "lease_drop n lease =
     (if nw_poisoned n then n
      else case nw_sessions n (lease_ip lease) of
        Some session \<Rightarrow>
          if rg_id session = lease_id lease then n\<lparr>nw_sessions := (nw_sessions n)(lease_ip lease := None)\<rparr> else n
      | None \<Rightarrow> n)"

text \<open>\<open>try_send\<close> fails when the channel is full or its receiver is gone.\<close>

definition route_to_session :: "network \<Rightarrow> bytes \<Rightarrow> bytes \<Rightarrow> network" where
  "route_to_session n destination packet =
     (if nw_poisoned n then n\<lparr>nw_dropped := nw_dropped n + 1\<rparr>
      else case nw_sessions n destination of
        None \<Rightarrow> n\<lparr>nw_unrouted := nw_unrouted n + 1\<rparr>
      | Some session \<Rightarrow>
          if \<not> rg_open session \<or> nw_session_queue n \<le> length (rg_queue session)
          then n\<lparr>nw_dropped := nw_dropped n + 1\<rparr>
          else n\<lparr>nw_sessions := (nw_sessions n)(destination \<mapsto> session\<lparr>rg_queue := rg_queue session @ [packet]\<rparr>),
                 nw_routed := nw_routed n + 1\<rparr>)"

definition receive_packet :: "network \<Rightarrow> bytes \<Rightarrow> network" where
  "receive_packet n packet =
     (let n1 = n\<lparr>nw_received := nw_received n + 1\<rparr> in
      case ipv4_destination packet of
        Some destination \<Rightarrow> route_to_session n1 destination packet
      | None \<Rightarrow> n1\<lparr>nw_invalid := nw_invalid n1 + 1\<rparr>)"

definition helper_registration :: bytes where "helper_registration = ascii ''RSN1''"
definition helper_acknowledgement :: bytes where "helper_acknowledgement = ascii ''RSA1''"

text \<open>The reader task: one step per completed read or timer tick. A tick carries whether connecting to
  the helper and sending the registration worked.\<close>

datatype reader_event =
    TunReceived bytes
  | TunFailed
  | RegistrationTick bool "nat option"
  | HelperReceived bytes
  | HelperFailed

fun reader_step :: "network \<Rightarrow> reader_event \<Rightarrow> network" where
  "reader_step n (TunReceived packet) = receive_packet (n\<lparr>nw_ready := True\<rparr>) packet"
| "reader_step n TunFailed = n\<lparr>nw_ready := False\<rparr>"
| "reader_step n (RegistrationTick connected sent) =
     (let n1 = (if nw_registration_pending n then n\<lparr>nw_ready := False\<rparr> else n)\<lparr>nw_registration_pending := True\<rparr>
      in if connected \<and> sent = Some 4 then n1 else n1\<lparr>nw_ready := False\<rparr>)"
| "reader_step n (HelperReceived packet) =
     (if packet = helper_acknowledgement then n\<lparr>nw_registration_pending := False, nw_ready := True\<rparr>
      else receive_packet n packet)"
| "reader_step n HelperFailed = n\<lparr>nw_ready := False\<rparr>"

text \<open>A session takes the next packet of its channel.\<close>

definition take_outbound :: "network \<Rightarrow> session_lease \<Rightarrow> bytes option \<times> network" where
  "take_outbound n lease =
     (case nw_sessions n (lease_ip lease) of
        Some session \<Rightarrow>
          (if rg_id session \<noteq> lease_id lease then (None, n)
           else case rg_queue session of
             [] \<Rightarrow> (None, n)
           | packet # rest \<Rightarrow>
               (Some packet, n\<lparr>nw_sessions := (nw_sessions n)(lease_ip lease \<mapsto> session\<lparr>rg_queue := rest\<rparr>)\<rparr>))
      | None \<Rightarrow> (None, n))"

text \<open>The outcome of a socket or device call: the bytes written, the helper being away, or another error.\<close>

datatype io_outcome = Written nat | Unavailable | IoError string

definition io_error :: "io_outcome \<Rightarrow> string \<Rightarrow> nat result" where
  "io_error r message = (case r of Written w \<Rightarrow> Inr w | Unavailable \<Rightarrow> Inl (Bail message) | IoError _ \<Rightarrow> Inl (Bail message))"

definition send_to_kernel ::
    "network \<Rightarrow> bool \<Rightarrow> bytes \<Rightarrow> io_outcome \<Rightarrow> bool \<Rightarrow> io_outcome \<Rightarrow> unit result \<times> network" where
  "send_to_kernel n helper packet first reconnected second =
     (let (written, n1) =
            (if helper \<and> first = Unavailable then
               (let n1 = n\<lparr>nw_ready := False\<rparr>
                in if \<not> reconnected then (Inl (Bail ''reconnect network helper socket''), n1)
                   else (io_error second ''network helper send failed'', n1))
             else (io_error first ''network helper send failed'', n))
      in attempt written n1 (\<lambda>w.
           if w \<noteq> length packet then (Inl (Bail ''partial network packet write''), n1) else (Inr (), n1)))"

definition helper_connect_timeout :: duration where "helper_connect_timeout = 10 * 1000000000"

text \<open>The connection loop at start-up, over the outcomes of the attempts and the time after each; \<open>None\<close>
  while it still tries.\<close>

fun connect_helper :: "instant \<Rightarrow> (io_outcome \<times> instant) list \<Rightarrow> unit result option" where
  "connect_helper deadline [] = None"
| "connect_helper deadline ((outcome, now) # rest) =
     (case outcome of
        Written _ \<Rightarrow> Some (Inr ())
      | Unavailable \<Rightarrow>
          if now < deadline then connect_helper deadline rest
          else Some (Inl (Bail ''connect network helper socket''))
      | IoError _ \<Rightarrow> Some (Inl (Bail ''connect network helper socket'')))"

text \<open>The loop of the network helper. A packet from the TUN device comes with the outcome of handing it to
  the edge, a datagram with its sender being the edge's socket and with the outcome of what it causes.\<close>

record net_helper =
  nh_network :: u32
  nh_prefix :: nat
  nh_mtu :: nat
  nh_edge_registered :: bool
  nh_to_edge :: "bytes list"
  nh_to_tun :: "bytes list"

datatype helper_event = FromTun bytes io_outcome | FromEdge bool bytes io_outcome

definition helper_send_edge :: "net_helper \<Rightarrow> bytes \<Rightarrow> io_outcome \<Rightarrow> string \<Rightarrow> string \<Rightarrow> unit result \<times> net_helper" where
  "helper_send_edge h payload outcome partial failed =
     (case outcome of
        Written w \<Rightarrow>
          if w = length payload then (Inr (), h\<lparr>nh_to_edge := nh_to_edge h @ [payload]\<rparr>) else (Inl (Bail partial), h)
      | Unavailable \<Rightarrow> (Inr (), h\<lparr>nh_edge_registered := False\<rparr>)
      | IoError _ \<Rightarrow> (Inl (Bail failed), h))"

fun helper_step :: "net_helper \<Rightarrow> helper_event \<Rightarrow> unit result \<times> net_helper" where
  "helper_step h (FromTun packet outcome) =
     (if nh_edge_registered h
      then helper_send_edge h packet outcome ''partial packet send to edge'' ''send packet to edge''
      else (Inr (), h))"
| "helper_step h (FromEdge from_client datagram outcome) =
     (if \<not> from_client then (Inr (), h)
      else if datagram = helper_registration then
        helper_send_edge (h\<lparr>nh_edge_registered := True\<rparr>) helper_acknowledgement outcome
          ''partial registration acknowledgement'' ''send registration acknowledgement''
      else if \<not> nh_edge_registered h \<or> \<not> valid_ipv4 datagram (nh_network h) (nh_prefix h) (nh_mtu h) then (Inr (), h)
      else case outcome of
        Written w \<Rightarrow>
          if w \<noteq> length datagram then (Inl (Bail ''partial helper TUN write''), h)
          else (Inr (), h\<lparr>nh_to_tun := nh_to_tun h @ [datagram]\<rparr>)
      | _ \<Rightarrow> (Inl (Bail ''write helper TUN''), h))"

fun helper_run :: "net_helper \<Rightarrow> helper_event list \<Rightarrow> net_helper" where
  "helper_run h [] = h"
| "helper_run h (e # es) =
     (case helper_step h e of (Inr _, h') \<Rightarrow> helper_run h' es | (Inl _, h') \<Rightarrow> h')"

section \<open>Runs of the switch\<close>

text \<open>What can happen to the switch: sessions register, release the lease they hold, take packets, and
  the reader works. The second component is the leases that are held.\<close>

datatype net_event = Register bytes | Release session_lease | Read reader_event | Take session_lease

fun net_step :: "network \<times> session_lease list \<Rightarrow> net_event \<Rightarrow> network \<times> session_lease list" where
  "net_step (n, ls) (Register ip) =
     (case network_register n ip of (Inr l, n') \<Rightarrow> (n', l # ls) | (Inl _, n') \<Rightarrow> (n', ls))"
| "net_step (n, ls) (Release l) = (if l \<in> set ls then (lease_drop n l, removeAll l ls) else (n, ls))"
| "net_step (n, ls) (Read e) = (reader_step n e, ls)"
| "net_step (n, ls) (Take l) = (snd (take_outbound n l), ls)"

text \<open>The queue of an address holds packets for that address only and is within the limit.\<close>

definition queue_ok :: "nat \<Rightarrow> bytes \<Rightarrow> registered_session \<Rightarrow> bool" where
  "queue_ok limit ip r \<longleftrightarrow> length (rg_queue r) \<le> limit \<and> list_all (\<lambda>p. ipv4_destination p = Some ip) (rg_queue r)"

definition packets_counted :: "network \<Rightarrow> bool" where
  "packets_counted n \<longleftrightarrow> nw_received n = nw_routed n + nw_unrouted n + nw_invalid n + nw_dropped n"

definition entry_of :: "network \<Rightarrow> session_lease \<Rightarrow> bool" where
  "entry_of n l \<longleftrightarrow> (\<exists>r. nw_sessions n (lease_ip l) = Some r \<and> rg_id r = lease_id l)"

definition switch_inv :: "nat \<Rightarrow> network \<times> session_lease list \<Rightarrow> bool" where
  "switch_inv limit = (\<lambda>(n, ls). \<not> nw_poisoned n \<and> nw_session_queue n = limit \<and> packets_counted n \<and>
     (\<forall>l. entry_of n l \<longleftrightarrow> l \<in> set ls) \<and> (\<forall>ip r. nw_sessions n ip = Some r \<longrightarrow> queue_ok limit ip r))"

lemma lease_eqI: "lease_ip l = lease_ip m \<Longrightarrow> lease_id l = lease_id m \<Longrightarrow> l = (m :: session_lease)"
  by (cases l; cases m) simp

lemma switch_inv_register:
  assumes "switch_inv limit (n, ls)"
  shows "switch_inv limit (net_step (n, ls) (Register ip))"
proof (cases "nw_sessions n ip")
  case None
  define l where "l = \<lparr>lease_ip = ip, lease_id = nw_next_id n\<rparr>"
  have "\<not> nw_poisoned n" using assms by (simp add: switch_inv_def)
  then have "entry_of (snd (network_register n ip)) m \<longleftrightarrow> m = l \<or> entry_of n m" for m
    using None by (cases m) (auto simp: network_register_def entry_of_def l_def Let_def)
  then show ?thesis using assms None
    by (auto simp: network_register_def switch_inv_def packets_counted_def queue_ok_def Let_def l_def [symmetric])
next
  case (Some r)
  then show ?thesis using assms
    by (auto simp: network_register_def switch_inv_def packets_counted_def entry_of_def Let_def)
qed

lemma switch_inv_release:
  assumes "switch_inv limit (n, ls)"
  shows "switch_inv limit (net_step (n, ls) (Release l))"
proof (cases "l \<in> set ls")
  case True
  then have "entry_of n l" and np: "\<not> nw_poisoned n" using assms by (auto simp: switch_inv_def)
  then obtain r where r: "nw_sessions n (lease_ip l) = Some r" "rg_id r = lease_id l" by (auto simp: entry_of_def)
  have "entry_of (lease_drop n l) m \<longleftrightarrow> entry_of n m \<and> m \<noteq> l" for m
    using np r by (auto simp: lease_drop_def entry_of_def intro: lease_eqI)
  then show ?thesis using assms r True
    by (auto simp: lease_drop_def switch_inv_def packets_counted_def)
qed (use assms in simp)

lemma switch_inv_receive:
  assumes "switch_inv limit (n, ls)"
  shows "switch_inv limit (receive_packet n packet, ls)"
proof (cases "ipv4_destination packet")
  case None
  then show ?thesis using assms by (auto simp: receive_packet_def switch_inv_def packets_counted_def entry_of_def)
next
  case (Some destination)
  show ?thesis
  proof (cases "nw_sessions n destination")
    case None
    then show ?thesis using assms Some
      by (auto simp: receive_packet_def route_to_session_def switch_inv_def packets_counted_def entry_of_def)
  next
    case (Some r)
    have "\<not> nw_poisoned n" using assms by (simp add: switch_inv_def)
    then have "entry_of (receive_packet n packet) m \<longleftrightarrow> entry_of n m" for m
      using Some \<open>ipv4_destination packet = Some destination\<close>
      by (auto simp: receive_packet_def route_to_session_def entry_of_def Let_def)
    then show ?thesis using assms Some \<open>ipv4_destination packet = Some destination\<close>
      by (auto simp: receive_packet_def route_to_session_def switch_inv_def packets_counted_def queue_ok_def Let_def)
  qed
qed

lemma switch_inv_flags [simp]:
  "switch_inv limit (n\<lparr>nw_ready := b\<rparr>, ls) \<longleftrightarrow> switch_inv limit (n, ls)"
  "switch_inv limit (n\<lparr>nw_registration_pending := b\<rparr>, ls) \<longleftrightarrow> switch_inv limit (n, ls)"
  by (auto simp: switch_inv_def packets_counted_def entry_of_def)

lemma switch_inv_read: "switch_inv limit (n, ls) \<Longrightarrow> switch_inv limit (reader_step n e, ls)"
  by (cases e) (auto simp: switch_inv_receive Let_def)

lemma switch_inv_take:
  assumes "switch_inv limit (n, ls)"
  shows "switch_inv limit (snd (take_outbound n l), ls)"
proof (cases "fst (take_outbound n l)")
  case None
  then show ?thesis using assms by (auto simp: take_outbound_def split: option.splits list.splits if_splits)
next
  case (Some p)
  then obtain r rest where r: "nw_sessions n (lease_ip l) = Some r" "rg_id r = lease_id l" "rg_queue r = p # rest"
    by (auto simp: take_outbound_def split: option.splits list.splits if_splits)
  have "entry_of (snd (take_outbound n l)) m \<longleftrightarrow> entry_of n m" for m
    using r by (auto simp: take_outbound_def entry_of_def)
  then show ?thesis using assms r by (fastforce simp: take_outbound_def switch_inv_def packets_counted_def queue_ok_def)
qed

interpretation switch: event_machine net_step "switch_inv limit" for limit
proof
  fix s e
  assume "switch_inv limit s"
  then show "switch_inv limit (net_step s e)"
    using switch_inv_register switch_inv_release switch_inv_read switch_inv_take
    by (cases s; cases e) auto
qed

lemma switch_inv_new: "switch_inv limit (network_new limit ready, [])"
  by (simp add: switch_inv_def network_new_def packets_counted_def entry_of_def)

lemma switch_reachable: "switch_inv q (foldl net_step (network_new q ready, []) es)"
  by (rule switch.run_invar) (rule switch_inv_new)

section \<open>The helper\<close>

definition helper_same :: "net_helper \<Rightarrow> net_helper \<Rightarrow> bool" where
  "helper_same h h' \<longleftrightarrow> nh_network h' = nh_network h \<and> nh_prefix h' = nh_prefix h \<and> nh_mtu h' = nh_mtu h"

text \<open>One step: the configuration stays, the TUN device gets at most one packet, which is valid, and
  without a registration nothing moves.\<close>

lemma helper_step_effect:
  assumes "helper_step h e = (r, h')"
  shows "helper_same h h' \<and>
    (nh_to_tun h' = nh_to_tun h \<or> nh_edge_registered h \<and>
      (\<exists>p. nh_to_tun h' = nh_to_tun h @ [p] \<and> valid_ipv4 p (nh_network h) (nh_prefix h) (nh_mtu h))) \<and>
    (\<not> nh_edge_registered h \<and> (\<forall>o'. e \<noteq> FromEdge True helper_registration o') \<longrightarrow> h' = h)"
  using assms
  by (cases e) (auto simp: helper_same_def helper_send_edge_def split: if_splits io_outcome.splits)

lemma helper_run_effect:
  assumes "list_all (\<lambda>p. valid_ipv4 p (nh_network h) (nh_prefix h) (nh_mtu h)) (nh_to_tun h)"
  shows "list_all (\<lambda>p. valid_ipv4 p (nh_network h) (nh_prefix h) (nh_mtu h)) (nh_to_tun (helper_run h es)) \<and>
    (\<not> nh_edge_registered h \<and> (\<forall>o'. FromEdge True helper_registration o' \<notin> set es) \<longrightarrow> helper_run h es = h)"
  using assms
proof (induction es arbitrary: h)
  case (Cons e es)
  obtain r h' where s: "helper_step h e = (r, h')" by fastforce
  note eff = helper_step_effect [OF s]
  have v: "list_all (\<lambda>p. valid_ipv4 p (nh_network h') (nh_prefix h') (nh_mtu h')) (nh_to_tun h')"
    using eff Cons.prems by (auto simp: helper_same_def)
  have "\<not> nh_edge_registered h \<and> (\<forall>o'. FromEdge True helper_registration o' \<notin> set (e # es)) \<longrightarrow> h' = h"
    using eff by (metis list.set_intros(1))
  then show ?case using Cons.IH [OF v] eff v by (cases r) (auto simp: s helper_same_def)
qed simp

section \<open>Properties\<close>


text \<open>A session only ever takes packets addressed to the tunnel address it leases, its channel never
  holds more packets than configured, and every packet read from the kernel is counted exactly once as
  routed, unrouted, invalid or dropped.\<close>

theorem packets_routed_to_owner:
  assumes "foldl net_step (network_new q ready, []) es = (n, ls)" and "fst (take_outbound n l) = Some packet"
  shows "l \<in> set ls \<and> ipv4_destination packet = Some (lease_ip l) \<and>
    (\<exists>r. nw_sessions n (lease_ip l) = Some r \<and> length (rg_queue r) \<le> q) \<and>
    nw_received n = nw_routed n + nw_unrouted n + nw_invalid n + nw_dropped n"
proof -
  obtain r rest where r: "nw_sessions n (lease_ip l) = Some r" "rg_id r = lease_id l" "rg_queue r = packet # rest"
    using assms(2) by (auto simp: take_outbound_def split: option.splits list.splits if_splits)
  have inv: "switch_inv q (n, ls)" using switch_reachable [of q ready es] by (simp add: assms(1))
  then have "queue_ok q (lease_ip l) r" "packets_counted n" "l \<in> set ls"
    using r by (auto simp: switch_inv_def entry_of_def)
  then show ?thesis using r by (auto simp: queue_ok_def packets_counted_def)
qed

theorem packets_routed_to_owner_witness:
  "\<exists>n l packet. foldl net_step (network_new 8 True, [])
       [Register [10, 77, 0, 2], Read (TunReceived [0x45, 0, 0, 20, 0, 0, 0, 0, 0, 0, 0, 0, 0, 0, 0, 0, 10, 77, 0, 2])] = (n, [l]) \<and>
     fst (take_outbound n l) = Some packet \<and> ipv4_destination packet = Some (lease_ip l) \<and> nw_received n = nw_routed n"
proof -
  let ?p = "[0x45, 0, 0, 20, 0, 0, 0, 0, 0, 0, 0, 0, 0, 0, 0, 0, 10, 77, 0, 2] :: bytes"
  have d: "ipv4_destination ?p = Some [10, 77, 0, 2]"
    by (simp add: ipv4_destination_def subrange_def from_be_def)
  define l where "l = \<lparr>lease_ip = [10, 77, 0, 2], lease_id = 1\<rparr>"
  define n where "n = (network_new 8 True)\<lparr>nw_next_id := 2, nw_received := 1, nw_routed := 1,
      nw_sessions := [[10, 77, 0, 2] \<mapsto> \<lparr>rg_id = 1, rg_queue = [?p], rg_open = True\<rparr>]\<rparr>"
  have f: "foldl net_step (network_new 8 True, []) [Register [10, 77, 0, 2], Read (TunReceived ?p)] = (n, [l])"
    by (simp add: n_def l_def network_register_def receive_packet_def d route_to_session_def network_new_def)
  have "fst (take_outbound n l) = Some ?p" by (simp add: n_def l_def take_outbound_def)
  from packets_routed_to_owner [OF f this] this f show ?thesis
    by (intro exI [of _ n] exI [of _ l] exI [of _ ?p]) (simp add: n_def network_new_def)
qed

text \<open>The network helper puts on the TUN device only packets that pass its check, whatever arrives on its
  socket, and as long as the edge server has not registered it neither forwards nor accepts anything.\<close>

theorem helper_gatekeeps:
  assumes "nh_to_tun h = []"
  shows "list_all (\<lambda>p. valid_ipv4 p (nh_network h) (nh_prefix h) (nh_mtu h)) (nh_to_tun (helper_run h es)) \<and>
    (\<not> nh_edge_registered h \<and> (\<forall>o'. FromEdge True helper_registration o' \<notin> set es) \<longrightarrow> helper_run h es = h)"
  using helper_run_effect [of h es] assms by simp

theorem helper_gatekeeps_witness:
  "let h = \<lparr>nh_network = 0x0A4D0000, nh_prefix = 24, nh_mtu = 1280, nh_edge_registered = False, nh_to_edge = [], nh_to_tun = []\<rparr>
   in helper_run h [FromTun [1] (Written 1), FromEdge False [2] Unavailable] = h"
  using helper_gatekeeps [of "\<lparr>nh_network = 0x0A4D0000, nh_prefix = 24, nh_mtu = 1280, nh_edge_registered = False,
      nh_to_edge = [], nh_to_tun = []\<rparr>" "[FromTun [1] (Written 1), FromEdge False [2] Unavailable]"]
  by (simp add: Let_def)

end
