(* ===== verification/Reka_Policy.thy ===== *)
theory Reka_Policy
  imports Reka_Prelude
begin

text \<open>
  The traffic policy of a session (\<open>session.rs\<close>): lifetime, byte quota and token bucket. Counters are
  naturals with the saturations and checked additions of the code written out; time is in nanoseconds.
  The properties: a session never transfers more than its quota, is granted nothing that would end
  after its lifetime, and its grants stay within burst plus rate times elapsed time as long as the
  caller waits the returned delays, which \<open>shape_traffic\<close> in \<open>main.rs\<close> does.
\<close>

section \<open>Model\<close>

record token_bucket =
  tb_rate :: nat
  tb_capacity :: nat
  tb_tokens :: nat
  tb_updated_at :: instant

record session_policy =
  sp_deadline :: instant
  sp_quota :: "nat option"
  sp_transferred :: nat
  sp_bucket :: token_bucket

definition nanos_per_sec :: nat where "nanos_per_sec = 1000000000"

definition u64_max :: nat where "u64_max = 2 ^ 64 - 1"

definition burst_clamp :: "nat \<Rightarrow> nat" where
  "burst_clamp n = max (16 * 1024) (min n (4 * 1024 * 1024))"

definition session_policy_new :: "nat \<Rightarrow> nat \<Rightarrow> nat \<Rightarrow> instant \<Rightarrow> session_policy result" where
  "session_policy_new lifetime_seconds bandwidth quota_bytes now =
     (if \<not> (60 \<le> lifetime_seconds \<and> lifetime_seconds \<le> 86400) then Inl (Bail ''invalid session lifetime'')
      else if \<not> (1024 \<le> bandwidth \<and> bandwidth \<le> 1024 * 1024 * 1024) then Inl (Bail ''invalid session bandwidth'')
      else Inr \<lparr>sp_deadline = now + int (lifetime_seconds * nanos_per_sec),
                sp_quota = (if quota_bytes \<noteq> 0 then Some quota_bytes else None),
                sp_transferred = 0,
                sp_bucket = \<lparr>tb_rate = bandwidth, tb_capacity = burst_clamp bandwidth,
                             tb_tokens = burst_clamp bandwidth, tb_updated_at = now\<rparr>\<rparr>)"

definition token_bucket_replenish :: "token_bucket \<Rightarrow> instant \<Rightarrow> token_bucket" where
  "token_bucket_replenish b now =
     (let elapsed = nat (now - tb_updated_at b);
          replenished = min (min (elapsed * tb_rate b) (2 ^ 128 - 1) div nanos_per_sec) u64_max
      in b\<lparr>tb_tokens := min (min (tb_tokens b + replenished) u64_max) (tb_capacity b),
           tb_updated_at := now\<rparr>)"

definition token_bucket_reserve :: "token_bucket \<Rightarrow> nat \<Rightarrow> instant \<Rightarrow> duration \<times> token_bucket" where
  "token_bucket_reserve b0 bytes now =
     (let b = token_bucket_replenish b0 now in
      if bytes \<le> tb_tokens b then (0, b\<lparr>tb_tokens := tb_tokens b - bytes\<rparr>)
      else
        let deficit = bytes - tb_tokens b;
            nanos = (deficit * nanos_per_sec + tb_rate b - 1) div tb_rate b;
            delay = min nanos u64_max
        in (delay, b\<lparr>tb_tokens := 0, tb_updated_at := now + int delay\<rparr>))"

definition session_policy_reserve ::
    "session_policy \<Rightarrow> nat \<Rightarrow> instant \<Rightarrow> duration result \<times> session_policy" where
  "session_policy_reserve p bytes now =
     (if sp_deadline p \<le> now then (Inl (Bail ''session lifetime expired''), p)
      else
        let next_total = sp_transferred p + bytes in
        if next_total > u64_max then (Inl (Bail ''session quota counter overflow''), p)
        else if (case sp_quota p of None \<Rightarrow> False | Some quota \<Rightarrow> next_total > quota)
        then (Inl (Bail ''session quota exceeded''), p)
        else
          let (delay, bucket) = token_bucket_reserve (sp_bucket p) bytes now;
              p' = p\<lparr>sp_bucket := bucket\<rparr>
          in if sp_deadline p \<le> now + int delay
             then (Inl (Bail ''session lifetime expires during shaping''), p')
             else (Inr delay, p'\<lparr>sp_transferred := next_total\<rparr>))"

section \<open>Specification\<close>

text \<open>A run of requests: the granted ones, as bytes, time and delay, and the final state.\<close>

fun reserve_run :: "session_policy \<Rightarrow> (nat \<times> instant) list \<Rightarrow> (nat \<times> instant \<times> duration) list \<times> session_policy" where
  "reserve_run p [] = ([], p)"
| "reserve_run p ((bytes, now) # rs) =
     (let (res, p') = session_policy_reserve p bytes now; (out, t) = reserve_run p' rs
      in (case res of Inl _ \<Rightarrow> out | Inr delay \<Rightarrow> (bytes, now, delay) # out, t))"

definition granted_bytes :: "(nat \<times> instant \<times> duration) list \<Rightarrow> nat" where
  "granted_bytes gs = sum_list (map fst gs)"

text \<open>Requests that come no earlier than the instant up to which the bucket is spent.\<close>

fun paced :: "session_policy \<Rightarrow> (nat \<times> instant) list \<Rightarrow> bool" where
  "paced p [] \<longleftrightarrow> True"
| "paced p ((bytes, now) # rs) \<longleftrightarrow>
     tb_updated_at (sp_bucket p) \<le> now \<and> paced (snd (session_policy_reserve p bytes now)) rs"

text \<open>What was granted since \<open>t0\<close> is covered by the burst and the elapsed time.\<close>

definition within_rate :: "instant \<Rightarrow> nat \<Rightarrow> token_bucket \<Rightarrow> bool" where
  "within_rate t0 granted b \<longleftrightarrow> 0 < tb_rate b \<and> tb_tokens b \<le> tb_capacity b \<and> t0 \<le> tb_updated_at b \<and>
     int (granted + tb_tokens b) * int nanos_per_sec \<le>
       int (tb_capacity b) * int nanos_per_sec + int (tb_rate b) * (tb_updated_at b - t0)"

section \<open>Lemmas\<close>

lemma div_ceil_bounds:
  fixes a r :: nat
  assumes "0 < r"
  shows "a \<le> (a + r - 1) div r * r"
proof -
  have "a + r - 1 < (a + r - 1) div r * r + r"
    using assms by (metis add.commute dividend_less_div_times)
  then show ?thesis using assms by simp
qed

lemma replenish_within:
  assumes "within_rate t0 granted b" and "tb_updated_at b \<le> now"
  shows "within_rate t0 granted (token_bucket_replenish b now)"
proof -
  define e where "e = nat (now - tb_updated_at b)"
  have e: "int e = now - tb_updated_at b" using assms(2) by (simp add: e_def)
  let ?r = "min (min (e * tb_rate b) (2 ^ 128 - 1) div nanos_per_sec) u64_max"
  have "?r * nanos_per_sec \<le> e * tb_rate b"
  proof -
    have "?r \<le> (e * tb_rate b) div nanos_per_sec"
      by (metis div_le_mono min.cobounded1 order_trans)
    then show ?thesis by (metis div_times_less_eq_dividend mult_le_mono1 order_trans)
  qed
  then have r: "int ?r * int nanos_per_sec \<le> (now - tb_updated_at b) * int (tb_rate b)"
    unfolding e [symmetric] by (metis of_nat_le_iff of_nat_mult)
  have t: "tb_tokens (token_bucket_replenish b now) \<le> tb_tokens b + ?r"
    by (simp add: token_bucket_replenish_def e_def Let_def min_le_iff_disj)
  then have "int (granted + tb_tokens (token_bucket_replenish b now)) * int nanos_per_sec \<le>
      int (granted + tb_tokens b) * int nanos_per_sec + int ?r * int nanos_per_sec"
    unfolding distrib_right [symmetric] by (intro mult_right_mono) auto
  also have "\<dots> \<le> int (tb_capacity b) * int nanos_per_sec + int (tb_rate b) * (tb_updated_at b - t0)
      + (now - tb_updated_at b) * int (tb_rate b)"
    using r assms(1) by (simp add: within_rate_def)
  also have "\<dots> = int (tb_capacity b) * int nanos_per_sec + int (tb_rate b) * (now - t0)"
    by (simp add: algebra_simps)
  finally have "int (granted + tb_tokens (token_bucket_replenish b now)) * int nanos_per_sec \<le>
      int (tb_capacity b) * int nanos_per_sec + int (tb_rate b) * (now - t0)" .
  moreover have "tb_updated_at (token_bucket_replenish b now) = now"
    "tb_rate (token_bucket_replenish b now) = tb_rate b"
    "tb_capacity (token_bucket_replenish b now) = tb_capacity b"
    "tb_tokens (token_bucket_replenish b now) \<le> tb_capacity b"
    by (simp_all add: token_bucket_replenish_def Let_def)
  ultimately show ?thesis using assms unfolding within_rate_def by simp
qed

lemma reserve_within:
  assumes "within_rate t0 granted b" and "tb_updated_at b \<le> now"
    and "token_bucket_reserve b bytes now = (delay, b')"
  shows "within_rate t0 granted b' \<and> (delay < u64_max \<longrightarrow> within_rate t0 (granted + bytes) b') \<and>
    tb_updated_at b' = now + int delay \<and> tb_rate b' = tb_rate b \<and> tb_capacity b' = tb_capacity b"
proof -
  define c where "c = token_bucket_replenish b now"
  have w: "within_rate t0 granted c" using replenish_within [OF assms(1,2)] by (simp add: c_def)
  have cb: "tb_updated_at c = now" "tb_rate c = tb_rate b" "tb_capacity c = tb_capacity b"
    by (simp_all add: c_def token_bucket_replenish_def Let_def)
  show ?thesis
  proof (cases "bytes \<le> tb_tokens c")
    case True
    then have "delay = 0" "b' = c\<lparr>tb_tokens := tb_tokens c - bytes\<rparr>"
      using assms(3) by (simp_all add: token_bucket_reserve_def Let_def flip: c_def)
    moreover have "int (granted + (tb_tokens c - bytes)) * int nanos_per_sec \<le> int (granted + tb_tokens c) * int nanos_per_sec"
      by (intro mult_right_mono) auto
    ultimately show ?thesis using w cb True by (auto simp: within_rate_def)
  next
    case False
    let ?n = "((bytes - tb_tokens c) * nanos_per_sec + tb_rate c - 1) div tb_rate c"
    have d: "delay = min ?n u64_max" "b' = c\<lparr>tb_tokens := 0, tb_updated_at := now + int delay\<rparr>"
      using False assms(3) by (auto simp: token_bucket_reserve_def Let_def simp flip: c_def)
    have old: "int granted * int nanos_per_sec \<le> int (tb_capacity c) * int nanos_per_sec + int (tb_rate c) * (now + int delay - t0)"
      and new: "delay < u64_max \<Longrightarrow> int (granted + bytes) * int nanos_per_sec \<le>
        int (tb_capacity c) * int nanos_per_sec + int (tb_rate c) * (now + int delay - t0)"
    proof -
      have base: "int (granted + tb_tokens c) * int nanos_per_sec + int (tb_rate c) * int delay \<le>
          int (tb_capacity c) * int nanos_per_sec + int (tb_rate c) * (now + int delay - t0)"
        using w cb by (simp add: within_rate_def algebra_simps)
      have "int granted * int nanos_per_sec \<le> int (granted + tb_tokens c) * int nanos_per_sec"
        by (intro mult_right_mono) auto
      moreover have "0 \<le> int (tb_rate c) * int delay" by simp
      ultimately show "int granted * int nanos_per_sec \<le> int (tb_capacity c) * int nanos_per_sec + int (tb_rate c) * (now + int delay - t0)"
        using base by linarith
      assume "delay < u64_max"
      then have "delay = ?n" using d(1) by simp
      then have "(bytes - tb_tokens c) * nanos_per_sec \<le> delay * tb_rate c"
        using div_ceil_bounds [of "tb_rate c"] w by (simp add: within_rate_def)
      then have "int ((bytes - tb_tokens c) * nanos_per_sec) \<le> int (delay * tb_rate c)" by (simp only: of_nat_le_iff)
      then have "int (bytes - tb_tokens c) * int nanos_per_sec \<le> int (tb_rate c) * int delay" by (simp add: mult.commute)
      moreover have "int (granted + bytes) = int (granted + tb_tokens c) + int (bytes - tb_tokens c)" using False by simp
      then have "int (granted + bytes) * int nanos_per_sec =
          int (granted + tb_tokens c) * int nanos_per_sec + int (bytes - tb_tokens c) * int nanos_per_sec"
        by (simp only: distrib_right)
      ultimately show "int (granted + bytes) * int nanos_per_sec \<le>
          int (tb_capacity c) * int nanos_per_sec + int (tb_rate c) * (now + int delay - t0)"
        using base by linarith
    qed
    show ?thesis using w cb d(2) old new by (auto simp: within_rate_def)
  qed
qed

text \<open>One request against the whole policy.\<close>

lemma session_policy_reserve_cases:
  assumes "session_policy_reserve p bytes now = (res, p')"
  shows "sp_deadline p' = sp_deadline p \<and> sp_quota p' = sp_quota p \<and>
    (case res of
       Inl e \<Rightarrow> sp_transferred p' = sp_transferred p \<and>
         (sp_bucket p' = sp_bucket p \<or> sp_bucket p' = snd (token_bucket_reserve (sp_bucket p) bytes now))
     | Inr delay \<Rightarrow> sp_transferred p' = sp_transferred p + bytes \<and>
         token_bucket_reserve (sp_bucket p) bytes now = (delay, sp_bucket p') \<and>
         now + int delay < sp_deadline p \<and> sp_transferred p' \<le> u64_max \<and>
         (case sp_quota p of None \<Rightarrow> True | Some q \<Rightarrow> sp_transferred p' \<le> q))"
  using assms
  by (auto simp: session_policy_reserve_def Let_def split_beta split: if_splits option.splits)

definition policy_wf :: "session_policy \<Rightarrow> bool" where
  "policy_wf p \<longleftrightarrow> (case sp_quota p of None \<Rightarrow> True | Some q \<Rightarrow> sp_transferred p \<le> q)"

lemma reserve_run_total:
  assumes "policy_wf p" and "reserve_run p rs = (out, t)"
  shows "sp_transferred t = sp_transferred p + granted_bytes out \<and> sp_quota t = sp_quota p \<and> policy_wf t \<and>
    list_all (\<lambda>(bytes, now, delay). now + int delay < sp_deadline p) out"
  using assms
proof (induction rs arbitrary: p out)
  case (Cons r rs)
  obtain bytes now where r: "r = (bytes, now)" by fastforce
  obtain res p' where s: "session_policy_reserve p bytes now = (res, p')" by fastforce
  obtain out' where o: "reserve_run p' rs = (out', t)"
    "out = (case res of Inl _ \<Rightarrow> out' | Inr delay \<Rightarrow> (bytes, now, delay) # out')"
    using Cons.prems(2) by (cases "reserve_run p' rs") (auto simp: r s)
  note c = session_policy_reserve_cases [OF s]
  have "policy_wf p'" using c Cons.prems(1) by (auto simp: policy_wf_def split: sum.splits option.splits)
  then show ?case using Cons.IH [OF _ o(1)] c
    by (cases res) (auto simp: o(2) granted_bytes_def)
qed (simp add: granted_bytes_def)

lemma reserve_run_rate:
  assumes "within_rate t0 g (sp_bucket p)" and "paced p rs" and "reserve_run p rs = (out, t)"
    and "sp_deadline p < t0 + int u64_max"
  shows "within_rate t0 (g + granted_bytes out) (sp_bucket t) \<and> tb_rate (sp_bucket t) = tb_rate (sp_bucket p) \<and>
    tb_capacity (sp_bucket t) = tb_capacity (sp_bucket p)"
  using assms
proof (induction rs arbitrary: p g out)
  case (Cons r rs)
  obtain bytes now where r: "r = (bytes, now)" by fastforce
  obtain res p' where s: "session_policy_reserve p bytes now = (res, p')" by fastforce
  obtain out' where o: "reserve_run p' rs = (out', t)"
    "out = (case res of Inl _ \<Rightarrow> out' | Inr delay \<Rightarrow> (bytes, now, delay) # out')"
    using Cons.prems(3) by (cases "reserve_run p' rs") (auto simp: r s)
  note c = session_policy_reserve_cases [OF s]
  have pace: "tb_updated_at (sp_bucket p) \<le> now" "paced p' rs" using Cons.prems(2) by (auto simp: r s)
  have bucket: "within_rate t0 g (snd (token_bucket_reserve (sp_bucket p) bytes now)) \<and>
      tb_rate (snd (token_bucket_reserve (sp_bucket p) bytes now)) = tb_rate (sp_bucket p) \<and>
      tb_capacity (snd (token_bucket_reserve (sp_bucket p) bytes now)) = tb_capacity (sp_bucket p)"
    using reserve_within [OF Cons.prems(1) pace(1) surjective_pairing] by blast
  show ?case
  proof (cases res)
    case (Inl e)
    then have "within_rate t0 g (sp_bucket p') \<and> tb_rate (sp_bucket p') = tb_rate (sp_bucket p) \<and>
        tb_capacity (sp_bucket p') = tb_capacity (sp_bucket p)"
      using c bucket Cons.prems(1) by auto
    then show ?thesis using Cons.IH [OF _ pace(2) o(1), of g] Cons.prems(4) c Inl by (simp add: o(2))
  next
    case (Inr delay)
    have "delay < u64_max"
      using c Inr Cons.prems(1,4) pace(1) by (auto simp: within_rate_def)
    then have "within_rate t0 (g + bytes) (sp_bucket p') \<and> tb_rate (sp_bucket p') = tb_rate (sp_bucket p) \<and>
        tb_capacity (sp_bucket p') = tb_capacity (sp_bucket p)"
      using reserve_within [OF Cons.prems(1) pace(1)] c Inr by auto
    then show ?thesis using Cons.IH [OF _ pace(2) o(1), of "g + bytes"] Cons.prems(4) c Inr
      by (simp add: o(2) granted_bytes_def add.assoc)
  qed
qed (simp add: granted_bytes_def)

section \<open>Properties\<close>





end
