(* ===== verification/Reka_Config.thy ===== *)
theory Reka_Config
  imports Reka_Network Reka_Policy Reka_Crypto
begin

text \<open>
  The configuration of the server: \<open>Config\<close>, \<open>ClientConfig\<close>, \<open>validate_config\<close> and \<open>Runtime::from_config\<close>
  of \<open>main.rs\<close>, with \<open>Server::validate\<close> and \<open>load_tls_config\<close> of \<open>h3_edge.rs\<close>. What lies outside the program is
  the parameter \<open>config_env\<close>: the base64 and key decoders of the crates, address parsers that only separate
  two error messages, the file system, and the PEM readers and certificate check of the TLS library. Texts are
  ASCII.
\<close>

unbundle bit_operations_syntax

section \<open>Model\<close>

record config_env =
  ce_base64 :: "string \<Rightarrow> bytes option"
  ce_verifying_key :: "bytes \<Rightarrow> bool"
  ce_public_of_seed :: "bytes \<Rightarrow> bytes"
  ce_is_ipv6 :: "string \<Rightarrow> bool"
  ce_is_socket_addr :: "string \<Rightarrow> bool"
  ce_metadata :: "string \<Rightarrow> (bool \<times> nat) option"
  ce_is_dir :: "string \<Rightarrow> bool option"
  ce_canonicalize :: "string \<Rightarrow> string option"
  ce_certificates :: "string \<Rightarrow> bytes list result"
  ce_private_key :: "string \<Rightarrow> bytes result"
  ce_single_cert :: "bytes list \<Rightarrow> bytes \<Rightarrow> unit result"

record client_config =
  cc_client_id_b64 :: string
  cc_client_public_key_b64 :: string
  cc_gate_key_b64 :: string
  cc_tunnel_ipv4 :: string
  cc_revoked :: bool
  cc_session_lifetime_seconds :: nat
  cc_bandwidth_bytes_per_second :: nat
  cc_session_quota_bytes :: nat

record h3_config =
  hc_listen :: string
  hc_authority :: string
  hc_path :: string
  hc_certificate_pem :: string
  hc_private_key_pem :: string
  hc_decoy_root :: string

record server_config =
  sc_listen :: string
  sc_authority :: string
  sc_tunnel_path :: string
  sc_server_signing_seed_b64 :: string
  sc_tun :: tun_settings
  sc_clients :: "client_config list"
  sc_h3 :: "h3_config option"

record client =
  cl_id :: bytes
  cl_public_key :: bytes
  cl_gate_key :: bytes
  cl_tunnel_ipv4 :: bytes
  cl_session_lifetime_seconds :: nat
  cl_bandwidth_bytes_per_second :: nat
  cl_session_quota_bytes :: nat

text \<open>The part of \<open>Runtime\<close> that never changes; its caches are in the theory of the admission checks.\<close>

record runtime_config =
  rt_authority :: string
  rt_tunnel_path :: string
  rt_server_seed :: bytes
  rt_server_public :: bytes
  rt_server_key_id :: bytes
  rt_clients :: "bytes \<rightharpoonup> client"

definition key_id :: "crypto \<Rightarrow> string \<Rightarrow> bytes \<Rightarrow> bytes" where
  "key_id C label public_key = take 16 (hash_parts C [ascii label, public_key])"

definition decode_fixed :: "config_env \<Rightarrow> nat \<Rightarrow> string \<Rightarrow> string \<Rightarrow> bytes result" where
  "decode_fixed env n encoded what =
     and_then (ok_or (ce_base64 env encoded) (Bail (''decode '' @ what))) (\<lambda>bs.
       if length bs = n then Inr bs else Inl (Bail (what @ '' has a wrong length'')))"

definition ends_with :: "string \<Rightarrow> string \<Rightarrow> bool" where
  "ends_with suffix s \<longleftrightarrow> length suffix \<le> length s \<and> drop (length s - length suffix) s = suffix"

definition has_whitespace :: "string \<Rightarrow> bool" where
  "has_whitespace s = list_ex (\<lambda>c. (of_char c :: nat) = 32 \<or> 9 \<le> (of_char c :: nat) \<and> (of_char c :: nat) \<le> 13) s"

definition starts_with_slash :: "string \<Rightarrow> bool" where
  "starts_with_slash s \<longleftrightarrow> s \<noteq> [] \<and> hd s = CHR ''/''"

text \<open>The subnet of the tunnel: mask, network and broadcast address.\<close>

record subnet =
  sn_server :: u32
  sn_mask :: u32
  sn_network :: u32
  sn_broadcast :: u32

definition subnet_of :: "bytes \<Rightarrow> nat \<Rightarrow> subnet" where
  "subnet_of server_ip prefix_len =
     (let mask = push_bit (32 - prefix_len) (- 1);
          network = from_be server_ip AND mask
      in \<lparr>sn_server = from_be server_ip, sn_mask = mask, sn_network = network, sn_broadcast = network OR NOT mask\<rparr>)"

definition parse_client_ip :: "config_env \<Rightarrow> string \<Rightarrow> bytes result" where
  "parse_client_ip env text =
     (case parse_ipv4 text of
        Some ip \<Rightarrow> Inr ip
      | None \<Rightarrow> if ce_is_ipv6 env text then Inl (Bail ''tunnel_ipv4 must be IPv4'') else Inl (Bail ''invalid tunnel IPv4''))"

text \<open>One round of the loop over the configured clients: identifiers seen, addresses in use, and the map.\<close>

definition add_client ::
    "config_env \<Rightarrow> subnet \<Rightarrow> client_config \<Rightarrow> bytes set \<times> bytes set \<times> (bytes \<rightharpoonup> client) \<Rightarrow>
     (bytes set \<times> bytes set \<times> (bytes \<rightharpoonup> client)) result" where
  "add_client env sn item st =
     (case st of (configured_ids, tunnel_addresses, clients) \<Rightarrow>
      and_then (decode_fixed env 16 (cc_client_id_b64 item) ''client id'') (\<lambda>cid.
      if cid \<in> configured_ids then Inl (Bail ''duplicate client id'')
      else
      and_then (decode_fixed env 32 (cc_client_public_key_b64 item) ''client public key'') (\<lambda>public_key.
      if \<not> ce_verifying_key env public_key then Inl (Bail ''invalid client public key'')
      else
      and_then (decode_fixed env 32 (cc_gate_key_b64 item) ''gate key'') (\<lambda>gate_key.
      and_then (parse_client_ip env (cc_tunnel_ipv4 item)) (\<lambda>ip.
      let numeric_ip = from_be ip :: u32 in
      if numeric_ip AND sn_mask sn \<noteq> sn_network sn \<or> numeric_ip = sn_network sn \<or> numeric_ip = sn_broadcast sn \<or>
         numeric_ip = sn_server sn
      then Inl (Bail ''client tunnel IPv4 is outside the usable TUN subnet'')
      else
      and_then (session_policy_new (cc_session_lifetime_seconds item) (cc_bandwidth_bytes_per_second item)
                  (cc_session_quota_bytes item) 0) (\<lambda>_.
      if cc_revoked item then Inr (insert cid configured_ids, tunnel_addresses, clients)
      else if ip \<in> tunnel_addresses then Inl (Bail ''duplicate active client tunnel IPv4'')
      else Inr (insert cid configured_ids, insert ip tunnel_addresses,
             clients(cid \<mapsto> \<lparr>cl_id = cid, cl_public_key = public_key, cl_gate_key = gate_key, cl_tunnel_ipv4 = ip,
               cl_session_lifetime_seconds = cc_session_lifetime_seconds item,
               cl_bandwidth_bytes_per_second = cc_bandwidth_bytes_per_second item,
               cl_session_quota_bytes = cc_session_quota_bytes item\<rparr>))))))))"

fun add_clients ::
    "config_env \<Rightarrow> subnet \<Rightarrow> client_config list \<Rightarrow> bytes set \<times> bytes set \<times> (bytes \<rightharpoonup> client) \<Rightarrow>
     (bytes set \<times> bytes set \<times> (bytes \<rightharpoonup> client)) result" where
  "add_clients env sn [] st = Inr st"
| "add_clients env sn (item # items) st = and_then (add_client env sn item st) (add_clients env sn items)"

definition from_config :: "crypto \<Rightarrow> config_env \<Rightarrow> server_config \<Rightarrow> runtime_config result" where
  "from_config C env cfg =
     and_then (validate_settings (sc_tun cfg)) (\<lambda>_.
     if \<not> ends_with '':443'' (sc_authority cfg) \<or> has_whitespace (sc_authority cfg) \<or> length (sc_authority cfg) > 255
     then Inl (Bail ''authority must contain explicit :443 port'')
     else if \<not> starts_with_slash (sc_tunnel_path cfg) \<or> length (sc_tunnel_path cfg) > 256
     then Inl (Bail ''tunnel_path must start with /'')
     else
     and_then (decode_fixed env 32 (sc_server_signing_seed_b64 cfg) ''server signing seed'') (\<lambda>seed.
     let public = ce_public_of_seed env seed;
         server_key_id = key_id C ''RekaSerdoba server id'' public
     in
     and_then (ok_or (parse_ipv4 (ts_address (sc_tun cfg))) (Bail ''invalid TUN IPv4 address'')) (\<lambda>server_ip.
     and_then (add_clients env (subnet_of server_ip (ts_prefix_len (sc_tun cfg))) (sc_clients cfg) ({}, {}, Map.empty))
       (\<lambda>(_, _, clients).
       Inr \<lparr>rt_authority = sc_authority cfg, rt_tunnel_path = sc_tunnel_path cfg, rt_server_seed = seed,
            rt_server_public = public, rt_server_key_id = server_key_id, rt_clients = clients\<rparr>))))"

text \<open>\<open>load_tls_config\<close> and \<open>Server::validate\<close>.\<close>

record tls_config =
  tls_certificates :: "bytes list"
  tls_key :: bytes
  tls_alpn_protocols :: "string list"
  tls_max_early_data_size :: nat

definition load_tls_config :: "config_env \<Rightarrow> string \<Rightarrow> string \<Rightarrow> tls_config result" where
  "load_tls_config env certificate private_key =
     and_then (ce_certificates env certificate) (\<lambda>certificates.
     if certificates = [] then Inl (Bail ''H3 certificate chain is empty'')
     else
     and_then (ce_private_key env private_key) (\<lambda>key.
     and_then (ce_single_cert env certificates key) (\<lambda>_.
     Inr \<lparr>tls_certificates = certificates, tls_key = key, tls_alpn_protocols = [''h3''], tls_max_early_data_size = 0\<rparr>)))"

definition resolve_decoy_root :: "config_env \<Rightarrow> string \<Rightarrow> string result" where
  "resolve_decoy_root env decoy_root = ok_or (ce_canonicalize env decoy_root) (Bail ''resolve H3 decoy root'')"

definition h3_server_validate :: "config_env \<Rightarrow> string \<Rightarrow> string \<Rightarrow> string \<Rightarrow> unit result" where
  "h3_server_validate env certificate private_key decoy_root =
     and_then (load_tls_config env certificate private_key) (\<lambda>_.
     and_then (ok_or (ce_is_dir env decoy_root) (Bail ''read H3 decoy root metadata'')) (\<lambda>is_dir.
     if \<not> is_dir then Inl (Bail ''H3 decoy root is not a directory'')
     else and_then (resolve_decoy_root env decoy_root) (\<lambda>_. Inr ())))"

definition check_regular_file :: "config_env \<Rightarrow> string \<Rightarrow> string \<Rightarrow> unit result" where
  "check_regular_file env path label =
     (case ce_metadata env path of
        None \<Rightarrow> Inl (Bail (''read '' @ label @ '' metadata''))
      | Some (is_file, _) \<Rightarrow> if is_file then Inr () else Inl (Bail (label @ '' is not a regular file'')))"

definition validate_h3 :: "config_env \<Rightarrow> h3_config \<Rightarrow> unit result" where
  "validate_h3 env h3 =
     (if \<not> ce_is_socket_addr env (hc_listen h3) then Inl (Bail ''invalid H3 listen address'')
      else if \<not> ends_with '':443'' (hc_authority h3) \<or> has_whitespace (hc_authority h3)
      then Inl (Bail ''H3 authority must contain explicit :443 port'')
      else if \<not> starts_with_slash (hc_path h3) \<or> length (hc_path h3) > 256 then Inl (Bail ''invalid H3 path'')
      else
      and_then (check_regular_file env (hc_certificate_pem h3) ''H3 certificate'') (\<lambda>_.
      and_then (check_regular_file env (hc_private_key_pem h3) ''H3 private key'') (\<lambda>_.
      and_then (ok_or (ce_metadata env (hc_private_key_pem h3)) (Bail ''metadata'')) (\<lambda>(_, mode).
      if mode AND 23 \<noteq> 0 then Inl (Bail ''H3 private key permissions are too broad'')
      else h3_server_validate env (hc_certificate_pem h3) (hc_private_key_pem h3) (hc_decoy_root h3)))))"

definition validate_config :: "crypto \<Rightarrow> config_env \<Rightarrow> server_config \<Rightarrow> runtime_config result" where
  "validate_config C env cfg =
     (if \<not> ce_is_socket_addr env (sc_listen cfg) then Inl (Bail ''invalid listen address'')
      else
      and_then (validate_settings (sc_tun cfg)) (\<lambda>_.
      if length (sc_clients cfg) > 4096 then Inl (Bail ''too many configured clients'')
      else
      and_then (case sc_h3 cfg of None \<Rightarrow> Inr () | Some h3 \<Rightarrow> validate_h3 env h3) (\<lambda>_.
        from_config C env cfg)))"

section \<open>What an accepted configuration guarantees\<close>

text \<open>An address a client may have in a subnet, and what is known of a client of the map.\<close>

definition usable_address :: "subnet \<Rightarrow> bytes \<Rightarrow> bool" where
  "usable_address sn ip \<longleftrightarrow> (from_be ip :: u32) AND sn_mask sn = sn_network sn \<and>
     (from_be ip :: u32) \<notin> {sn_network sn, sn_broadcast sn, sn_server sn}"

definition policy_accepted :: "client \<Rightarrow> bool" where
  "policy_accepted c \<longleftrightarrow> (\<forall>now. \<exists>p. session_policy_new (cl_session_lifetime_seconds c) (cl_bandwidth_bytes_per_second c)
     (cl_session_quota_bytes c) now = Inr p)"

definition client_from :: "config_env \<Rightarrow> client_config list \<Rightarrow> bytes \<Rightarrow> client \<Rightarrow> bool" where
  "client_from env items cid c \<longleftrightarrow> cl_id c = cid \<and> length cid = 16 \<and> length (cl_public_key c) = 32 \<and> length (cl_gate_key c) = 32 \<and>
     (\<exists>item\<in>set items. \<not> cc_revoked item \<and> ce_base64 env (cc_client_id_b64 item) = Some cid \<and>
        parse_ipv4 (cc_tunnel_ipv4 item) = Some (cl_tunnel_ipv4 c))"

lemma session_policy_new_any_time:
  "session_policy_new l b q t = Inr p \<Longrightarrow> \<exists>p'. session_policy_new l b q t' = Inr p'"
  by (auto simp: session_policy_new_def split: if_splits)

lemma decode_fixed_Inr:
  "decode_fixed env n encoded what = Inr bs \<longleftrightarrow> ce_base64 env encoded = Some bs \<and> length bs = n"
  by (cases "ce_base64 env encoded") (auto simp: decode_fixed_def)

lemma parse_client_ip_Inr: "parse_client_ip env text = Inr ip \<longleftrightarrow> parse_ipv4 text = Some ip"
  by (auto simp: parse_client_ip_def split: option.splits)

text \<open>The state of the loop.\<close>

definition clients_ok :: "config_env \<Rightarrow> subnet \<Rightarrow> client_config list \<Rightarrow> bytes set \<times> bytes set \<times> (bytes \<rightharpoonup> client) \<Rightarrow> bool" where
  "clients_ok env sn items st \<longleftrightarrow> (case st of (ids, addresses, m) \<Rightarrow>
     dom m \<subseteq> ids \<and>
     (\<forall>cid c. m cid = Some c \<longrightarrow> client_from env items cid c \<and> usable_address sn (cl_tunnel_ipv4 c) \<and>
        policy_accepted c \<and> cl_tunnel_ipv4 c \<in> addresses) \<and>
     (\<forall>a b c d. m a = Some c \<and> m b = Some d \<and> cl_tunnel_ipv4 c = cl_tunnel_ipv4 d \<longrightarrow> a = b))"

lemma client_from_mono: "client_from env items cid c \<Longrightarrow> set items \<subseteq> set items' \<Longrightarrow> client_from env items' cid c"
  unfolding client_from_def by blast

text \<open>What a round of the loop does when it succeeds.\<close>

lemma add_client_Inr:
  assumes "add_client env sn item (ids, addresses, m) = Inr st"
  shows "\<exists>cid. cid \<notin> ids \<and>
    (st = (insert cid ids, addresses, m) \<or>
     (\<exists>c. st = (insert cid ids, insert (cl_tunnel_ipv4 c) addresses, m(cid \<mapsto> c)) \<and> cl_tunnel_ipv4 c \<notin> addresses \<and>
        client_from env [item] cid c \<and> usable_address sn (cl_tunnel_ipv4 c) \<and> policy_accepted c))"
proof -
  obtain cid public_key gate_key ip p where
    d: "ce_base64 env (cc_client_id_b64 item) = Some cid" "length cid = 16" "cid \<notin> ids" "length public_key = 32"
      "length gate_key = 32" "parse_ipv4 (cc_tunnel_ipv4 item) = Some ip" "usable_address sn ip"
    and p: "session_policy_new (cc_session_lifetime_seconds item) (cc_bandwidth_bytes_per_second item)
      (cc_session_quota_bytes item) 0 = Inr p"
    and r: "st = (insert cid ids, addresses, m) \<or> \<not> cc_revoked item \<and> ip \<notin> addresses \<and> st = (insert cid ids, insert ip addresses,
             m(cid \<mapsto> \<lparr>cl_id = cid, cl_public_key = public_key, cl_gate_key = gate_key, cl_tunnel_ipv4 = ip,
               cl_session_lifetime_seconds = cc_session_lifetime_seconds item,
               cl_bandwidth_bytes_per_second = cc_bandwidth_bytes_per_second item,
               cl_session_quota_bytes = cc_session_quota_bytes item\<rparr>))"
    using assms
    by (auto simp: add_client_def and_then_Inr_iff decode_fixed_Inr parse_client_ip_Inr Let_def usable_address_def
        simp del: split_paired_Ex split: if_split_asm)
  define c where "c = \<lparr>cl_id = cid, cl_public_key = public_key, cl_gate_key = gate_key, cl_tunnel_ipv4 = ip,
               cl_session_lifetime_seconds = cc_session_lifetime_seconds item,
               cl_bandwidth_bytes_per_second = cc_bandwidth_bytes_per_second item,
               cl_session_quota_bytes = cc_session_quota_bytes item\<rparr>"
  have c: "client_from env [item] cid c \<or> cc_revoked item" "policy_accepted c" "cl_tunnel_ipv4 c = ip"
    using d session_policy_new_any_time [OF p] by (auto simp: c_def client_from_def policy_accepted_def)
  show ?thesis using r d(3,7) c unfolding c_def [symmetric] by blast
qed

lemma add_client_ok:
  assumes "clients_ok env sn done st" and "add_client env sn item st = Inr st'"
  shows "clients_ok env sn (done @ [item]) st'"
proof -
  obtain ids addresses m where st: "st = (ids, addresses, m)" by (cases st)
  have mono: "client_from env (done @ [item]) cid c" if "client_from env done cid c \<or> client_from env [item] cid c" for cid c
    using that by (auto elim: client_from_mono)
  have fresh: "m cid = None" if "cid \<notin> ids" for cid using assms(1) that by (auto simp: clients_ok_def st)
  have used: "m cid = Some c \<Longrightarrow> cl_tunnel_ipv4 c \<in> addresses" for cid c using assms(1) by (auto simp: clients_ok_def st)
  consider cid where "cid \<notin> ids" "st' = (insert cid ids, addresses, m)"
    | cid c where "cid \<notin> ids" "st' = (insert cid ids, insert (cl_tunnel_ipv4 c) addresses, m(cid \<mapsto> c))"
      "cl_tunnel_ipv4 c \<notin> addresses" "client_from env [item] cid c" "usable_address sn (cl_tunnel_ipv4 c)" "policy_accepted c"
    using add_client_Inr [OF assms(2) [unfolded st]] by blast
  then show ?thesis
  proof cases
    case 1
    then show ?thesis using assms(1) mono by (auto simp: clients_ok_def st)
  next
    case 2
    have "dom (m(cid \<mapsto> c)) \<subseteq> insert cid ids" using assms(1) by (auto simp: clients_ok_def st)
    moreover have "a = b" if "(m(cid \<mapsto> c)) a = Some x" "(m(cid \<mapsto> c)) b = Some y" "cl_tunnel_ipv4 x = cl_tunnel_ipv4 y" for a b x y
      using that used 2(3) assms(1) by (auto simp: clients_ok_def st split: if_split_asm) (metis used)+
    moreover have "client_from env (done @ [item]) a x \<and> usable_address sn (cl_tunnel_ipv4 x) \<and> policy_accepted x \<and>
        cl_tunnel_ipv4 x \<in> insert (cl_tunnel_ipv4 c) addresses" if "(m(cid \<mapsto> c)) a = Some x" for a x
      using that 2 mono assms(1) by (auto simp: clients_ok_def st split: if_split_asm)
    ultimately show ?thesis unfolding clients_ok_def 2(2) by blast
  qed
qed

lemma add_clients_ok:
  assumes "clients_ok env sn done st" and "add_clients env sn items st = Inr st'"
  shows "clients_ok env sn (done @ items) st'"
  using assms
proof (induction items arbitrary: "done" st)
  case (Cons item items)
  then obtain st1 where "add_client env sn item st = Inr st1" "add_clients env sn items st1 = Inr st'"
    by (auto simp: and_then_Inr_iff)
  then show ?case using Cons.IH [OF add_client_ok [OF Cons.prems(1)]] by simp
qed simp

lemma from_config_clients:
  assumes "from_config C env cfg = Inr rt"
  shows "\<exists>server ids addresses. parse_ipv4 (ts_address (sc_tun cfg)) = Some server \<and>
    1 \<le> ts_prefix_len (sc_tun cfg) \<and> ts_prefix_len (sc_tun cfg) \<le> 30 \<and>
    clients_ok env (subnet_of server (ts_prefix_len (sc_tun cfg))) (sc_clients cfg) (ids, addresses, rt_clients rt)"
proof -
  have v: "validate_settings (sc_tun cfg) = Inr ()" using assms by (auto simp: from_config_def and_then_Inr_iff)
  obtain server ids addresses m where s: "parse_ipv4 (ts_address (sc_tun cfg)) = Some server"
    "add_clients env (subnet_of server (ts_prefix_len (sc_tun cfg))) (sc_clients cfg) ({}, {}, Map.empty) = Inr (ids, addresses, m)"
    "rt_clients rt = m"
    using assms by (auto simp: from_config_def and_then_Inr_iff Let_def split: if_splits)
  have "clients_ok env (subnet_of server (ts_prefix_len (sc_tun cfg))) [] ({}, {}, Map.empty)" by (simp add: clients_ok_def)
  from add_clients_ok [OF this s(2)] s v show ?thesis
    by (auto simp: validate_settings_def split: if_splits)
qed

text \<open>A configuration that passes the check has TLS files that load and a decoy root that exists.\<close>

lemma validate_config_h3:
  assumes "validate_config C env cfg = Inr rt" and "sc_h3 cfg = Some h3"
  shows "(\<exists>tls. load_tls_config env (hc_certificate_pem h3) (hc_private_key_pem h3) = Inr tls \<and> tls_max_early_data_size tls = 0) \<and>
    (\<exists>root. resolve_decoy_root env (hc_decoy_root h3) = Inr root) \<and> starts_with_slash (hc_path h3) \<and>
    ce_is_socket_addr env (hc_listen h3)"
proof -
  have "validate_h3 env h3 = Inr ()" using assms by (auto simp: validate_config_def and_then_Inr_iff split: if_split_asm)
  then have v: "h3_server_validate env (hc_certificate_pem h3) (hc_private_key_pem h3) (hc_decoy_root h3) = Inr ()"
    "starts_with_slash (hc_path h3)" "ce_is_socket_addr env (hc_listen h3)"
    by (auto simp: validate_h3_def and_then_Inr_iff split: if_split_asm prod.split_asm)
  then obtain tls root where "load_tls_config env (hc_certificate_pem h3) (hc_private_key_pem h3) = Inr tls"
    "resolve_decoy_root env (hc_decoy_root h3) = Inr root"
    by (auto simp: h3_server_validate_def and_then_Inr_iff split: if_split_asm)
  moreover from this(1) have "tls_max_early_data_size tls = 0"
    by (auto simp: load_tls_config_def and_then_Inr_iff split: if_split_asm)
  ultimately show ?thesis using v by blast
qed

lemma validate_config_from: "validate_config C env cfg = Inr rt \<Longrightarrow> from_config C env cfg = Inr rt"
  by (auto simp: validate_config_def and_then_Inr_iff split: if_split_asm)

section \<open>Properties\<close>

text \<open>C29. Every client of an accepted configuration comes from an entry that is not revoked, under the identifier of
  that entry; its tunnel address is used by no other client, lies in the tunnel's subnet and is neither
  the server's nor the network or broadcast address; and its session limits are such that a session policy can always be
  created.\<close>

theorem config_clients_sound:
  assumes "from_config C env cfg = Inr rt" and "rt_clients rt cid = Some c"
  shows "cl_id c = cid \<and>
    (\<exists>item\<in>set (sc_clients cfg). \<not> cc_revoked item \<and> ce_base64 env (cc_client_id_b64 item) = Some cid \<and>
       parse_ipv4 (cc_tunnel_ipv4 item) = Some (cl_tunnel_ipv4 c)) \<and>
    (\<forall>other d. rt_clients rt other = Some d \<and> cl_tunnel_ipv4 d = cl_tunnel_ipv4 c \<longrightarrow> other = cid) \<and>
    (\<exists>server. parse_ipv4 (ts_address (sc_tun cfg)) = Some server \<and> cl_tunnel_ipv4 c \<noteq> server \<and>
       from_be (cl_tunnel_ipv4 c) AND prefix_mask (ts_prefix_len (sc_tun cfg)) = from_be server AND prefix_mask (ts_prefix_len (sc_tun cfg)) \<and>
       (from_be (cl_tunnel_ipv4 c) :: u32) AND NOT (prefix_mask (ts_prefix_len (sc_tun cfg))) \<notin>
         {0, NOT (prefix_mask (ts_prefix_len (sc_tun cfg)))}) \<and>
    (\<forall>now. \<exists>p. session_policy_new (cl_session_lifetime_seconds c) (cl_bandwidth_bytes_per_second c)
       (cl_session_quota_bytes c) now = Inr p)"
proof -
  let ?mask = "prefix_mask (ts_prefix_len (sc_tun cfg))"
  obtain server ids addresses where s: "parse_ipv4 (ts_address (sc_tun cfg)) = Some server" "1 \<le> ts_prefix_len (sc_tun cfg)"
    "clients_ok env (subnet_of server (ts_prefix_len (sc_tun cfg))) (sc_clients cfg) (ids, addresses, rt_clients rt)"
    using from_config_clients [OF assms(1)] by blast
  have c: "client_from env (sc_clients cfg) cid c" "usable_address (subnet_of server (ts_prefix_len (sc_tun cfg))) (cl_tunnel_ipv4 c)"
    "policy_accepted c" "\<forall>other d. rt_clients rt other = Some d \<and> cl_tunnel_ipv4 d = cl_tunnel_ipv4 c \<longrightarrow> other = cid"
    using s(3) assms(2) by (auto simp: clients_ok_def)
  have mask: "push_bit (32 - ts_prefix_len (sc_tun cfg)) (- 1) = ?mask" using s(2) by (simp add: prefix_mask_def)
  have u: "(from_be (cl_tunnel_ipv4 c) :: u32) AND ?mask = from_be server AND ?mask"
    "(from_be (cl_tunnel_ipv4 c) :: u32) \<notin> {from_be server AND ?mask, from_be server AND ?mask OR NOT ?mask, from_be server}"
    using c(2) unfolding usable_address_def subnet_of_def Let_def mask by simp_all
  have split: "x = (x AND ?mask) OR (x AND NOT ?mask)" for x :: u32 by (rule bit_word_eqI) (auto simp: bit_simps)
  have "(from_be (cl_tunnel_ipv4 c) :: u32) AND NOT ?mask \<notin> {0, NOT ?mask}"
    using split [of "from_be (cl_tunnel_ipv4 c)"] u by auto
  moreover have "cl_tunnel_ipv4 c \<noteq> server" using u(2) by auto
  ultimately show ?thesis using c s(1) u(1) by (auto simp: client_from_def policy_accepted_def)
qed

definition sample_env :: config_env where
  "sample_env = \<lparr>ce_base64 = (\<lambda>s. if s = ''id'' then Some (replicate 16 1) else Some (replicate 32 2)),
     ce_verifying_key = (\<lambda>_. True), ce_public_of_seed = (\<lambda>seed. seed), ce_is_ipv6 = (\<lambda>_. False),
     ce_is_socket_addr = (\<lambda>_. True), ce_metadata = (\<lambda>_. Some (True, 0)), ce_is_dir = (\<lambda>_. Some True),
     ce_canonicalize = Some, ce_certificates = (\<lambda>_. Inr [[1]]), ce_private_key = (\<lambda>_. Inr [2]), ce_single_cert = (\<lambda>_ _. Inr ())\<rparr>"

definition sample_config :: server_config where
  "sample_config = \<lparr>sc_listen = ''127.0.0.1:8080'', sc_authority = ''a:443'', sc_tunnel_path = ''/t'',
     sc_server_signing_seed_b64 = ''seed'',
     sc_tun = \<lparr>ts_name = ''tun0'', ts_address = ''10.77.0.1'', ts_prefix_len = 24, ts_mtu = 1280, ts_session_queue = 64,
       ts_helper_socket = None, ts_helper_client_socket = None\<rparr>,
     sc_clients = [\<lparr>cc_client_id_b64 = ''id'', cc_client_public_key_b64 = ''pk'', cc_gate_key_b64 = ''gk'',
       cc_tunnel_ipv4 = ''10.77.0.2'', cc_revoked = False, cc_session_lifetime_seconds = 3600,
       cc_bandwidth_bytes_per_second = 26214400, cc_session_quota_bytes = 0\<rparr>],
     sc_h3 = None\<rparr>"

lemma sample_addresses: "parse_ipv4 ''10.77.0.1'' = Some [10, 77, 0, 1]" "parse_ipv4 ''10.77.0.2'' = Some [10, 77, 0, 2]"
  by (simp_all add: parse_ipv4_def parse_octet_def decimal_value_def)

lemma sample_subnet: "subnet_of [10, 77, 0, 1] 24 =
    \<lparr>sn_server = 0x0A4D0001, sn_mask = 0xFFFFFF00, sn_network = 0x0A4D0000, sn_broadcast = 0x0A4D00FF\<rparr>"
  by (simp add: subnet_of_def from_be_def Let_def mask_eq_exp_minus_1)

lemma sample_config_accepted:
  "\<exists>rt c. from_config clear_crypto sample_env sample_config = Inr rt \<and> rt_clients rt (replicate 16 1) = Some c \<and>
     cl_tunnel_ipv4 c = [10, 77, 0, 2]"
  by (simp add: from_config_def validate_settings_def sample_config_def sample_env_def sample_addresses ends_with_def
      has_whitespace_def starts_with_slash_def decode_fixed_def add_client_def parse_client_ip_def session_policy_new_def
      sample_subnet from_be_def key_id_def)

theorem config_clients_sound_witness:
  "\<exists>rt c. from_config clear_crypto sample_env sample_config = Inr rt \<and> rt_clients rt (replicate 16 1) = Some c \<and>
     cl_id c = replicate 16 1 \<and> cl_tunnel_ipv4 c \<noteq> [10, 77, 0, 1]"
proof -
  obtain rt c where r: "from_config clear_crypto sample_env sample_config = Inr rt" "rt_clients rt (replicate 16 1) = Some c"
    using sample_config_accepted by auto
  have a: "parse_ipv4 (ts_address (sc_tun sample_config)) = Some [10, 77, 0, 1]"
    by (simp add: sample_config_def sample_addresses)
  have "cl_id c = replicate 16 1 \<and> cl_tunnel_ipv4 c \<noteq> [10, 77, 0, 1]"
    using config_clients_sound [OF r] unfolding a by auto
  then show ?thesis using r by blast
qed

end
