(* ===== verification/Reka_Carrier.thy ===== *)
theory Reka_Carrier
  imports Reka_Crypto
begin

text \<open>
  The carriers of a session (\<open>Carrier\<close> in \<open>main.rs\<close>, \<open>Session::receive\<close> in \<open>h3_edge.rs\<close>) and the local
  pipe of the client's HTTP/3 bridge (\<open>bin/h3_bridge.rs\<close>). A WebSocket keeps message boundaries; HTTP/2
  and HTTP/3 are byte streams on which every message is preceded by its length. A stream is the list of
  the reads that will succeed or fail; its end is the end of the list. Output is what was handed to
  the transport so far.
\<close>

section \<open>Model\<close>

definition max_carrier_message :: nat where "max_carrier_message = 4096 + 16 + 256"
definition carrier_buffer_limit :: nat where "carrier_buffer_limit = 1024 * 1024"
definition h2_batch_bytes :: nat where "h2_batch_bytes = 64 * 1024"

datatype carrier_event = BinaryEvent bytes | PingEvent bytes | CloseEvent | IgnoreEvent

definition take_carrier_message :: "bytes \<Rightarrow> bytes option result \<times> bytes" where
  "take_carrier_message buffered =
     (if length buffered < 4 then (Inr None, buffered)
      else
        let len = unat (from_be (take 4 buffered) :: u32) in
        if len = 0 \<or> len > max_carrier_message then (Inl (Bail ''invalid H2 carrier message length''), buffered)
        else if length buffered < 4 + len then (Inr None, buffered)
        else (Inr (Some (drop 4 (take (4 + len) buffered))), drop (4 + len) buffered))"

text \<open>The receive loop of the HTTP/2 carrier.\<close>

fun h2_recv :: "bytes \<Rightarrow> bytes result list \<Rightarrow> carrier_event result \<times> bytes \<times> bytes result list" where
  "h2_recv buffered input =
     (let (taken, b) = take_carrier_message buffered in
      attempt taken (b, input) (\<lambda>message.
        case message of
          Some m \<Rightarrow> (Inr (BinaryEvent m), b, input)
        | None \<Rightarrow>
            (case input of
               Inr chunk # rest \<Rightarrow>
                 if length (b @ chunk) > carrier_buffer_limit
                 then (Inl (Bail ''H2 carrier buffer limit exceeded''), b @ chunk, rest)
                 else h2_recv (b @ chunk) rest
             | Inl e # rest \<Rightarrow> (Inl e, b, rest)
             | [] \<Rightarrow> if b = [] then (Inr CloseEvent, b, []) else (Inl (Bail ''truncated H2 carrier message''), b, []))))"

declare h2_recv.simps [simp del]

text \<open>
  What an HTTP/3 session will read, in the order of arrival: reads of the reliable stream (an empty
  one is its end) and datagrams. \<open>Session::receive\<close> takes datagrams only when asked to; otherwise they
  stay queued.
\<close>

datatype h3_input = ReliableRead "bytes result" | DatagramRead "bytes result"
datatype h3_received = Reliable "bytes option" | Datagram bytes

fun read_reliable :: "h3_input list \<Rightarrow> bytes result \<times> h3_input list" where
  "read_reliable [] = (Inr [], [])"
| "read_reliable (ReliableRead r # rest) = (r, rest)"
| "read_reliable (DatagramRead d # rest) = (let (r, rest') = read_reliable rest in (r, DatagramRead d # rest'))"

definition reliable_some :: "bytes \<Rightarrow> h3_received" where
  "reliable_some chunk = Reliable (if chunk \<noteq> [] then Some chunk else None)"

definition h3_receive :: "h3_input list \<Rightarrow> bool \<Rightarrow> h3_received result \<times> h3_input list" where
  "h3_receive input datagrams =
     (if \<not> datagrams then
        (let (r, rest) = read_reliable input in (and_then r (\<lambda>chunk. Inr (reliable_some chunk)), rest))
      else case input of
        DatagramRead d # rest \<Rightarrow> (and_then d (\<lambda>datagram. Inr (Datagram datagram)), rest)
      | ReliableRead r # rest \<Rightarrow> (and_then r (\<lambda>chunk. Inr (reliable_some chunk)), rest)
      | [] \<Rightarrow> (Inr (Reliable None), []))"

lemma read_reliable_length: "read_reliable input = (Inr (x # xs), rest) \<Longrightarrow> length rest < length input"
proof (induction input arbitrary: rest rule: read_reliable.induct)
  case (3 d input)
  then show ?case by (cases "read_reliable input") auto
qed auto

lemma h3_receive_length:
  assumes "h3_receive input datagrams = (Inr (Reliable (Some chunk)), rest)"
  shows "length rest < length input"
proof (cases datagrams)
  case False
  obtain r rest' where "read_reliable input = (r, rest')" by fastforce
  then show ?thesis using assms False read_reliable_length [of input]
    by (auto simp: h3_receive_def and_then_Inr_iff reliable_some_def neq_Nil_conv split: if_splits)
next
  case True
  then show ?thesis using assms
    by (auto simp: h3_receive_def and_then_Inr_iff reliable_some_def split: if_splits list.splits h3_input.splits)
qed

function recv_h3_message ::
    "bool \<Rightarrow> bytes \<Rightarrow> h3_input list \<Rightarrow> carrier_event result \<times> bytes \<times> h3_input list" where
  "recv_h3_message application_ready buffered input =
     (case take_carrier_message buffered of
        (Inl e, b) \<Rightarrow> (Inl e, b, input)
      | (Inr (Some message), b) \<Rightarrow> (Inr (BinaryEvent message), b, input)
      | (Inr None, b) \<Rightarrow>
          (case h3_receive input application_ready of
             (Inl e, rest) \<Rightarrow> (Inl e, b, rest)
           | (Inr (Reliable None), rest) \<Rightarrow>
               if b = [] then (Inr CloseEvent, b, rest) else (Inl (Bail ''truncated H3 carrier message''), b, rest)
           | (Inr (Reliable (Some chunk)), rest) \<Rightarrow>
               if length (b @ chunk) > carrier_buffer_limit
               then (Inl (Bail ''H3 carrier buffer limit exceeded''), b @ chunk, rest)
               else recv_h3_message application_ready (b @ chunk) rest
           | (Inr (Datagram datagram), rest) \<Rightarrow>
               if length datagram > max_carrier_message
               then (Inl (Bail ''H3 datagram exceeds carrier limit''), b, rest)
               else (Inr (BinaryEvent datagram), b, rest)))"
  by pat_completeness auto
termination
  by (relation "measure (\<lambda>(_, _, input). length input)") (auto dest: h3_receive_length [OF sym])

declare recv_h3_message.simps [simp del]

text \<open>What a WebSocket delivers; \<open>WsOther\<close> is a text or pong message.\<close>

datatype ws_message = WsBinary bytes | WsPing bytes | WsPong bytes | WsClose | WsOther

record h2_carrier =
  h2_input :: "bytes result list"
  h2_output :: "bytes list"
  h2_output_open :: bool
  h2_buffered :: bytes

record h3_carrier =
  h3_session_input :: "h3_input list"
  h3_session_output :: bytes
  h3_session_open :: bool
  h3_buffered :: bytes
  h3_application_ready :: bool

record ws_carrier =
  ws_input :: "ws_message result list"
  ws_output :: "ws_message list"
  ws_open :: bool

datatype carrier = WebSocket ws_carrier | H2 h2_carrier | H3 h3_carrier

fun carrier_kind :: "carrier \<Rightarrow> string" where
  "carrier_kind (WebSocket _) = ''wss''"
| "carrier_kind (H2 _) = ''h2''"
| "carrier_kind (H3 _) = ''h3''"

definition ws_recv :: "ws_message result list \<Rightarrow> carrier_event result \<times> ws_message result list" where
  "ws_recv input =
     (case input of
        Inr (WsBinary m) # rest \<Rightarrow> (Inr (BinaryEvent m), rest)
      | Inr (WsPing m) # rest \<Rightarrow> (Inr (PingEvent m), rest)
      | Inr WsClose # rest \<Rightarrow> (Inr CloseEvent, rest)
      | [] \<Rightarrow> (Inr CloseEvent, [])
      | Inr _ # rest \<Rightarrow> (Inr IgnoreEvent, rest)
      | Inl e # rest \<Rightarrow> (Inl e, rest))"

fun carrier_recv :: "carrier \<Rightarrow> carrier_event result \<times> carrier" where
  "carrier_recv (WebSocket w) = (let (r, rest) = ws_recv (ws_input w) in (r, WebSocket (w\<lparr>ws_input := rest\<rparr>)))"
| "carrier_recv (H2 c) =
     (let (r, b, rest) = h2_recv (h2_buffered c) (h2_input c) in (r, H2 (c\<lparr>h2_buffered := b, h2_input := rest\<rparr>)))"
| "carrier_recv (H3 c) =
     (let (r, b, rest) = recv_h3_message (h3_application_ready c) (h3_buffered c) (h3_session_input c)
      in (r, H3 (c\<lparr>h3_buffered := b, h3_session_input := rest\<rparr>)))"

definition u32_try_from :: "nat \<Rightarrow> u32 result" where
  "u32_try_from n = (if n < 2 ^ 32 then Inr (of_nat n) else Inl try_from_error)"

definition frame_message :: "bytes \<Rightarrow> bytes result" where
  "frame_message payload = and_then (u32_try_from (length payload)) (\<lambda>n. Inr (be32 n @ payload))"

definition transport_closed :: failure where "transport_closed = Bail ''transport closed''"

fun carrier_send_binary :: "carrier \<Rightarrow> bytes \<Rightarrow> unit result \<times> carrier" where
  "carrier_send_binary (WebSocket w) payload =
     (if \<not> ws_open w then (Inl transport_closed, WebSocket w)
      else (Inr (), WebSocket (w\<lparr>ws_output := ws_output w @ [WsBinary payload]\<rparr>)))"
| "carrier_send_binary (H2 c) payload =
     attempt (frame_message payload) (H2 c) (\<lambda>encoded.
       if \<not> h2_output_open c then (Inl (Bail ''H2 carrier response closed''), H2 c)
       else (Inr (), H2 (c\<lparr>h2_output := h2_output c @ [encoded]\<rparr>)))"
| "carrier_send_binary (H3 c) payload =
     attempt (frame_message payload) (H3 c) (\<lambda>encoded.
       if \<not> h3_session_open c then (Inl transport_closed, H3 c)
       else (Inr (), H3 (c\<lparr>h3_session_output := h3_session_output c @ encoded\<rparr>)))"

fun carrier_send_pong :: "carrier \<Rightarrow> bytes \<Rightarrow> unit result \<times> carrier" where
  "carrier_send_pong (WebSocket w) payload =
     (if \<not> ws_open w then (Inl transport_closed, WebSocket w)
      else (Inr (), WebSocket (w\<lparr>ws_output := ws_output w @ [WsPong payload]\<rparr>)))"
| "carrier_send_pong c payload = (Inr (), c)"

fun carrier_close :: "carrier \<Rightarrow> carrier" where
  "carrier_close (WebSocket w) =
     WebSocket (if ws_open w then w\<lparr>ws_output := ws_output w @ [WsClose]\<rparr> else w)"
| "carrier_close (H2 c) = H2 c"
| "carrier_close (H3 c) = H3 (c\<lparr>h3_session_open := False\<rparr>)"

fun mark_application_ready :: "carrier \<Rightarrow> carrier" where
  "mark_application_ready (H3 c) = H3 (c\<lparr>h3_application_ready := True\<rparr>)"
| "mark_application_ready c = c"

definition recv_binary :: "carrier \<Rightarrow> bytes result \<times> carrier" where
  "recv_binary carrier =
     (let (r, c) = carrier_recv carrier in
      attempt r c (\<lambda>event.
        case event of
          BinaryEvent m \<Rightarrow> (Inr m, c)
        | CloseEvent \<Rightarrow> (Inl (Bail ''carrier closed''), c)
        | _ \<Rightarrow> (Inl (Bail ''expected binary message''), c)))"

text \<open>
  The task that groups HTTP/2 output: each message comes with whether it arrives before the deadline
  of the batch that is open at that time.
\<close>

fun batch_h2_from :: "bytes \<Rightarrow> (bytes \<times> bool) list \<Rightarrow> bytes list" where
  "batch_h2_from batch [] = [batch]"
| "batch_h2_from batch ((next_bytes, in_time) # rest) =
     (if length batch < h2_batch_bytes \<and> in_time then batch_h2_from (batch @ next_bytes) rest
      else batch # batch_h2_from next_bytes rest)"

fun batch_h2_output :: "(bytes \<times> bool) list \<Rightarrow> bytes list" where
  "batch_h2_output [] = []"
| "batch_h2_output ((first, in_time) # rest) = batch_h2_from first rest"

text \<open>The bridge: messages on its standard input, and on the WebTransport stream.\<close>

definition take_local_message :: "bytes \<Rightarrow> bytes option result \<times> bytes" where
  "take_local_message buffered =
     (if length buffered < 4 then (Inr None, buffered)
      else
        let len = unat (from_be (take 4 buffered) :: u32) in
        if len = 0 \<or> len > 8192 then (Inl (Bail ''invalid local message length''), buffered)
        else if length buffered < 4 + len then (Inr None, buffered)
        else (Inr (Some (drop 4 (take (4 + len) buffered))), drop (4 + len) buffered))"

fun read_local_message :: "bytes \<Rightarrow> bytes result list \<Rightarrow> bytes option result \<times> bytes \<times> bytes result list" where
  "read_local_message buffered input =
     (let (taken, b) = take_local_message buffered in
      attempt taken (b, input) (\<lambda>message.
        case message of
          Some m \<Rightarrow> (Inr (Some m), b, input)
        | None \<Rightarrow>
            (case input of
               Inr chunk # rest \<Rightarrow>
                 if chunk = [] then
                   (if b = [] then (Inr None, b, rest) else (Inl (Bail ''truncated local message''), b, rest))
                 else read_local_message (b @ chunk) rest
             | Inl e # rest \<Rightarrow> (Inl e, b, rest)
             | [] \<Rightarrow> if b = [] then (Inr None, b, []) else (Inl (Bail ''truncated local message''), b, []))))"

declare read_local_message.simps [simp del]

fun recv_stream_message :: "bytes \<Rightarrow> bytes result list \<Rightarrow> bytes option result \<times> bytes \<times> bytes result list" where
  "recv_stream_message buffered input =
     (let len = unat (from_be (take 4 buffered) :: u32) in
      if 4 \<le> length buffered \<and> (len = 0 \<or> len > 8192)
      then (Inl (Bail ''invalid WebTransport message length''), buffered, input)
      else if 4 \<le> length buffered \<and> 4 + len \<le> length buffered
      then (Inr (Some (drop 4 (take (4 + len) buffered))), drop (4 + len) buffered, input)
      else
        (case input of
           Inr chunk # rest \<Rightarrow>
             if chunk = [] then
               (if buffered = [] then (Inr None, buffered, rest)
                else (Inl (Bail ''truncated WebTransport message''), buffered, rest))
             else recv_stream_message (buffered @ chunk) rest
         | Inl e # rest \<Rightarrow> (Inl e, buffered, rest)
         | [] \<Rightarrow> if buffered = [] then (Inr None, buffered, [])
                 else (Inl (Bail ''truncated WebTransport message''), buffered, [])))"

declare recv_stream_message.simps [simp del]

text \<open>
  The loop of the bridge. Which branch of its \<open>select!\<close> completes next is an event; a datagram comes
  with its payload. \<open>br_pending\<close> is what was written to the buffered standard output and not flushed
  yet.
\<close>

record bridge =
  br_local_buffered :: bytes
  br_local_input :: "bytes result list"
  br_stream_buffered :: bytes
  br_stream_input :: "bytes result list"
  br_sent :: bytes
  br_pending :: bytes
  br_written :: bytes
  br_dirty :: bool

datatype bridge_event = FlushTick | LocalReady | StreamReady | DatagramReady "bytes result"
datatype bridge_next = Continue | Break | Fail failure

definition bridge_flush :: "bridge \<Rightarrow> bridge" where
  "bridge_flush s =
     (if br_dirty s then s\<lparr>br_written := br_written s @ br_pending s, br_pending := [], br_dirty := False\<rparr> else s)"

definition write_local_message :: "bridge \<Rightarrow> bytes \<Rightarrow> bridge_next \<times> bridge" where
  "write_local_message s payload =
     (case frame_message payload of
        Inl e \<Rightarrow> (Fail e, s)
      | Inr encoded \<Rightarrow> (Continue, s\<lparr>br_pending := br_pending s @ encoded, br_dirty := True\<rparr>))"

definition send_stream_message :: "bridge \<Rightarrow> bytes \<Rightarrow> bridge_next \<times> bridge" where
  "send_stream_message s payload =
     (case frame_message payload of
        Inl e \<Rightarrow> (Fail e, s)
      | Inr encoded \<Rightarrow> (Continue, s\<lparr>br_sent := br_sent s @ encoded\<rparr>))"

fun bridge_step :: "bridge \<Rightarrow> bridge_event \<Rightarrow> bridge_next \<times> bridge" where
  "bridge_step s FlushTick = (Continue, bridge_flush s)"
| "bridge_step s LocalReady =
     (let (r, b, rest) = read_local_message (br_local_buffered s) (br_local_input s);
          s1 = s\<lparr>br_local_buffered := b, br_local_input := rest\<rparr>
      in case r of
           Inl e \<Rightarrow> (Fail e, s1)
         | Inr None \<Rightarrow> (Break, s1)
         | Inr (Some payload) \<Rightarrow> send_stream_message s1 payload)"
| "bridge_step s StreamReady =
     (let (r, b, rest) = recv_stream_message (br_stream_buffered s) (br_stream_input s);
          s1 = s\<lparr>br_stream_buffered := b, br_stream_input := rest\<rparr>
      in case r of
           Inr (Some payload) \<Rightarrow> write_local_message s1 payload
         | _ \<Rightarrow> (Break, s1))"
| "bridge_step s (DatagramReady d) =
     (case d of Inr payload \<Rightarrow> write_local_message s payload | Inl _ \<Rightarrow> (Break, s))"

fun bridge_loop :: "bridge \<Rightarrow> bridge_event list \<Rightarrow> bridge_next \<times> bridge" where
  "bridge_loop s [] = (Continue, s)"
| "bridge_loop s (e # es) =
     (case bridge_step s e of
        (Continue, s') \<Rightarrow> bridge_loop s' es
      | (Break, s') \<Rightarrow> (Break, bridge_flush s')
      | (Fail x, s') \<Rightarrow> (Fail x, s'))"

section \<open>Interface of a framed stream\<close>

text \<open>The bytes of a framed message, messages that may be sent, and a beginning of a message that is not
  complete yet.\<close>

definition message_bytes :: "bytes \<Rightarrow> bytes" where
  "message_bytes m = be32 (of_nat (length m)) @ m"

definition message_ok :: "nat \<Rightarrow> bytes \<Rightarrow> bool" where
  "message_ok limit m \<longleftrightarrow> 0 < length m \<and> length m \<le> limit"

definition message_open :: "nat \<Rightarrow> bytes \<Rightarrow> bool" where
  "message_open limit b \<longleftrightarrow> length b < 4 \<or>
     (let len = unat (from_be (take 4 b) :: u32) in 0 < len \<and> len \<le> limit \<and> length b < 4 + len)"

text \<open>The results of \<open>n\<close> calls of a receive function.\<close>

fun recv_calls :: "(bytes \<Rightarrow> 'i list \<Rightarrow> 'r result \<times> bytes \<times> 'i list) \<Rightarrow> nat \<Rightarrow> bytes \<Rightarrow> 'i list \<Rightarrow> 'r result list" where
  "recv_calls recv 0 b input = []"
| "recv_calls recv (Suc n) b input = (let (r, b', rest) = recv b input in r # recv_calls recv n b' rest)"

locale message_stream =
  fixes recv :: "bytes \<Rightarrow> 'i list \<Rightarrow> 'r result \<times> bytes \<times> 'i list"
    and chunk :: "bytes \<Rightarrow> 'i"
    and got :: "bytes \<Rightarrow> 'r"
    and closed :: 'r
    and limit room :: nat
  assumes recv_message: "message_ok limit m \<Longrightarrow> recv (message_bytes m @ rest) input = (Inr (got m), rest, input)"
    and recv_more: "message_open limit b \<Longrightarrow> c \<noteq> [] \<Longrightarrow> length c \<le> room \<Longrightarrow> recv b (chunk c # input) = recv (b @ c) input"
    and recv_closed: "recv [] [] = (Inr closed, [], [])"
    and recv_truncated: "message_open limit b \<Longrightarrow> b \<noteq> [] \<Longrightarrow> \<exists>e. recv b [] = (Inl (Bail e), b, [])"
    and limit_u32: "limit < 2 ^ 32"
begin

lemma prefix_open:
  assumes "message_ok limit m" and "message_bytes m = b @ r" and "r \<noteq> []"
  shows "message_open limit b"
proof (cases "length b < 4")
  case False
  have "take 4 b = take 4 (message_bytes m)" using assms(2) False by simp
  also have "\<dots> = be32 (of_nat (length m))" by (simp add: message_bytes_def)
  finally have "unat (from_be (take 4 b) :: u32) = length m"
    using assms(1) limit_u32 by (simp add: message_ok_def unat_of_nat)
  moreover have "length b + length r = 4 + length m"
    using arg_cong [OF assms(2), of length] by (simp add: message_bytes_def)
  ultimately have "unat (from_be (take 4 b) :: u32) = length m" "length b < 4 + length m"
    using assms(3) by (cases r; simp)+
  then show ?thesis using assms(1) by (simp add: message_open_def message_ok_def)
qed (simp add: message_open_def)

text \<open>However the bytes of a message and what follows are cut into reads, one call returns the message.\<close>

lemma recv_one:
  assumes "message_ok limit m" and "b @ concat cs = message_bytes m @ rest"
    and "list_all (\<lambda>c. c \<noteq> [] \<and> length c \<le> room) cs"
  shows "\<exists>b' cs'. recv b (map chunk cs) = (Inr (got m), b', map chunk cs') \<and> b' @ concat cs' = rest \<and>
    list_all (\<lambda>c. c \<noteq> [] \<and> length c \<le> room) cs'"
  using assms(2,3)
proof (induction cs arbitrary: b)
  case Nil
  then show ?case using recv_message [OF assms(1), of rest "[]"] by (intro exI [of _ rest] exI [of _ "[]"]) simp
next
  case (Cons c cs)
  consider r where "b = message_bytes m @ r" | r where "message_bytes m = b @ r" "r \<noteq> []"
    using Cons.prems(1) unfolding append_eq_append_conv2 by (metis append_Nil2)
  then show ?case
  proof cases
    case 1
    then show ?thesis using Cons.prems recv_message [OF assms(1), of r "map chunk (c # cs)"]
      by (intro exI [of _ r] exI [of _ "c # cs"]) simp
  next
    case 2
    have "recv b (map chunk (c # cs)) = recv (b @ c) (map chunk cs)"
      using recv_more [OF prefix_open [OF assms(1) 2]] Cons.prems(2) by simp
    moreover have "(b @ c) @ concat cs = message_bytes m @ rest" using Cons.prems(1) by simp
    ultimately show ?thesis using Cons.IH [of "b @ c"] Cons.prems(2) by simp
  qed
qed

lemma recv_messages:
  assumes "list_all (message_ok limit) ms" and "b @ concat cs = concat (map message_bytes ms) @ rest"
    and "list_all (\<lambda>c. c \<noteq> [] \<and> length c \<le> room) cs"
  shows "\<exists>b' cs'. recv_calls recv (length ms + n) b (map chunk cs) = map (\<lambda>m. Inr (got m)) ms @ recv_calls recv n b' (map chunk cs') \<and>
    b' @ concat cs' = rest \<and> list_all (\<lambda>c. c \<noteq> [] \<and> length c \<le> room) cs'"
  using assms
proof (induction ms arbitrary: b cs)
  case (Cons m ms)
  have "b @ concat cs = message_bytes m @ (concat (map message_bytes ms) @ rest)" using Cons.prems(2) by simp
  from recv_one [OF _ this Cons.prems(3)] Cons.prems(1) obtain b' cs' where
    r: "recv b (map chunk cs) = (Inr (got m), b', map chunk cs')" "b' @ concat cs' = concat (map message_bytes ms) @ rest"
      "list_all (\<lambda>c. c \<noteq> [] \<and> length c \<le> room) cs'" by auto
  from Cons.IH [OF _ r(2,3)] Cons.prems(1) show ?case by (simp add: r(1))
qed auto

text \<open>A rest that is a proper beginning of a message is read to its end, and then reported as truncated.\<close>

lemma recv_rest:
  assumes "message_ok limit m" and "message_bytes m = (b @ concat cs) @ r" and "r \<noteq> []" and "b @ concat cs \<noteq> []"
    and "list_all (\<lambda>c. c \<noteq> [] \<and> length c \<le> room) cs"
  shows "\<exists>e. recv b (map chunk cs) = (Inl (Bail e), b @ concat cs, [])"
  using assms
proof (induction cs arbitrary: b)
  case Nil
  have "message_open limit b" using prefix_open [OF assms(1), of b r] Nil.prems(2,3) by simp
  then show ?case using recv_truncated Nil.prems(4) by simp
next
  case (Cons c cs)
  have "message_open limit b"
    using prefix_open [OF assms(1), of b "concat (c # cs) @ r"] Cons.prems(2,3) by simp
  then have "recv b (map chunk (c # cs)) = recv (b @ c) (map chunk cs)" using recv_more Cons.prems(5) by simp
  then show ?case using Cons.IH [of "b @ c"] Cons.prems by simp
qed

lemma recv_all:
  assumes "list_all (message_ok limit) ms" and "concat cs = concat (map message_bytes ms)"
    and "list_all (\<lambda>c. c \<noteq> [] \<and> length c \<le> room) cs"
  shows "recv_calls recv (length ms + 1) [] (map chunk cs) = map (\<lambda>m. Inr (got m)) ms @ [Inr closed]"
proof -
  obtain b' cs' where r: "recv_calls recv (length ms + 1) [] (map chunk cs) =
      map (\<lambda>m. Inr (got m)) ms @ recv_calls recv 1 b' (map chunk cs')" "b' @ concat cs' = []"
      "list_all (\<lambda>c. c \<noteq> [] \<and> length c \<le> room) cs'"
    using recv_messages [OF assms(1) _ assms(3), of "[]" "[]" 1] assms(2) by auto
  have "b' = []" "cs' = []" using r(2,3) by (cases cs'; simp)+
  then show ?thesis using r(1) by (simp add: recv_closed)
qed

lemma recv_cut:
  assumes "list_all (message_ok limit) ms" and "message_ok limit m" and "message_bytes m = p @ r" and "p \<noteq> []" and "r \<noteq> []"
    and "concat cs = concat (map message_bytes ms) @ p" and "list_all (\<lambda>c. c \<noteq> [] \<and> length c \<le> room) cs"
  shows "\<exists>e. recv_calls recv (length ms + 1) [] (map chunk cs) = map (\<lambda>m. Inr (got m)) ms @ [Inl (Bail e)]"
proof -
  obtain b' cs' where q: "recv_calls recv (length ms + 1) [] (map chunk cs) =
      map (\<lambda>m. Inr (got m)) ms @ recv_calls recv 1 b' (map chunk cs')" "b' @ concat cs' = p"
      "list_all (\<lambda>c. c \<noteq> [] \<and> length c \<le> room) cs'"
    using recv_messages [OF assms(1) _ assms(7), of "[]" p 1] assms(6) by auto
  from recv_rest [OF assms(2) _ assms(5) _ q(3), of b'] assms(3,4) q(2)
  obtain e where "recv b' (map chunk cs') = (Inl (Bail e), b' @ concat cs', [])" by auto
  then show ?thesis using q(1) by auto
qed

end

section \<open>The receive functions are framed streams\<close>

lemma message_bytes_take:
  assumes "message_ok limit m" and "limit < 2 ^ 32"
  shows "unat (from_be (take 4 (message_bytes m @ rest)) :: u32) = length m"
  using assms by (simp add: message_bytes_def message_ok_def unat_of_nat)

lemma message_bytes_slices [simp]:
  "length (message_bytes m) = 4 + length m"
  "drop 4 (take (4 + length m) (message_bytes m @ rest)) = m"
  "drop (4 + length m) (message_bytes m @ rest) = rest"
  "drop 4 (message_bytes m) = m"
  by (simp_all add: message_bytes_def)

lemma message_bytes_inject: "message_bytes m = message_bytes n \<longleftrightarrow> m = n"
  using message_bytes_slices(2) [of m "[]"] message_bytes_slices(2) [of n "[]"] message_bytes_slices(1) [of m]
    message_bytes_slices(1) [of n] by (metis add_left_cancel)

lemma take_carrier_message_complete:
  assumes "message_ok max_carrier_message m"
  shows "take_carrier_message (message_bytes m @ rest) = (Inr (Some m), rest)"
  using assms message_bytes_take [OF assms, of rest]
  by (simp add: take_carrier_message_def Let_def message_ok_def max_carrier_message_def)

lemma take_carrier_message_open:
  "message_open max_carrier_message b \<Longrightarrow> take_carrier_message b = (Inr None, b)"
  by (auto simp: take_carrier_message_def message_open_def Let_def)

lemma message_open_length: "message_open limit b \<Longrightarrow> length b < 4 + limit"
  by (auto simp: message_open_def Let_def)

interpretation h2: message_stream h2_recv Inr BinaryEvent CloseEvent max_carrier_message
    "carrier_buffer_limit - max_carrier_message - 4"
proof unfold_locales
  fix m rest and input :: "bytes result list"
  assume "message_ok max_carrier_message m"
  then show "h2_recv (message_bytes m @ rest) input = (Inr (BinaryEvent m), rest, input)"
    by (simp add: h2_recv.simps take_carrier_message_complete)
next
  fix b c :: bytes and input :: "bytes result list"
  assume "message_open max_carrier_message b" "length c \<le> carrier_buffer_limit - max_carrier_message - 4"
  then show "h2_recv b (Inr c # input) = h2_recv (b @ c) input"
    using message_open_length [of max_carrier_message b]
    by (subst h2_recv.simps) (simp add: take_carrier_message_open carrier_buffer_limit_def max_carrier_message_def)
next
  show "h2_recv [] [] = (Inr CloseEvent, [], [])" by (simp add: h2_recv.simps take_carrier_message_def)
next
  fix b :: bytes
  assume "message_open max_carrier_message b" "b \<noteq> []"
  then show "\<exists>e. h2_recv b [] = (Inl (Bail e), b, [])" by (simp add: h2_recv.simps take_carrier_message_open)
qed (simp add: max_carrier_message_def)

interpretation h3: message_stream "recv_h3_message ready" "\<lambda>c. ReliableRead (Inr c)" BinaryEvent CloseEvent
    max_carrier_message 8192 for ready
proof unfold_locales
  fix m rest and input :: "h3_input list"
  assume "message_ok max_carrier_message m"
  then show "recv_h3_message ready (message_bytes m @ rest) input = (Inr (BinaryEvent m), rest, input)"
    by (simp add: recv_h3_message.simps take_carrier_message_complete)
next
  fix b c :: bytes and input :: "h3_input list"
  assume "message_open max_carrier_message b" "c \<noteq> []" "length c \<le> 8192"
  then show "recv_h3_message ready b (ReliableRead (Inr c) # input) = recv_h3_message ready (b @ c) input"
    using message_open_length [of max_carrier_message b]
    by (subst recv_h3_message.simps)
      (simp add: take_carrier_message_open h3_receive_def reliable_some_def carrier_buffer_limit_def max_carrier_message_def)
next
  show "recv_h3_message ready [] [] = (Inr CloseEvent, [], [])"
    by (simp add: recv_h3_message.simps take_carrier_message_def h3_receive_def reliable_some_def)
next
  fix b :: bytes
  assume "message_open max_carrier_message b" "b \<noteq> []"
  then show "\<exists>e. recv_h3_message ready b [] = (Inl (Bail e), b, [])"
    by (simp add: recv_h3_message.simps take_carrier_message_open h3_receive_def reliable_some_def)
qed (simp add: max_carrier_message_def)

lemma take_local_message_complete:
  assumes "message_ok 8192 m"
  shows "take_local_message (message_bytes m @ rest) = (Inr (Some m), rest)"
  using assms message_bytes_take [OF assms, of rest] by (simp add: take_local_message_def Let_def message_ok_def)

lemma take_local_message_open: "message_open 8192 b \<Longrightarrow> take_local_message b = (Inr None, b)"
  by (auto simp: take_local_message_def message_open_def Let_def)

interpretation local: message_stream read_local_message Inr Some None 8192 8192
proof unfold_locales
  fix m rest and input :: "bytes result list"
  assume "message_ok 8192 m"
  then show "read_local_message (message_bytes m @ rest) input = (Inr (Some m), rest, input)"
    by (simp add: read_local_message.simps take_local_message_complete)
next
  fix b c :: bytes and input :: "bytes result list"
  assume "message_open 8192 b" "c \<noteq> []"
  then show "read_local_message b (Inr c # input) = read_local_message (b @ c) input"
    by (subst read_local_message.simps) (simp add: take_local_message_open)
next
  show "read_local_message [] [] = (Inr None, [], [])" by (simp add: read_local_message.simps take_local_message_def)
next
  fix b :: bytes
  assume "message_open 8192 b" "b \<noteq> []"
  then show "\<exists>e. read_local_message b [] = (Inl (Bail e), b, [])"
    by (simp add: read_local_message.simps take_local_message_open)
qed simp

interpretation bridge: message_stream recv_stream_message Inr Some None 8192 8192
proof unfold_locales
  fix m rest and input :: "bytes result list"
  assume m: "message_ok 8192 m"
  then show "recv_stream_message (message_bytes m @ rest) input = (Inr (Some m), rest, input)"
    using message_bytes_take [OF m, of rest] by (simp add: recv_stream_message.simps Let_def message_ok_def)
next
  fix b c :: bytes and input :: "bytes result list"
  assume "message_open 8192 b" "c \<noteq> []"
  then show "recv_stream_message b (Inr c # input) = recv_stream_message (b @ c) input"
    by (subst recv_stream_message.simps) (auto simp: message_open_def Let_def)
next
  show "recv_stream_message [] [] = (Inr None, [], [])" by (simp add: recv_stream_message.simps)
next
  fix b :: bytes
  assume "message_open 8192 b" "b \<noteq> []"
  then show "\<exists>e. recv_stream_message b [] = (Inl (Bail e), b, [])"
    by (auto simp: recv_stream_message.simps message_open_def Let_def)
qed simp

section \<open>Sending and batching\<close>

lemma frame_message_ok: "message_ok limit m \<Longrightarrow> limit < 2 ^ 32 \<Longrightarrow> frame_message m = Inr (message_bytes m)"
  by (simp add: frame_message_def u32_try_from_def message_ok_def message_bytes_def)

fun send_all :: "carrier \<Rightarrow> bytes list \<Rightarrow> carrier" where
  "send_all c [] = c"
| "send_all c (m # ms) = send_all (snd (carrier_send_binary c m)) ms"

lemma send_all_h2:
  assumes "list_all (message_ok max_carrier_message) ms" and "h2_output_open c"
  shows "send_all (H2 c) ms = H2 (c\<lparr>h2_output := h2_output c @ map message_bytes ms\<rparr>)"
  using assms by (induction ms arbitrary: c) (auto simp: frame_message_ok max_carrier_message_def)

lemma batch_h2_from_concat: "concat (batch_h2_from batch ms) = batch @ concat (map fst ms)"
  by (induction batch ms rule: batch_h2_from.induct) auto

lemma batch_h2_output_concat: "concat (batch_h2_output ms) = concat (map fst ms)"
  by (cases ms rule: batch_h2_output.cases) (auto simp: batch_h2_from_concat)

lemma batch_h2_from_size:
  assumes "list_all (\<lambda>(m, _). m \<noteq> [] \<and> length m \<le> n) ms" and "batch \<noteq> []" and "length batch < h2_batch_bytes + n"
  shows "list_all (\<lambda>x. x \<noteq> [] \<and> length x < h2_batch_bytes + n) (batch_h2_from batch ms)"
  using assms by (induction batch ms rule: batch_h2_from.induct) (auto simp: h2_batch_bytes_def)

lemma batch_h2_output_size:
  assumes "list_all (\<lambda>(m, _). m \<noteq> [] \<and> length m \<le> n) ms"
  shows "list_all (\<lambda>x. x \<noteq> [] \<and> length x < h2_batch_bytes + n) (batch_h2_output ms)"
  using assms batch_h2_from_size [of n] by (cases ms rule: batch_h2_output.cases) (auto simp: h2_batch_bytes_def)

section \<open>What arbitrary input can do\<close>

text \<open>A message that \<open>take_carrier_message\<close> returns was at the front of the buffer, and nothing else left it.\<close>

lemma take_carrier_message_sound:
  assumes "take_carrier_message b = (Inr (Some m), b')"
  shows "message_ok max_carrier_message m \<and> b = message_bytes m @ b'"
proof -
  define len where "len = unat (from_be (take 4 b) :: u32)"
  have l: "4 \<le> length b" "0 < len" "len \<le> max_carrier_message" "4 + len \<le> length b"
    "m = drop 4 (take (4 + len) b)" "b' = drop (4 + len) b"
    using assms by (auto simp: take_carrier_message_def Let_def len_def split: if_splits)
  have "length m = len" using l by simp
  moreover have "be32 (of_nat len) = take 4 b"
    using l(1) be_encode(2) [of "take 4 b"] by (simp add: len_def)
  moreover have "b = take 4 b @ drop 4 (take (4 + len) b) @ drop (4 + len) b"
    by (metis append_assoc append_take_drop_id le_add1 min.absorb1 take_take)
  ultimately show ?thesis using l by (simp add: message_ok_def message_bytes_def)
qed

lemma take_carrier_message_none: "take_carrier_message b = (Inr None, b') \<Longrightarrow> b' = b \<and> length b < 4 + max_carrier_message"
  by (auto simp: take_carrier_message_def Let_def split: if_splits)

lemma h2_recv_sound:
  assumes "h2_recv b input = (Inr ev, b', rest)"
  shows "\<exists>cs. input = map Inr cs @ rest \<and>
    (case ev of BinaryEvent m \<Rightarrow> message_ok max_carrier_message m \<and> b @ concat cs = message_bytes m @ b'
     | CloseEvent \<Rightarrow> b @ concat cs = [] \<and> b' = [] \<and> rest = []
     | _ \<Rightarrow> False)"
  using assms
proof (induction b input rule: h2_recv.induct)
  case (1 b input)
  obtain taken b1 where t: "take_carrier_message b = (taken, b1)" by fastforce
  show ?case
  proof (cases taken)
    case (Inr message)
    show ?thesis
    proof (cases message)
      case None
      have b1: "b1 = b" using take_carrier_message_none t Inr None by blast
      show ?thesis
      proof (cases input)
        case Nil
        then show ?thesis using "1.prems" t Inr None b1 by (subst (asm) h2_recv.simps) (auto split: if_splits)
      next
        case (Cons x xs)
        obtain c where c: "x = Inr c" "\<not> length (b1 @ c) > carrier_buffer_limit" "h2_recv (b @ c) xs = (Inr ev, b', rest)"
          using "1.prems" t Inr None b1 Cons by (subst (asm) h2_recv.simps) (auto split: if_splits sum.splits)
        from "1.IH" [OF refl t [symmetric] Cons c(1,2)] c(3) b1 obtain cs where
          "xs = map Inr cs @ rest" and
          r: "case ev of BinaryEvent m \<Rightarrow> message_ok max_carrier_message m \<and> (b @ c) @ concat cs = message_bytes m @ b'
            | CloseEvent \<Rightarrow> (b @ c) @ concat cs = [] \<and> b' = [] \<and> rest = [] | _ \<Rightarrow> False" by auto
        then have "input = map Inr (c # cs) @ rest" using Cons c(1) by simp
        then show ?thesis using r by (intro exI [of _ "c # cs"]) (auto split: carrier_event.splits)
      qed
    next
      case (Some m)
      then show ?thesis using "1.prems" t Inr take_carrier_message_sound [of b m b1]
        by (subst (asm) h2_recv.simps) (auto intro: exI [of _ "[]"])
    qed
  qed (use "1.prems" t in \<open>simp add: h2_recv.simps\<close>)
qed

section \<open>The bridge loop\<close>

text \<open>What the loop keeps: a number of messages went upstream, the rest is still to be read; output that
  is not flushed is marked.\<close>

definition bridge_upstream :: "bytes list \<Rightarrow> nat \<Rightarrow> bridge \<Rightarrow> bool" where
  "bridge_upstream ms k s \<longleftrightarrow> k \<le> length ms \<and> br_sent s = concat (map message_bytes (take k ms)) \<and>
     (br_pending s \<noteq> [] \<longrightarrow> br_dirty s) \<and>
     (\<exists>cs. br_local_input s = map Inr cs \<and> list_all (\<lambda>c. c \<noteq> [] \<and> length c \<le> 8192) cs \<and>
        br_local_buffered s @ concat cs = concat (map message_bytes (drop k ms)))"

lemma bridge_write_upstream:
  "bridge_upstream ms k s \<Longrightarrow> bridge_upstream ms k (snd (write_local_message s payload))"
  "fst (write_local_message s payload) \<noteq> Break"
  by (auto simp: write_local_message_def bridge_upstream_def split: sum.splits)

lemma bridge_flush_upstream: "bridge_upstream ms k s \<Longrightarrow> bridge_upstream ms k (bridge_flush s)"
  "bridge_upstream ms k s \<Longrightarrow> br_pending (bridge_flush s) = []"
  by (auto simp: bridge_flush_def bridge_upstream_def)

lemma bridge_local_upstream:
  assumes ms: "list_all (message_ok 8192) ms" and inv: "bridge_upstream ms k s"
  shows "if k < length ms then fst (bridge_step s LocalReady) = Continue \<and> bridge_upstream ms (Suc k) (snd (bridge_step s LocalReady))
    else fst (bridge_step s LocalReady) = Break \<and> bridge_upstream ms k (snd (bridge_step s LocalReady))"
proof -
  obtain cs where cs: "br_local_input s = map Inr cs" "list_all (\<lambda>c. c \<noteq> [] \<and> length c \<le> 8192) cs"
    "br_local_buffered s @ concat cs = concat (map message_bytes (drop k ms))"
    using inv by (auto simp: bridge_upstream_def)
  show ?thesis
  proof (cases "k < length ms")
    case True
    then have d: "drop k ms = ms ! k # drop (Suc k) ms" "take (Suc k) ms = take k ms @ [ms ! k]"
      by (simp_all add: Cons_nth_drop_Suc take_Suc_conv_app_nth)
    have ok: "message_ok 8192 (ms ! k)" using ms True by (simp add: list_all_length)
    have "br_local_buffered s @ concat cs = message_bytes (ms ! k) @ concat (map message_bytes (drop (Suc k) ms))"
      using cs(3) d(1) by simp
    from local.recv_one [OF ok this cs(2)] obtain b' cs' where
      "read_local_message (br_local_buffered s) (br_local_input s) = (Inr (Some (ms ! k)), b', map Inr cs')"
      "b' @ concat cs' = concat (map message_bytes (drop (Suc k) ms))" "list_all (\<lambda>c. c \<noteq> [] \<and> length c \<le> 8192) cs'"
      unfolding cs(1) by blast
    then show ?thesis using inv True d frame_message_ok [OF ok]
      by (auto simp: bridge_upstream_def send_stream_message_def)
  next
    case False
    then have "br_local_buffered s = []" "cs = []" using cs(2,3) by (cases cs; simp)+
    then show ?thesis using False inv cs(1) local.recv_closed by (auto simp: bridge_upstream_def)
  qed
qed

lemma bridge_other_upstream:
  assumes "e \<noteq> LocalReady" and "bridge_upstream ms k s"
  shows "bridge_upstream ms k (snd (bridge_step s e))"
proof (cases e)
  case StreamReady
  obtain r b rest where r: "recv_stream_message (br_stream_buffered s) (br_stream_input s) = (r, b, rest)"
    by (metis prod.exhaust)
  have "bridge_upstream ms k (s\<lparr>br_stream_buffered := b, br_stream_input := rest\<rparr>)"
    using assms(2) by (simp add: bridge_upstream_def)
  then show ?thesis using bridge_write_upstream(1) by (auto simp: StreamReady r Let_def split: sum.splits option.splits)
qed (use assms bridge_flush_upstream(1) bridge_write_upstream(1) in \<open>auto split: sum.splits\<close>)

lemma bridge_loop_upstream:
  assumes "list_all (message_ok 8192) ms" and "bridge_upstream ms k s" and "bridge_loop s es = (r, t)"
  shows "\<exists>j. k \<le> j \<and> bridge_upstream ms j t \<and> (r = Continue \<longrightarrow> j = k + count_list es LocalReady) \<and> (r = Break \<longrightarrow> br_pending t = [])"
  using assms(2,3)
proof (induction es arbitrary: k s)
  case (Cons e es)
  obtain x s' where x: "bridge_step s e = (x, s')" by fastforce
  define j where "j = (if e = LocalReady \<and> x = Continue then Suc k else k)"
  have j: "bridge_upstream ms j s'"
    using bridge_local_upstream [OF assms(1) Cons.prems(1)] bridge_other_upstream [OF _ Cons.prems(1), of e] x
    by (cases "e = LocalReady") (auto simp: j_def simp del: bridge_step.simps split: if_splits)
  show ?case
  proof (cases x)
    case Continue
    then have "bridge_loop s' es = (r, t)" using Cons.prems(2) x by simp
    from Cons.IH [OF j this] obtain i where
      i: "j \<le> i" "bridge_upstream ms i t" "r = Continue \<longrightarrow> i = j + count_list es LocalReady" "r = Break \<longrightarrow> br_pending t = []"
      by blast
    have "k \<le> j" "j + count_list es LocalReady = k + count_list (e # es) LocalReady"
      using Continue by (auto simp: j_def)
    then show ?thesis using i by (intro exI [of _ i]) auto
  next
    case Break
    then show ?thesis using Cons.prems(2) x j bridge_flush_upstream [OF j] by (intro exI [of _ j]) (auto simp: j_def)
  next
    case (Fail f)
    then show ?thesis using Cons.prems(2) x j by (intro exI [of _ j]) (auto simp: j_def)
  qed
qed auto

section \<open>Properties\<close>

text \<open>C37. Messages sent on the HTTP/2 carrier arrive: whatever the timing of the batching task and
  however the network cuts the batches, successive receives return exactly the messages in order and
  then report the close; and no batch exceeds 64 KiB by more than one message.\<close>

theorem h2_carrier_delivers:
  assumes "list_all (message_ok max_carrier_message) ms" and "h2_output_open c" and "h2_output c = []"
    and "send_all (H2 c) ms = H2 c'" and "map fst timed = h2_output c'"
    and "concat cs = concat (batch_h2_output timed)"
    and "list_all (\<lambda>x. x \<noteq> [] \<and> length x \<le> 1044204) cs"
  shows "recv_calls h2_recv (length ms + 1) [] (map Inr cs) = map (\<lambda>m. Inr (BinaryEvent m)) ms @ [Inr CloseEvent] \<and>
    list_all (\<lambda>x. length x < h2_batch_bytes + (4 + max_carrier_message)) (batch_h2_output timed)"
proof -
  have out: "map fst timed = map message_bytes ms"
    using assms(3-5) send_all_h2 [OF assms(1,2)] by auto
  then have "concat cs = concat (map message_bytes ms)" using assms(6) batch_h2_output_concat by metis
  moreover have "carrier_buffer_limit - max_carrier_message - 4 = 1044204"
    by (simp add: carrier_buffer_limit_def max_carrier_message_def)
  ultimately have "recv_calls h2_recv (length ms + 1) [] (map Inr cs) = map (\<lambda>m. Inr (BinaryEvent m)) ms @ [Inr CloseEvent]"
    using h2.recv_all [OF assms(1)] assms(7) by simp
  moreover have "fst x \<noteq> [] \<and> length (fst x) \<le> 4 + max_carrier_message" if "x \<in> set timed" for x
  proof -
    have "fst x \<in> set (map message_bytes ms)" using that out by (metis imageI list.set_map)
    then show ?thesis using assms(1) by (auto simp: list_all_iff message_ok_def message_bytes_def)
  qed
  then have "list_all (\<lambda>(m, _). m \<noteq> [] \<and> length m \<le> 4 + max_carrier_message) timed"
    by (fastforce simp: list_all_iff)
  ultimately show ?thesis using batch_h2_output_size by (auto simp: list_all_iff)
qed

theorem h2_carrier_delivers_witness:
  "recv_calls h2_recv 3 [] [Inr [0, 0], Inr [0, 2, 7, 8, 0], Inr [0, 0, 1, 9]] =
     [Inr (BinaryEvent [7, 8]), Inr (BinaryEvent [9]), Inr CloseEvent]"
proof -
  define c where "c = \<lparr>h2_input = [], h2_output = [], h2_output_open = True, h2_buffered = []\<rparr>"
  have f: "frame_message [7, 8] = Inr [0, 0, 0, 2, 7, 8]" "frame_message [9] = Inr [0, 0, 0, 1, 9]"
    by (simp_all add: frame_message_def u32_try_from_def to_be_def upt_rec)
  have s: "send_all (H2 c) [[7, 8], [9]] = H2 (c\<lparr>h2_output := [[0, 0, 0, 2, 7, 8], [0, 0, 0, 1, 9]]\<rparr>)"
    by (simp add: c_def f)
  show ?thesis
    using h2_carrier_delivers [OF _ _ _ s, of "[([0, 0, 0, 2, 7, 8], True), ([0, 0, 0, 1, 9], True)]"
        "[[0, 0], [0, 2, 7, 8, 0], [0, 0, 1, 9]]"]
    by (simp add: c_def message_ok_def max_carrier_message_def h2_batch_bytes_def numeral_3_eq_3)
qed

text \<open>The bridge relays: whatever the order in which its inputs become ready, what it has sent to
  the server is a number of the local messages, in order and unchanged, as many as its local reads
  completed while it runs; the server's HTTP/3 carrier receives exactly these messages; and when the loop ends
  normally nothing is left unflushed towards the client.\<close>

theorem bridge_relays_to_server:
  assumes "list_all (message_ok max_carrier_message) ms" and "concat cs = concat (map message_bytes ms)"
    and "list_all (\<lambda>c. c \<noteq> [] \<and> length c \<le> 8192) cs"
    and "bridge_loop \<lparr>br_local_buffered = [], br_local_input = map Inr cs, br_stream_buffered = [], br_stream_input = down,
      br_sent = [], br_pending = [], br_written = [], br_dirty = False\<rparr> es = (r, t)"
    and "concat reads = br_sent t" and "list_all (\<lambda>c. c \<noteq> [] \<and> length c \<le> 8192) reads"
  shows "\<exists>k\<le>length ms. recv_calls (recv_h3_message ready) (k + 1) [] (map (\<lambda>c. ReliableRead (Inr c)) reads) =
      map (\<lambda>m. Inr (BinaryEvent m)) (take k ms) @ [Inr CloseEvent] \<and>
    (r = Continue \<longrightarrow> k = count_list es LocalReady) \<and> (r = Break \<longrightarrow> br_pending t = [])"
proof -
  have ok: "list_all (message_ok 8192) ms"
    using assms(1) by (auto simp: list_all_iff message_ok_def max_carrier_message_def)
  have "bridge_upstream ms 0 \<lparr>br_local_buffered = [], br_local_input = map Inr cs, br_stream_buffered = [], br_stream_input = down,
      br_sent = [], br_pending = [], br_written = [], br_dirty = False\<rparr>"
    using assms(2,3) by (auto simp: bridge_upstream_def)
  from bridge_loop_upstream [OF ok this assms(4)] obtain k where
    k: "bridge_upstream ms k t" "r = Continue \<longrightarrow> k = count_list es LocalReady" "r = Break \<longrightarrow> br_pending t = []" by auto
  have "list_all (message_ok max_carrier_message) (take k ms)" "length (take k ms) = k"
    "concat reads = concat (map message_bytes (take k ms))"
    using assms(1,5) k(1) by (auto simp: list_all_iff bridge_upstream_def dest: in_set_takeD)
  from h3.recv_all [OF this(1,3) assms(6), of ready] this(2) k show ?thesis
    by (intro exI [of _ k]) (auto simp: bridge_upstream_def)
qed

theorem bridge_relays_to_server_witness:
  "recv_calls (recv_h3_message False) 2 [] [ReliableRead (Inr [0, 0, 0, 2, 7]), ReliableRead (Inr [8])] =
     [Inr (BinaryEvent [7, 8]), Inr CloseEvent]"
proof -
  have f: "frame_message [7, 8] = Inr [0, 0, 0, 2, 7, 8]" "message_bytes [7, 8] = [0, 0, 0, 2, 7, 8]"
    by (simp_all add: frame_message_def u32_try_from_def message_bytes_def to_be_def upt_rec)
  have m: "message_ok 8192 [7, 8]" by (simp add: message_ok_def)
  have "read_local_message [] [Inr [0, 0, 0], Inr [2, 7, 8]] = read_local_message (message_bytes [7, 8] @ []) []"
    using local.recv_more [of "[]" "[0, 0, 0]" "[Inr [2, 7, 8]]"] local.recv_more [of "[0, 0, 0]" "[2, 7, 8]" "[]"]
    by (simp add: f message_open_def)
  then have l: "read_local_message [] [Inr [0, 0, 0], Inr [2, 7, 8]] = (Inr (Some [7, 8]), [], [])"
    using local.recv_message [OF m, of "[]" "[]"] by (simp only:)
  define s where "s = \<lparr>br_local_buffered = [], br_local_input = [Inr [0, 0, 0], Inr [2, 7, 8]], br_stream_buffered = [],
      br_stream_input = [], br_sent = [], br_pending = [], br_written = [], br_dirty = False\<rparr>"
  define t where "t = s\<lparr>br_local_input := [], br_sent := [0, 0, 0, 2, 7, 8]\<rparr>"
  have "bridge_loop s [LocalReady] = (Continue, t)"
    by (simp add: s_def t_def l send_stream_message_def f)
  then show ?thesis
    using bridge_relays_to_server [of "[[7, 8]]" "[[0, 0, 0], [2, 7, 8]]" "[]" "[LocalReady]" Continue t
        "[[0, 0, 0, 2, 7], [8]]" False]
    by (auto simp: s_def t_def f message_ok_def max_carrier_message_def numeral_2_eq_2)
qed

text \<open>Whatever arrives on the HTTP/2 carrier, a receive that succeeds returns either a message of 1
  to 4368 bytes whose framed bytes were the next ones on the stream, leaving exactly the bytes behind
  it in the buffer, or the close when the stream ended between two messages. Bytes are neither lost, repeated nor
  reordered.\<close>

theorem h2_receive_exact:
  assumes "h2_recv b input = (Inr ev, b', rest)"
  shows "\<exists>cs. input = map Inr cs @ rest \<and>
    (case ev of BinaryEvent m \<Rightarrow> 0 < length m \<and> length m \<le> 4368 \<and>
        b @ concat cs = be32 (of_nat (length m)) @ m @ b'
     | CloseEvent \<Rightarrow> b @ concat cs = [] \<and> b' = [] \<and> rest = []
     | _ \<Rightarrow> False)"
  using h2_recv_sound [OF assms]
  by (auto simp: message_ok_def message_bytes_def max_carrier_message_def split: carrier_event.splits)

theorem h2_receive_exact_witness:
  "\<exists>ev b' rest cs. h2_recv [0, 0, 0] [Inr [1, 7, 9], Inl (Bail ''reset'')] = (Inr ev, b', rest) \<and>
     [Inr [1, 7, 9], Inl (Bail ''reset'')] = map Inr cs @ rest \<and> ev = BinaryEvent [7] \<and> b' = [9]"
proof -
  have m: "message_bytes [7] = [0, 0, 0, 1, 7]" by (simp add: message_bytes_def to_be_def upt_rec)
  have "h2_recv [0, 0, 0] [Inr [1, 7, 9], Inl (Bail ''reset'')] = h2_recv (message_bytes [7] @ [9]) [Inl (Bail ''reset'')]"
    using h2.recv_more [of "[0, 0, 0]" "[1, 7, 9]" "[Inl (Bail ''reset'')]"]
    by (simp add: message_open_def m carrier_buffer_limit_def max_carrier_message_def)
  also have "\<dots> = (Inr (BinaryEvent [7]), [9], [Inl (Bail ''reset'')])"
    by (rule h2.recv_message) (simp add: message_ok_def max_carrier_message_def)
  finally have r: "h2_recv [0, 0, 0] [Inr [1, 7, 9], Inl (Bail ''reset'')] = (Inr (BinaryEvent [7]), [9], [Inl (Bail ''reset'')])" .
  then show ?thesis using h2_receive_exact [OF r] by blast
qed

end
