(* ===== verification/Reka_Rekey.thy ===== *)
theory Reka_Rekey
  imports Reka_Frames
begin

text \<open>
  The epochs of a session (\<open>rekey.rs\<close>): routine key updates and full rekeys, the current, pending and
  previous epoch, the control transcript, counters and deadlines. Every method of \<open>RekeySession\<close> is a
  function from the session to its result and the session afterwards; when a method fails half way, the
  changes made so far are kept, as in the code.
\<close>

section \<open>State\<close>

definition update_interval :: duration where "update_interval = 600 * 1000000000"
definition update_record_limit :: nat where "update_record_limit = 2 ^ 20"
definition update_byte_limit :: nat where "update_byte_limit = 2 ^ 30"
definition update_timeout :: duration where "update_timeout = 10 * 1000000000"
definition old_epoch_grace :: duration where "old_epoch_grace = 3 * 1000000000"
definition old_epoch_records :: nat where "old_epoch_records = 128"
definition default_replay_window :: nat where "default_replay_window = 4096"

datatype epoch_position = CurrentEpoch | PendingEpoch | PreviousEpoch

record opened_record =
  or_header :: record_header
  or_plaintext :: bytes
  or_position :: epoch_position

record epoch_state =
  es_epoch :: u32
  es_secret :: bytes
  es_records :: session_record_layer

text \<open>The two kinds of proof a pending epoch waits for, each with its context and confirmation key.\<close>

datatype pending_proof = Routine bytes bytes | Full bytes bytes

record pending_epoch =
  pe_state :: epoch_state
  pe_proof :: pending_proof

record previous_epoch =
  pv_state :: epoch_state
  pv_expires_at :: instant
  pv_remaining_records :: nat

record rekey_session =
  rk_session_id :: bytes
  rk_transcript :: bytes
  rk_current :: epoch_state
  rk_pending :: "pending_epoch option"
  rk_previous :: "previous_epoch option"
  rk_epoch_started :: instant
  rk_data_records :: nat
  rk_plaintext_bytes :: nat
  rk_update_requested :: bool
  rk_update_deadline :: "instant option"

section \<open>Operations\<close>

definition rekey_session_new ::
    "crypto \<Rightarrow> bytes \<Rightarrow> bytes \<Rightarrow> epoch_keys \<Rightarrow> bytes \<Rightarrow> instant \<Rightarrow> rekey_session result" where
  "rekey_session_new C session_id epoch_secret keys handshake_transcript now =
     (let transcript = hash_parts C [ascii ''RekaSerdoba/1 control transcript'', handshake_transcript, session_id]
      in and_then (session_record_layer_new session_id 0 keys default_replay_window) (\<lambda>records.
           Inr \<lparr>rk_session_id = session_id, rk_transcript = transcript,
                rk_current = \<lparr>es_epoch = 0, es_secret = epoch_secret, es_records = records\<rparr>,
                rk_pending = None, rk_previous = None, rk_epoch_started = now, rk_data_records = 0,
                rk_plaintext_bytes = 0, rk_update_requested = False, rk_update_deadline = None\<rparr>))"

definition count_data :: "rekey_session \<Rightarrow> nat \<Rightarrow> unit result \<times> rekey_session" where
  "count_data s plaintext_len =
     (if rk_data_records s + 1 \<ge> 2 ^ 64 then (Inl (Bail ''data record counter overflow''), s)
      else
        let s1 = s\<lparr>rk_data_records := rk_data_records s + 1\<rparr> in
        if rk_plaintext_bytes s1 + plaintext_len \<ge> 2 ^ 64
        then (Inl (Bail ''plaintext byte counter overflow''), s1)
        else (Inr (), s1\<lparr>rk_plaintext_bytes := rk_plaintext_bytes s1 + plaintext_len\<rparr>))"

definition set_records :: "session_record_layer \<Rightarrow> epoch_state \<Rightarrow> epoch_state" where
  "set_records l e = e\<lparr>es_records := l\<rparr>"

definition seal_data :: "crypto \<Rightarrow> rekey_session \<Rightarrow> bytes \<Rightarrow> bool \<Rightarrow> bytes result \<times> rekey_session" where
  "seal_data C s0 plaintext padded =
     (let (counted, s) = count_data s0 (length plaintext) in
      attempt counted s (\<lambda>_.
        let l = es_records (rk_current s);
            (res, sender) = record_sender_seal C (sl_s2c_data l) plaintext padded
        in (res, s\<lparr>rk_current := set_records (l\<lparr>sl_s2c_data := sender\<rparr>) (rk_current s)\<rparr>)))"

definition seal_control :: "crypto \<Rightarrow> rekey_session \<Rightarrow> bytes \<Rightarrow> bool \<Rightarrow> bytes result \<times> rekey_session" where
  "seal_control C s plaintext padded =
     (let l = es_records (rk_current s);
          (res, sender) = record_sender_seal C (sl_s2c_control l) plaintext padded
      in (res, s\<lparr>rk_current := set_records (l\<lparr>sl_s2c_control := sender\<rparr>) (rk_current s)\<rparr>))"

text \<open>Encoding a control frame and sealing it in the current epoch, as every handler below does.\<close>

definition seal_control_frame :: "crypto \<Rightarrow> rekey_session \<Rightarrow> byte \<Rightarrow> bytes \<Rightarrow> bytes result \<times> rekey_session" where
  "seal_control_frame C s frame_type body =
     attempt (frame_encode \<lparr>fr_type = frame_type, fr_flags = 0, fr_body = body\<rparr>) s (\<lambda>plaintext.
       seal_control C s plaintext False)"

definition expire_previous :: "rekey_session \<Rightarrow> instant \<Rightarrow> rekey_session" where
  "expire_previous s now =
     (case rk_previous s of
        None \<Rightarrow> s
      | Some previous \<Rightarrow>
          if pv_remaining_records previous = 0 \<or> pv_expires_at previous \<le> now then s\<lparr>rk_previous := None\<rparr> else s)"

definition open_from :: "crypto \<Rightarrow> epoch_state \<Rightarrow> record_kind \<Rightarrow> bytes \<Rightarrow> bytes result \<times> epoch_state" where
  "open_from C e kind encoded =
     (let l = es_records e in
      case kind of
        Data \<Rightarrow> (let (res, r) = record_receiver_open C (sl_c2s_data l) encoded
                 in (res, set_records (l\<lparr>sl_c2s_data := r\<rparr>) e))
      | Control \<Rightarrow> (let (res, r) = record_receiver_open C (sl_c2s_control l) encoded
                    in (res, set_records (l\<lparr>sl_c2s_control := r\<rparr>) e)))"

text \<open>The last two branches of \<open>open\<close>: a record of the previous epoch, or of an unknown one.\<close>

definition rekey_open_previous ::
    "crypto \<Rightarrow> rekey_session \<Rightarrow> record_header \<Rightarrow> bytes \<Rightarrow> instant \<Rightarrow> opened_record result \<times> rekey_session" where
  "rekey_open_previous C s header encoded now =
     (case rk_previous s of
        None \<Rightarrow> (Inl (Bail ''unknown record epoch''), s)
      | Some previous \<Rightarrow>
          if rh_epoch header = es_epoch (pv_state previous) then
            (if pv_remaining_records previous = 0 \<or> pv_expires_at previous \<le> now
             then (Inl (Bail ''previous epoch grace expired''), s)
             else
               let (res, e) = open_from C (pv_state previous) (rh_kind header) encoded;
                   s1 = s\<lparr>rk_previous := Some (previous\<lparr>pv_state := e\<rparr>)\<rparr>
               in attempt res s1 (\<lambda>plaintext.
                    (Inr \<lparr>or_header = header, or_plaintext = plaintext, or_position = PreviousEpoch\<rparr>,
                     s\<lparr>rk_previous := Some (previous\<lparr>pv_state := e,
                         pv_remaining_records := pv_remaining_records previous - 1\<rparr>)\<rparr>)))
          else (Inl (Bail ''unknown record epoch''), s))"

text \<open>\<open>open\<close> after the previous epoch was checked for expiry.\<close>

definition rekey_open_live :: "crypto \<Rightarrow> rekey_session \<Rightarrow> bytes \<Rightarrow> instant \<Rightarrow> opened_record result \<times> rekey_session" where
  "rekey_open_live C s encoded now =
     (attempt (record_header_parse encoded) s (\<lambda>header.
        if rh_epoch header = es_epoch (rk_current s) then
          (let (res, e) = open_from C (rk_current s) (rh_kind header) encoded;
               s1 = s\<lparr>rk_current := e\<rparr>
           in attempt res s1 (\<lambda>plaintext.
                let (counted, s2) =
                      (if rh_kind header = Data then count_data s1 (length plaintext) else (Inr (), s1))
                in attempt counted s2 (\<lambda>_.
                     (Inr \<lparr>or_header = header, or_plaintext = plaintext, or_position = CurrentEpoch\<rparr>, s2))))
        else case rk_pending s of
          Some pending \<Rightarrow>
            if rh_epoch header = es_epoch (pe_state pending) then
              (if rh_kind header \<noteq> Control then (Inl (Bail ''pending epoch accepts only control records''), s)
               else
                 let (res, e) = open_from C (pe_state pending) (rh_kind header) encoded;
                     s1 = s\<lparr>rk_pending := Some (pending\<lparr>pe_state := e\<rparr>)\<rparr>
                 in attempt res s1 (\<lambda>plaintext.
                      (Inr \<lparr>or_header = header, or_plaintext = plaintext, or_position = PendingEpoch\<rparr>, s1)))
            else rekey_open_previous C s header encoded now
        | None \<Rightarrow> rekey_open_previous C s header encoded now))"

definition rekey_open :: "crypto \<Rightarrow> rekey_session \<Rightarrow> bytes \<Rightarrow> instant \<Rightarrow> opened_record result \<times> rekey_session" where
  "rekey_open C s encoded now = rekey_open_live C (expire_previous s now) encoded now"

definition update_input :: "bytes \<Rightarrow> u32 \<Rightarrow> u32 \<Rightarrow> bytes \<Rightarrow> bytes \<Rightarrow> bytes" where
  "update_input session_id current_epoch next_epoch update_nonce transcript =
     ascii ''RekaSerdoba/1 epoch update'' @ session_id @ be32 current_epoch @ be32 next_epoch @
     update_nonce @ transcript"

definition confirmation_key :: "crypto \<Rightarrow> bytes \<Rightarrow> bytes \<Rightarrow> u32 \<Rightarrow> bytes result" where
  "confirmation_key C secret session_id epoch =
     and_then (ok_or (hkdf_from_prk C secret) (Bail ''invalid epoch secret'')) (\<lambda>kdf.
     and_then (rekey_expand_label C kdf ''epoch confirmation'' (session_id @ be32 epoch) 32) (fixed 32))"

text \<open>The epoch check of both initiations: this epoch, the next one, and no overflow between them.\<close>

definition check_next_epoch :: "rekey_session \<Rightarrow> u32 \<Rightarrow> u32 \<Rightarrow> string \<Rightarrow> unit result" where
  "check_next_epoch s current_epoch next_epoch message =
     (if current_epoch \<noteq> es_epoch (rk_current s) then Inl (Bail message)
      else if unat current_epoch + 1 \<ge> 2 ^ 32 then Inl (Bail ''epoch overflow'')
      else if next_epoch \<noteq> current_epoch + 1 then Inl (Bail message)
      else Inr ())"

definition stage_pending ::
    "rekey_session \<Rightarrow> u32 \<Rightarrow> bytes \<Rightarrow> epoch_keys \<Rightarrow> pending_proof \<Rightarrow> rekey_session result" where
  "stage_pending s next_epoch next_secret keys proof =
     and_then (session_record_layer_new (rk_session_id s) next_epoch keys default_replay_window) (\<lambda>records.
       Inr (s\<lparr>rk_pending := Some \<lparr>pe_state = \<lparr>es_epoch = next_epoch, es_secret = next_secret, es_records = records\<rparr>,
                                 pe_proof = proof\<rparr>\<rparr>))"

definition accept_update_init ::
    "crypto \<Rightarrow> rekey_session \<Rightarrow> bytes \<Rightarrow> bytes \<Rightarrow> instant \<Rightarrow> bytes result \<times> rekey_session" where
  "accept_update_init C s encoded body now =
     (if length body \<noteq> 72 \<or> rk_pending s \<noteq> None then (Inl (Bail ''invalid or concurrent key update''), s)
      else
        let current_epoch = from_be (subrange 0 4 body);
            next_epoch = from_be (subrange 4 8 body);
            update_nonce = subrange 8 40 body;
            received_tag = subrange 40 72 body
        in attempt (check_next_epoch s current_epoch next_epoch ''invalid key update epoch'') s (\<lambda>_.
        let input = update_input (rk_session_id s) current_epoch next_epoch update_nonce (rk_transcript s);
            secret = es_secret (rk_current s)
        in attempt (hmac_bytes C secret input) s (\<lambda>expected_tag.
        if received_tag \<noteq> expected_tag then (Inl (Bail ''invalid key update transcript tag''), s)
        else
          let update_context = sha256 C input in
          attempt (hmac_bytes C secret update_context) s (\<lambda>next_secret.
          attempt (epoch_keys_derive C next_secret (rk_session_id s) next_epoch) s (\<lambda>keys.
          attempt (confirmation_key C next_secret (rk_session_id s) next_epoch) s (\<lambda>confirm_key.
          let s1 = s\<lparr>rk_transcript := transcript_next C (rk_transcript s) encoded\<rparr> in
          attempt (hmac_label C confirm_key ''server ack'' update_context) s1 (\<lambda>ack.
          let (sealed, s2) = seal_control_frame C s1 0x06 (be32 next_epoch @ ack) in
          attempt sealed s2 (\<lambda>ack_record.
          let s3 = s2\<lparr>rk_transcript := transcript_next C (rk_transcript s2) ack_record\<rparr> in
          attempt (stage_pending s3 next_epoch next_secret keys (Routine update_context confirm_key)) s3 (\<lambda>s4.
            (Inr ack_record,
             expire_previous (s4\<lparr>rk_update_requested := True,
                                 rk_update_deadline := Some (now + int update_timeout)\<rparr>) now))))))))))"

text \<open>The pending epoch becomes the current one, which becomes the previous one.\<close>

definition promote_pending :: "rekey_session \<Rightarrow> pending_epoch \<Rightarrow> instant \<Rightarrow> rekey_session" where
  "promote_pending s pending now =
     s\<lparr>rk_pending := None, rk_current := pe_state pending,
       rk_previous := Some \<lparr>pv_state = rk_current s, pv_expires_at = now + int old_epoch_grace,
                            pv_remaining_records = old_epoch_records\<rparr>\<rparr>"

definition reset_update :: "rekey_session \<Rightarrow> instant \<Rightarrow> rekey_session" where
  "reset_update s now =
     s\<lparr>rk_epoch_started := now, rk_data_records := 0, rk_plaintext_bytes := 0,
       rk_update_requested := False, rk_update_deadline := None\<rparr>"

text \<open>The second half of both confirmations, from the accepted tag on.\<close>

definition finish_update ::
    "crypto \<Rightarrow> rekey_session \<Rightarrow> pending_epoch \<Rightarrow> bytes \<Rightarrow> bytes \<Rightarrow> bytes \<Rightarrow> u32 \<Rightarrow> instant \<Rightarrow> bytes result \<times> rekey_session" where
  "finish_update C s pending context confirm_key encoded next_epoch now =
     (let s1 = s\<lparr>rk_transcript := transcript_next C (rk_transcript s) encoded, rk_pending := None\<rparr> in
      attempt (hmac_label C confirm_key ''server done'' context) s1 (\<lambda>done_tag.
      let s2 = promote_pending s1 pending now;
          (sealed, s3) = seal_control_frame C s2 0x08 (be32 next_epoch @ done_tag)
      in attempt sealed s3 (\<lambda>done_record.
        (Inr done_record,
         reset_update (s3\<lparr>rk_transcript := transcript_next C (rk_transcript s3) done_record\<rparr>) now))))"

definition accept_update_commit ::
    "crypto \<Rightarrow> rekey_session \<Rightarrow> bytes \<Rightarrow> bytes \<Rightarrow> instant \<Rightarrow> bytes result \<times> rekey_session" where
  "accept_update_commit C s encoded body now =
     (if length body \<noteq> 36 then (Inl (Bail ''invalid key update commit''), s)
      else
        let next_epoch = from_be (subrange 0 4 body);
            received_tag = subrange 4 36 body
        in attempt (ok_or (rk_pending s) (Bail ''key update is not pending'')) s (\<lambda>pending.
        if next_epoch \<noteq> es_epoch (pe_state pending) then (Inl (Bail ''key update commit epoch mismatch''), s)
        else case pe_proof pending of
          Full _ _ \<Rightarrow> (Inl (Bail ''routine key update is not pending''), s)
        | Routine context confirm_key \<Rightarrow>
            attempt (hmac_label C confirm_key ''client commit'' context) s (\<lambda>expected.
            if received_tag \<noteq> expected then (Inl (Bail ''invalid key update commit tag''), s)
            else finish_update C s pending context confirm_key encoded next_epoch now)))"

definition accept_full_rekey_confirm ::
    "crypto \<Rightarrow> rekey_session \<Rightarrow> bytes \<Rightarrow> bytes \<Rightarrow> instant \<Rightarrow> bytes result \<times> rekey_session" where
  "accept_full_rekey_confirm C s encoded body now =
     (if length body \<noteq> 36 then (Inl (Bail ''invalid full rekey confirmation''), s)
      else
        let target_epoch = from_be (subrange 0 4 body);
            received = subrange 4 36 body
        in attempt (ok_or (rk_pending s) (Bail ''full rekey is not pending'')) s (\<lambda>pending.
        if target_epoch \<noteq> es_epoch (pe_state pending) then (Inl (Bail ''full rekey confirmation epoch mismatch''), s)
        else case pe_proof pending of
          Routine _ _ \<Rightarrow> (Inl (Bail ''full rekey is not pending''), s)
        | Full context confirm_key \<Rightarrow>
            attempt (hmac_label C confirm_key ''client confirm'' context) s (\<lambda>expected.
            if received \<noteq> expected then (Inl (Bail ''invalid full rekey confirmation tag''), s)
            else finish_update C s pending context confirm_key encoded target_epoch now)))"

text \<open>\<open>accept_full_rekey_init\<close>; the ephemeral secret that \<open>OsRng\<close> draws is the argument \<open>server_secret\<close>.\<close>

definition accept_full_rekey_init ::
    "crypto \<Rightarrow> rekey_session \<Rightarrow> bytes \<Rightarrow> bytes \<Rightarrow> bytes \<Rightarrow> bytes \<Rightarrow> bytes \<Rightarrow> instant \<Rightarrow> bytes result \<times> rekey_session" where
  "accept_full_rekey_init C s encoded body client_key server_key server_secret now =
     (if length body \<noteq> 120 \<or> rk_pending s \<noteq> None then (Inl (Bail ''invalid or concurrent full rekey''), s)
      else
        let current_epoch = from_be (subrange 0 4 body);
            target_epoch = from_be (subrange 4 8 body);
            rekey_id = subrange 8 24 body;
            client_ephemeral = subrange 24 56 body;
            client_signature = subrange 56 120 body
        in attempt (check_next_epoch s current_epoch target_epoch ''invalid full rekey epoch'') s (\<lambda>_.
        let client_input = hash_parts C [ascii ''RekaSerdoba/1 full rekey client'', rk_session_id s,
              be32 current_epoch, be32 target_epoch, rekey_id, client_ephemeral, rk_transcript s]
        in if \<not> ed25519_verify C client_key client_input client_signature
           then (Inl (Bail ''invalid full rekey client signature''), s)
        else
        let s1 = s\<lparr>rk_transcript := transcript_next C (rk_transcript s) encoded\<rparr>;
            server_ephemeral = x25519_public C server_secret;
            server_input = hash_parts C [ascii ''RekaSerdoba/1 full rekey server'', rk_session_id s,
              be32 current_epoch, be32 target_epoch, rekey_id, client_ephemeral, server_ephemeral, rk_transcript s1];
            server_signature = ed25519_sign C server_key server_input;
            (sealed, s2) = seal_control_frame C s1 0x0A
              (be32 current_epoch @ be32 target_epoch @ rekey_id @ server_ephemeral @ server_signature)
        in attempt sealed s2 (\<lambda>reply.
        let s3 = s2\<lparr>rk_transcript := transcript_next C (rk_transcript s2) reply\<rparr>;
            shared = x25519 C server_secret client_ephemeral
        in if shared = replicate 32 0 then (Inl (Bail ''all-zero full rekey shared secret''), s3)
        else
        let context = hash_parts C [ascii ''RekaSerdoba/1 full rekey'', rk_session_id s, be32 current_epoch,
              be32 target_epoch, rekey_id, client_ephemeral, server_ephemeral, client_signature, server_signature,
              rk_transcript s3]
        in attempt (hmac_bytes C (es_secret (rk_current s3)) (shared @ context)) s3 (\<lambda>next_secret.
        attempt (epoch_keys_derive C next_secret (rk_session_id s) target_epoch) s3 (\<lambda>keys.
        attempt (ok_or (hkdf_from_prk C next_secret) (Bail ''invalid epoch secret'')) s3 (\<lambda>kdf.
        attempt (and_then (rekey_expand_label C kdf ''full rekey confirm'' context 32) (fixed 32)) s3 (\<lambda>confirm_key.
        attempt (stage_pending s3 target_epoch next_secret keys (Full context confirm_key)) s3 (\<lambda>s4.
          (Inr reply, s4\<lparr>rk_update_requested := True,
                         rk_update_deadline := Some (now + int update_timeout)\<rparr>)))))))))"

definition request_update_if_due :: "crypto \<Rightarrow> rekey_session \<Rightarrow> instant \<Rightarrow> bytes option result \<times> rekey_session" where
  "request_update_if_due C s now =
     (if (case rk_update_deadline s of None \<Rightarrow> False | Some deadline \<Rightarrow> deadline \<le> now)
      then (Inl (Bail ''key update timed out''), s)
      else if rk_pending s \<noteq> None \<or> rk_update_requested s then (Inr None, s)
      else if now < rk_epoch_started s + int update_interval \<and> rk_data_records s < update_record_limit \<and>
              rk_plaintext_bytes s < update_byte_limit then (Inr None, s)
      else
        let (sealed, s1) = seal_control_frame C s 0x04 (be32 (es_epoch (rk_current s))) in
        attempt sealed s1 (\<lambda>rec.
          (Inr (Some rec),
           s1\<lparr>rk_transcript := transcript_next C (rk_transcript s1) rec, rk_update_requested := True,
              rk_update_deadline := Some (now + int update_timeout)\<rparr>)))"

definition path_challenge ::
    "crypto \<Rightarrow> rekey_session \<Rightarrow> bytes \<Rightarrow> bytes \<Rightarrow> bytes \<Rightarrow> (bytes \<times> bytes) result \<times> rekey_session" where
  "path_challenge C s migration_secret carrier_id challenge =
     (if rk_pending s \<noteq> None then (Inl (Bail ''migration during rekey is not allowed''), s)
      else
        let (sealed, s1) = seal_control_frame C s 0x0C (carrier_id @ challenge) in
        attempt sealed s1 (\<lambda>rec.
        let s2 = s1\<lparr>rk_transcript := transcript_next C (rk_transcript s1) rec\<rparr>;
            proof = ascii ''RekaSerdoba/1 path response'' @ rk_session_id s2 @ carrier_id @ challenge @ rk_transcript s2
        in attempt (hmac_bytes C migration_secret proof) s2 (\<lambda>expected. (Inr (rec, expected), s2))))"

definition accept_path_response ::
    "crypto \<Rightarrow> rekey_session \<Rightarrow> bytes \<Rightarrow> bytes \<Rightarrow> bytes \<Rightarrow> bytes \<Rightarrow> unit result \<times> rekey_session" where
  "accept_path_response C s encoded body carrier_id expected =
     (if length body \<noteq> 48 \<or> take 16 body \<noteq> carrier_id \<or> drop 16 body \<noteq> expected
      then (Inl (Bail ''invalid migration path response''), s)
      else (Inr (), s\<lparr>rk_transcript := transcript_next C (rk_transcript s) encoded\<rparr>))"

definition next_update_check :: "rekey_session \<Rightarrow> instant \<Rightarrow> instant" where
  "next_update_check s now =
     (case rk_update_deadline s of
        Some deadline \<Rightarrow> deadline
      | None \<Rightarrow>
          if rk_pending s \<noteq> None \<or> rk_update_requested s then now + int update_timeout
          else rk_epoch_started s + int update_interval)"

end
