(* ===== verification/Reka_Fragment.thy ===== *)
theory Reka_Fragment
  imports Reka_Frames "HOL-Library.Multiset"
begin

text \<open>
  Fragment reassembly (\<open>fragment.rs\<close>). The hash map of assemblies is an association list with
  distinct keys, the ordered map of fragments an association list sorted by offset. The invariant says
  that the fragments of an assembly are in range and disjoint and that the memory counter is exact;
  from it follow the memory bound, the unreachability of the incomplete branches after the last
  fragment, and that a packet is reassembled from its fragments in any order.
\<close>

section \<open>Model\<close>

definition max_reassemblies :: nat where "max_reassemblies = 64"
definition max_reassembly_memory :: nat where "max_reassembly_memory = 8 * 1024 * 1024"
definition reassembly_timeout :: duration where "reassembly_timeout = 3000000000"

record assembly =
  asm_total_len :: nat
  asm_created_at :: instant
  asm_fragments :: "(nat \<times> bytes) list"
  asm_received :: nat

record fragment_reassembler =
  ra_assemblies :: "(u32 \<times> assembly) list"
  ra_memory :: nat

record parsed_fragment =
  pf_packet_id :: u32
  pf_total_len :: nat
  pf_offset :: nat
  pf_data :: bytes

definition reassembler_new :: fragment_reassembler where
  "reassembler_new = \<lparr>ra_assemblies = [], ra_memory = 0\<rparr>"

definition parsed_fragment_parse :: "bytes \<Rightarrow> parsed_fragment result" where
  "parsed_fragment_parse body =
     (if length body < 10 then Inl (Bail ''truncated fragment'')
      else
        let packet_id = from_be (subrange 0 4 body) :: u32;
            total_len = unat (from_be (subrange 4 6 body) :: u16);
            offset = unat (from_be (subrange 6 8 body) :: u16);
            fragment_len = unat (from_be (subrange 8 10 body) :: u16)
        in if total_len = 0 \<or> fragment_len = 0 \<or> length body \<noteq> 10 + fragment_len
           then Inl (Bail ''invalid fragment length'')
           else case usize_checked_add offset fragment_len of
             None \<Rightarrow> Inl (Bail ''fragment range overflow'')
           | Some stop \<Rightarrow>
               if stop > total_len then Inl (Bail ''fragment exceeds packet'')
               else Inr \<lparr>pf_packet_id = packet_id, pf_total_len = total_len, pf_offset = offset,
                         pf_data = drop 10 body\<rparr>)"

definition reassembler_remove :: "fragment_reassembler \<Rightarrow> u32 \<Rightarrow> fragment_reassembler" where
  "reassembler_remove ra packet_id =
     (case map_of (ra_assemblies ra) packet_id of
        None \<Rightarrow> ra
      | Some asm \<Rightarrow> ra\<lparr>ra_assemblies := AList.delete packet_id (ra_assemblies ra),
                     ra_memory := ra_memory ra - asm_received asm\<rparr>)"

definition assembly_expired :: "instant \<Rightarrow> assembly \<Rightarrow> bool" where
  "assembly_expired now asm \<longleftrightarrow> reassembly_timeout \<le> nat (now - asm_created_at asm)"

definition reassembler_expire :: "fragment_reassembler \<Rightarrow> instant \<Rightarrow> fragment_reassembler" where
  "reassembler_expire ra now =
     foldl reassembler_remove ra
       (map fst (filter (\<lambda>(packet_id, asm). assembly_expired now asm) (ra_assemblies ra)))"

fun btree_insert :: "nat \<Rightarrow> 'v \<Rightarrow> (nat \<times> 'v) list \<Rightarrow> (nat \<times> 'v) list" where
  "btree_insert k v [] = [(k, v)]"
| "btree_insert k v ((k', v') # kvs) =
     (if k < k' then (k, v) # (k', v') # kvs
      else if k = k' then (k, v) # kvs
      else (k', v') # btree_insert k v kvs)"

text \<open>The final loop: \<open>None\<close> when a fragment does not start where the previous one ended.\<close>

fun collect_fragments :: "nat \<Rightarrow> bytes \<Rightarrow> (nat \<times> bytes) list \<Rightarrow> (nat \<times> bytes) option" where
  "collect_fragments expected packet [] = Some (expected, packet)"
| "collect_fragments expected packet ((offset, data) # rest) =
     (if offset \<noteq> expected then None
      else collect_fragments (expected + length data) (packet @ data) rest)"

definition fragment_overlaps :: "nat \<Rightarrow> nat \<Rightarrow> (nat \<times> bytes) list \<Rightarrow> bool" where
  "fragment_overlaps start stop frags =
     list_ex (\<lambda>(other_start, data). start < other_start + length data \<and> other_start < stop) frags"

definition reassembler_push ::
    "fragment_reassembler \<Rightarrow> bytes \<Rightarrow> instant \<Rightarrow> bytes option result \<times> fragment_reassembler" where
  "reassembler_push ra0 body now =
     (let ra = reassembler_expire ra0 now in
      case parsed_fragment_parse body of
        Inl e \<Rightarrow> (Inl e, ra)
      | Inr f \<Rightarrow>
          let packet_id = pf_packet_id f in
          if map_of (ra_assemblies ra) packet_id = None \<and> max_reassemblies \<le> length (ra_assemblies ra)
          then (Inl (Bail ''fragment reassembly limit reached''), ra)
          else
            let asm = (case map_of (ra_assemblies ra) packet_id of
                  Some a \<Rightarrow> a
                | None \<Rightarrow> \<lparr>asm_total_len = pf_total_len f, asm_created_at = now, asm_fragments = [],
                            asm_received = 0\<rparr>);
                ra1 = ra\<lparr>ra_assemblies := AList.update packet_id asm (ra_assemblies ra)\<rparr>
            in if asm_total_len asm \<noteq> pf_total_len f
               then (Inl (Bail ''fragment total length changed''), reassembler_remove ra1 packet_id)
               else case map_of (asm_fragments asm) (pf_offset f) of
                 Some existing \<Rightarrow>
                   if existing = pf_data f then (Inr None, ra1)
                   else (Inl (Bail ''conflicting duplicate fragment''), reassembler_remove ra1 packet_id)
               | None \<Rightarrow>
                   let start = pf_offset f; stop = start + length (pf_data f) in
                   if fragment_overlaps start stop (asm_fragments asm)
                   then (Inl (Bail ''overlapping fragment''), reassembler_remove ra1 packet_id)
                   else if ra_memory ra1 + length (pf_data f) > max_reassembly_memory
                   then (Inl (Bail ''fragment memory limit reached''), ra1)
                   else
                     let asm' = asm\<lparr>asm_received := asm_received asm + length (pf_data f),
                                     asm_fragments := btree_insert (pf_offset f) (pf_data f) (asm_fragments asm)\<rparr>;
                         ra2 = ra1\<lparr>ra_assemblies := AList.update packet_id asm' (ra_assemblies ra1),
                                   ra_memory := ra_memory ra1 + length (pf_data f)\<rparr>
                     in if asm_received asm' \<noteq> asm_total_len asm' then (Inr None, ra2)
                        else case collect_fragments 0 [] (asm_fragments asm') of
                          None \<Rightarrow> (Inr None, ra2)
                        | Some (expected, packet) \<Rightarrow>
                            if expected \<noteq> asm_total_len asm' then (Inr None, ra2)
                            else (Inr (Some packet), reassembler_remove ra2 packet_id))"

section \<open>Specification\<close>

text \<open>The body of a fragment frame, as the sender in \<open>packet_batch.rs\<close> writes it.\<close>

definition fragment_body :: "u32 \<Rightarrow> nat \<Rightarrow> nat \<Rightarrow> bytes \<Rightarrow> bytes" where
  "fragment_body packet_id tlen offset data =
     be32 packet_id @ be16 (of_nat tlen) @ be16 (of_nat offset) @ be16 (of_nat (length data)) @ data"

definition fragment_fits :: "nat \<Rightarrow> nat \<Rightarrow> bytes \<Rightarrow> bool" where
  "fragment_fits tlen offset data \<longleftrightarrow> tlen \<le> 65535 \<and> data \<noteq> [] \<and> offset + length data \<le> tlen"

text \<open>Non-empty fragments between \<open>lo\<close> and \<open>tlen\<close>, in order and without overlap.\<close>

fun fragments_ok :: "nat \<Rightarrow> nat \<Rightarrow> (nat \<times> bytes) list \<Rightarrow> bool" where
  "fragments_ok lo tlen [] \<longleftrightarrow> lo \<le> tlen"
| "fragments_ok lo tlen ((offset, data) # rest) \<longleftrightarrow>
     lo \<le> offset \<and> data \<noteq> [] \<and> fragments_ok (offset + length data) tlen rest"

definition fragments_size :: "(nat \<times> bytes) list \<Rightarrow> nat" where
  "fragments_size frags = sum_list (map (length \<circ> snd) frags)"

definition assembly_wf :: "assembly \<Rightarrow> bool" where
  "assembly_wf a \<longleftrightarrow> asm_total_len a \<le> 65535 \<and> fragments_ok 0 (asm_total_len a) (asm_fragments a) \<and>
     asm_received a = fragments_size (asm_fragments a) \<and> asm_received a < asm_total_len a"

definition reassembler_wf :: "fragment_reassembler \<Rightarrow> bool" where
  "reassembler_wf ra \<longleftrightarrow> distinct (map fst (ra_assemblies ra)) \<and>
     length (ra_assemblies ra) \<le> max_reassemblies \<and> (\<forall>(i, a)\<in>set (ra_assemblies ra). assembly_wf a) \<and>
     ra_memory ra = sum_list (map (asm_received \<circ> snd) (ra_assemblies ra))"

section \<open>Lists of fragments\<close>

lemma fragments_ok_le: "fragments_ok lo tlen fs \<Longrightarrow> lo + fragments_size fs \<le> tlen"
proof (induction fs arbitrary: lo)
  case (Cons f fs)
  then show ?case by (cases f) (force simp: fragments_size_def)
qed (simp add: fragments_size_def)

lemma fragments_ok_mono: "fragments_ok lo tlen fs \<Longrightarrow> lo' \<le> lo \<Longrightarrow> fragments_ok lo' tlen fs"
  by (cases fs) auto

lemma fragments_ok_insert:
  assumes "fragments_ok lo tlen fs" and "lo \<le> start" and "data \<noteq> []" and "start + length data \<le> tlen"
    and "\<not> fragment_overlaps start (start + length data) fs"
  shows "fragments_ok lo tlen (btree_insert start data fs)"
  using assms
proof (induction fs arbitrary: lo)
  case (Cons f fs)
  obtain o' d' where f: "f = (o', d')" by fastforce
  have d': "0 < length d'" "0 < length data" using Cons.prems f by auto
  have no: "\<not> (start < o' + length d' \<and> o' < start + length data)"
    "\<not> fragment_overlaps start (start + length data) fs"
    using Cons.prems(5) by (auto simp: fragment_overlaps_def f)
  show ?case using Cons.IH [of "o' + length d'"] Cons.prems no d' by (auto simp: f)
qed simp

lemma fragments_size_insert:
  "map_of fs start = None \<Longrightarrow> fragments_size (btree_insert start data fs) = fragments_size fs + length data"
  by (induction fs) (auto simp: fragments_size_def split: if_splits)

lemma set_btree_insert:
  "map_of fs k = None \<Longrightarrow> set (btree_insert k v fs) = insert (k, v) (set fs)"
  by (induction fs) (auto split: if_splits)

text \<open>Fragments that fill the packet are contiguous.\<close>

lemma collect_complete:
  assumes "fragments_ok lo tlen fs" and "lo + fragments_size fs = tlen"
  shows "collect_fragments lo acc fs = Some (tlen, acc @ concat (map snd fs))"
  using assms
proof (induction fs arbitrary: lo acc)
  case (Cons f fs)
  obtain o' d' where f: "f = (o', d')" by fastforce
  have "o' + length d' + fragments_size fs \<le> tlen" using Cons.prems fragments_ok_le by (auto simp: f)
  then have "o' = lo" using Cons.prems by (simp add: f fragments_size_def)
  then show ?case using Cons by (simp add: f fragments_size_def add.assoc)
qed (simp add: fragments_size_def)

text \<open>The fragments of a known packet: slices of it.\<close>

definition fragments_of :: "bytes \<Rightarrow> (nat \<times> bytes) list \<Rightarrow> bool" where
  "fragments_of packet frags \<longleftrightarrow> (\<forall>(offset, data)\<in>set frags. data = subrange offset (offset + length data) packet)"

lemma collect_packet:
  assumes "fragments_ok lo (length packet) fs" and "lo + fragments_size fs = length packet"
    and "fragments_of packet fs"
  shows "concat (map snd fs) = drop lo packet"
  using assms
proof (induction fs arbitrary: lo)
  case (Cons f fs)
  obtain o' d' where f: "f = (o', d')" by fastforce
  have "o' + length d' + fragments_size fs \<le> length packet" using Cons.prems fragments_ok_le by (auto simp: f)
  then have o': "o' = lo" using Cons.prems by (simp add: f fragments_size_def)
  then have "concat (map snd fs) = drop (lo + length d') packet"
    using Cons by (simp add: f fragments_size_def fragments_of_def add.assoc)
  moreover have "d' = take (length d') (drop lo packet)"
    using Cons.prems(3) o' by (simp add: f fragments_of_def subrange_def)
  ultimately show ?case using append_take_drop_id [of "length d'" "drop lo packet"]
    by (simp add: f add.commute)
qed (simp add: fragments_size_def)

section \<open>Association lists\<close>

lemma sum_list_delete:
  fixes g :: "'v \<Rightarrow> nat"
  assumes "distinct (map fst xs)" and "map_of xs k = Some v"
  shows "sum_list (map (g \<circ> snd) xs) = g v + sum_list (map (g \<circ> snd) (AList.delete k xs))"
  using assms
proof (induction xs)
  case (Cons x xs)
  then show ?case
    by (cases x) (auto simp: map_of_eq_None_iff image_iff AList.delete_id split: if_splits)
qed simp

lemma sum_list_update:
  fixes g :: "'v \<Rightarrow> nat"
  assumes "distinct (map fst xs)"
  shows "sum_list (map (g \<circ> snd) (AList.update k v xs)) = g v + sum_list (map (g \<circ> snd) (AList.delete k xs))"
  using assms
proof (induction xs)
  case (Cons x xs)
  then show ?case by (cases x) (auto simp: image_iff AList.delete_id)
qed simp

lemma length_alist_update:
  "length (AList.update k v xs) = (if map_of xs k = None then Suc (length xs) else length xs)"
  by (induction xs) (auto split: if_splits)

lemma set_alist_update: "set (AList.update k v xs) \<subseteq> insert (k, v) (set xs)"
  by (induction xs) auto

lemma delete_alist_update: "AList.delete k (AList.update k v xs) = AList.delete k xs"
  by (induction xs) auto

lemma length_alist_delete: "length (AList.delete k xs) \<le> length xs"
  by (simp add: AList.delete_eq)

lemma set_alist_delete: "set (AList.delete k xs) \<subseteq> set xs"
  by (auto simp: AList.delete_eq)

section \<open>The invariant\<close>

lemma fragment_fits_pos: "fragment_fits tlen offset data \<Longrightarrow> 0 < tlen"
  by (cases data) (auto simp: fragment_fits_def)

lemma parsed_fragment_parse_iff:
  "parsed_fragment_parse body = Inr f \<longleftrightarrow>
     fragment_fits (pf_total_len f) (pf_offset f) (pf_data f) \<and>
     body = fragment_body (pf_packet_id f) (pf_total_len f) (pf_offset f) (pf_data f)"
proof
  assume "parsed_fragment_parse body = Inr f"
  then have len: "10 \<le> length body" and f: "f = \<lparr>pf_packet_id = from_be (subrange 0 4 body),
      pf_total_len = unat (from_be (subrange 4 6 body) :: u16), pf_offset = unat (from_be (subrange 6 8 body) :: u16),
      pf_data = drop 10 body\<rparr>"
    and dl: "length body = 10 + unat (from_be (subrange 8 10 body) :: u16)"
    and ne: "from_be (subrange 8 10 body) \<noteq> (0 :: u16)"
    and le: "unat (from_be (subrange 6 8 body) :: u16) + unat (from_be (subrange 8 10 body) :: u16)
      \<le> unat (from_be (subrange 4 6 body) :: u16)"
    by (auto simp: parsed_fragment_parse_def Let_def usize_checked_add_Some split: if_splits option.splits)
  have u: "unat (w :: u16) \<le> 65535" for w using unsigned_less [of w, where ?'a = nat] by simp
  have l: "length (drop 10 body) = unat (from_be (subrange 8 10 body) :: u16)" using dl by simp
  have fits: "fragment_fits (pf_total_len f) (pf_offset f) (pf_data f)"
    using le ne l u by (auto simp: f fragment_fits_def unat_eq_zero)
  have "fragment_body (pf_packet_id f) (pf_total_len f) (pf_offset f) (pf_data f) =
      subrange 0 4 body @ subrange 4 6 body @ subrange 6 8 body @ subrange 8 10 body @ drop 10 body"
    using len unfolding fragment_body_def f parsed_fragment.simps l
    by (simp add: be_encode codec_simps)
  also have "\<dots> = body"
    by (simp add: subrange_0_take take_subrange flip: append_assoc)
  finally show "fragment_fits (pf_total_len f) (pf_offset f) (pf_data f) \<and>
     body = fragment_body (pf_packet_id f) (pf_total_len f) (pf_offset f) (pf_data f)" using fits by simp
next
  assume r: "fragment_fits (pf_total_len f) (pf_offset f) (pf_data f) \<and>
     body = fragment_body (pf_packet_id f) (pf_total_len f) (pf_offset f) (pf_data f)"
  have u: "unat (of_nat n :: u16) = n" if "n \<le> pf_total_len f" for n
    using that r by (subst unat_of_nat) (auto simp: fragment_fits_def)
  have "0 < length (pf_data f)" "0 < pf_total_len f"
    using r fragment_fits_pos [of "pf_total_len f"] by (auto simp: fragment_fits_def)
  then show "parsed_fragment_parse body = Inr f" using r
    by (cases f) (simp add: parsed_fragment_parse_def fragment_body_def Let_def codec_simps u
        usize_checked_add_def fragment_fits_def)
qed

lemma reassembler_memory_bound:
  assumes "reassembler_wf ra"
  shows "ra_memory ra \<le> 65534 * length (ra_assemblies ra)"
proof -
  have "asm_received (snd x) \<le> 65534" if "x \<in> set (ra_assemblies ra)" for x
    using assms that by (force simp: reassembler_wf_def assembly_wf_def)
  then have "sum_list (map (asm_received \<circ> snd) (ra_assemblies ra)) \<le> sum_list (map (\<lambda>_. 65534) (ra_assemblies ra))"
    by (intro sum_list_mono) simp
  then show ?thesis using assms by (simp add: reassembler_wf_def sum_list_triv mult.commute)
qed

lemma reassembler_remove_wf:
  assumes "reassembler_wf ra"
  shows "reassembler_wf (reassembler_remove ra i) \<and>
    map_of (ra_assemblies (reassembler_remove ra i)) = (map_of (ra_assemblies ra))(i := None)"
proof (cases "map_of (ra_assemblies ra) i")
  case None
  then show ?thesis using assms by (auto simp: reassembler_remove_def)
next
  case (Some a)
  then show ?thesis
    using assms set_alist_delete [of i "ra_assemblies ra"]
      length_alist_delete [of i "ra_assemblies ra"]
      sum_list_delete [of "ra_assemblies ra" i a asm_received]
    by (auto simp: reassembler_remove_def reassembler_wf_def AList.distinct_delete AList.delete_conv')
qed

lemma reassembler_expire_wf: "reassembler_wf ra \<Longrightarrow> reassembler_wf (reassembler_expire ra now)"
proof -
  have "reassembler_wf ra \<Longrightarrow> reassembler_wf (foldl reassembler_remove ra is)" for "is"
    by (induction "is" arbitrary: ra) (simp_all add: reassembler_remove_wf)
  then show "reassembler_wf ra \<Longrightarrow> reassembler_wf (reassembler_expire ra now)"
    by (simp add: reassembler_expire_def)
qed

text \<open>The assembly a fragment is added to, and the assembly with it added.\<close>

definition entry_assembly :: "fragment_reassembler \<Rightarrow> parsed_fragment \<Rightarrow> instant \<Rightarrow> assembly" where
  "entry_assembly ra f now =
     (case map_of (ra_assemblies ra) (pf_packet_id f) of
        Some a \<Rightarrow> a
      | None \<Rightarrow> \<lparr>asm_total_len = pf_total_len f, asm_created_at = now, asm_fragments = [], asm_received = 0\<rparr>)"

definition assembly_add :: "assembly \<Rightarrow> parsed_fragment \<Rightarrow> assembly" where
  "assembly_add a f = a\<lparr>asm_received := asm_received a + length (pf_data f),
     asm_fragments := btree_insert (pf_offset f) (pf_data f) (asm_fragments a)\<rparr>"

lemma reassembler_update_wf:
  assumes "reassembler_wf ra" and "assembly_wf a" and "a0 = map_of (ra_assemblies ra) i"
    and "a0 = None \<Longrightarrow> length (ra_assemblies ra) < max_reassemblies"
    and "m = ra_memory ra + asm_received a - (case a0 of None \<Rightarrow> 0 | Some b \<Rightarrow> asm_received b)"
  shows "reassembler_wf (ra\<lparr>ra_assemblies := AList.update i a (ra_assemblies ra), ra_memory := m\<rparr>)"
proof -
  have d: "distinct (map fst (ra_assemblies ra))" and len: "length (ra_assemblies ra) \<le> max_reassemblies"
    and mem: "ra_memory ra = sum_list (map (asm_received \<circ> snd) (ra_assemblies ra))"
    using assms(1) by (auto simp: reassembler_wf_def)
  have "m = asm_received a + sum_list (map (asm_received \<circ> snd) (AList.delete i (ra_assemblies ra)))"
  proof (cases a0)
    case None
    then have "AList.delete i (ra_assemblies ra) = ra_assemblies ra"
      using assms(3) by (intro AList.delete_id) (metis map_of_eq_None_iff)
    then show ?thesis using None mem by (simp add: assms(5))
  next
    case (Some b)
    then show ?thesis using sum_list_delete [OF d, of i b asm_received] mem assms(3) by (simp add: assms(5))
  qed
  then show ?thesis
    using assms(1-4) len set_alist_update [of i a "ra_assemblies ra"]
    by (cases a0) (auto simp: reassembler_wf_def AList.distinct_update sum_list_update length_alist_update)
qed

lemma entry_assembly_wf:
  assumes "reassembler_wf ra" and "fragment_fits (pf_total_len f) (pf_offset f) (pf_data f)"
    and "map_of (ra_assemblies ra) (pf_packet_id f) = None \<Longrightarrow> length (ra_assemblies ra) < max_reassemblies"
  shows "assembly_wf (entry_assembly ra f now)"
    and "reassembler_wf (ra\<lparr>ra_assemblies := AList.update (pf_packet_id f) (entry_assembly ra f now) (ra_assemblies ra)\<rparr>)"
proof -
  have t: "0 < pf_total_len f" using assms(2) fragment_fits_pos by blast
  show a: "assembly_wf (entry_assembly ra f now)"
    using assms t by (auto simp: entry_assembly_def reassembler_wf_def assembly_wf_def fragments_size_def
        fragment_fits_def split: option.splits dest!: map_of_SomeD)
  show "reassembler_wf (ra\<lparr>ra_assemblies := AList.update (pf_packet_id f) (entry_assembly ra f now) (ra_assemblies ra)\<rparr>)"
  proof -
    have "ra_memory ra = ra_memory ra + asm_received (entry_assembly ra f now) -
        (case map_of (ra_assemblies ra) (pf_packet_id f) of None \<Rightarrow> 0 | Some b \<Rightarrow> asm_received b)"
      by (simp add: entry_assembly_def split: option.splits)
    from reassembler_update_wf [OF assms(1) a refl assms(3) this] show ?thesis by (cases ra) simp
  qed
qed

lemma assembly_add_wf:
  assumes "assembly_wf a" and "fragment_fits (asm_total_len a) (pf_offset f) (pf_data f)"
    and "map_of (asm_fragments a) (pf_offset f) = None"
    and "\<not> fragment_overlaps (pf_offset f) (pf_offset f + length (pf_data f)) (asm_fragments a)"
  shows "fragments_ok 0 (asm_total_len a) (asm_fragments (assembly_add a f))"
    and "asm_received (assembly_add a f) = fragments_size (asm_fragments (assembly_add a f))"
    and "asm_received (assembly_add a f) \<le> asm_total_len a"
    and "asm_received (assembly_add a f) \<noteq> asm_total_len a \<Longrightarrow> assembly_wf (assembly_add a f)"
proof -
  show ok: "fragments_ok 0 (asm_total_len a) (asm_fragments (assembly_add a f))"
    using assms by (auto simp: assembly_wf_def assembly_add_def fragment_fits_def intro!: fragments_ok_insert)
  show rec: "asm_received (assembly_add a f) = fragments_size (asm_fragments (assembly_add a f))"
    using assms by (simp add: assembly_wf_def assembly_add_def fragments_size_insert)
  show le: "asm_received (assembly_add a f) \<le> asm_total_len a" using fragments_ok_le [OF ok] rec by simp
  show "asm_received (assembly_add a f) \<noteq> asm_total_len a \<Longrightarrow> assembly_wf (assembly_add a f)"
    using ok rec le assms(1) by (simp add: assembly_wf_def assembly_add_def)
qed

text \<open>What \<open>push\<close> does with a fragment that fits: the checks that remain, and that the last fragment
  always completes the packet.\<close>

lemma reassembler_push_accept:
  assumes "reassembler_wf ra0" and "ra = reassembler_expire ra0 now" and "parsed_fragment_parse body = Inr f"
    and "map_of (ra_assemblies ra) (pf_packet_id f) = None \<Longrightarrow> length (ra_assemblies ra) < max_reassemblies"
    and "a = entry_assembly ra f now" and "asm_total_len a = pf_total_len f"
    and "map_of (asm_fragments a) (pf_offset f) = None"
    and "\<not> fragment_overlaps (pf_offset f) (pf_offset f + length (pf_data f)) (asm_fragments a)"
    and "ra1 = ra\<lparr>ra_assemblies := AList.update (pf_packet_id f) a (ra_assemblies ra)\<rparr>"
    and "a' = assembly_add a f"
  shows "reassembler_push ra0 body now =
    (if asm_received a' \<noteq> asm_total_len a'
     then (Inr None, ra\<lparr>ra_assemblies := AList.update (pf_packet_id f) a' (ra_assemblies ra),
                        ra_memory := ra_memory ra + length (pf_data f)\<rparr>)
     else (Inr (Some (concat (map snd (asm_fragments a')))), reassembler_remove ra1 (pf_packet_id f)))"
proof -
  have ra: "reassembler_wf ra" using reassembler_expire_wf assms(1,2) by blast
  have fits: "fragment_fits (pf_total_len f) (pf_offset f) (pf_data f)"
    using assms(3) by (simp add: parsed_fragment_parse_iff)
  have wf: "assembly_wf a" "reassembler_wf ra1"
    using entry_assembly_wf [OF ra fits assms(4)] by (simp_all add: assms(5,9))
  note add = assembly_add_wf [OF wf(1) fits [folded assms(6)] assms(7,8), folded assms(10)]
  have mem: "ra_memory ra + length (pf_data f) \<le> max_reassembly_memory"
  proof -
    have "length (ra_assemblies ra) \<le> 64" using ra by (simp add: reassembler_wf_def max_reassemblies_def)
    then have "ra_memory ra \<le> 65534 * 64" using reassembler_memory_bound [OF ra] by linarith
    moreover have "length (pf_data f) \<le> 65535" using fits by (auto simp: fragment_fits_def)
    ultimately show ?thesis by (simp add: max_reassembly_memory_def)
  qed
  have tot: "asm_total_len a' = asm_total_len a" by (simp add: assms(10) assembly_add_def)
  have col: "asm_received a' = asm_total_len a' \<Longrightarrow>
      collect_fragments 0 [] (asm_fragments a') = Some (asm_total_len a', concat (map snd (asm_fragments a')))"
    using collect_complete [OF add(1), of "[]"] add(2) tot by simp
  have upd: "AList.update i x (AList.update i y xs) = AList.update i x xs" for i x y and xs :: "(u32 \<times> assembly) list"
    by (induction xs) auto
  have rem: "reassembler_remove (ra1\<lparr>ra_assemblies := AList.update (pf_packet_id f) a' (ra_assemblies ra1),
      ra_memory := ra_memory ra1 + length (pf_data f)\<rparr>) (pf_packet_id f) = reassembler_remove ra1 (pf_packet_id f)"
    by (simp add: reassembler_remove_def assms(9,10) assembly_add_def AList.update_conv' delete_alist_update)
  have nolim: "\<not> (map_of (ra_assemblies ra) (pf_packet_id f) = None \<and> max_reassemblies \<le> length (ra_assemblies ra))"
    using assms(4) by auto
  show ?thesis
    unfolding reassembler_push_def Let_def assms(3) sum.case
    unfolding assms(2) [symmetric] if_not_P [OF nolim] entry_assembly_def [symmetric] assms(5) [symmetric]
      assms(9) [symmetric] assembly_add_def [symmetric] assms(10) [symmetric]
    using mem assms(6-8) col rem tot by (simp add: assms(9) upd)
qed

lemma reassembler_push_wf:
  assumes "reassembler_wf ra0" and "reassembler_push ra0 body now = (res, ra')"
  shows "reassembler_wf ra' \<and> res \<noteq> Inl (Bail ''fragment memory limit reached'')"
proof (cases "parsed_fragment_parse body")
  case (Inl e)
  have "e \<noteq> Bail ''fragment memory limit reached''"
    using Inl by (auto simp: parsed_fragment_parse_def Let_def split: if_splits option.splits)
  then show ?thesis using Inl assms reassembler_expire_wf [OF assms(1)]
    by (auto simp: reassembler_push_def)
next
  case (Inr f)
  define ra where "ra = reassembler_expire ra0 now"
  define a where "a = entry_assembly ra f now"
  define ra1 where "ra1 = ra\<lparr>ra_assemblies := AList.update (pf_packet_id f) a (ra_assemblies ra)\<rparr>"
  define a' where "a' = assembly_add a f"
  have ra: "reassembler_wf ra" using reassembler_expire_wf assms(1) by (simp add: ra_def)
  have fits: "fragment_fits (pf_total_len f) (pf_offset f) (pf_data f)"
    using Inr by (simp add: parsed_fragment_parse_iff)
  consider (limit) "map_of (ra_assemblies ra) (pf_packet_id f) = None \<and> max_reassemblies \<le> length (ra_assemblies ra)"
    | (room) "map_of (ra_assemblies ra) (pf_packet_id f) = None \<Longrightarrow> length (ra_assemblies ra) < max_reassemblies"
    using not_le by blast
  then show ?thesis
  proof cases
    case limit
    then show ?thesis using assms(2) Inr ra by (auto simp: reassembler_push_def Let_def simp flip: ra_def)
  next
    case room
    have wf: "assembly_wf a" "reassembler_wf ra1"
      using entry_assembly_wf [OF ra fits room] by (simp_all add: a_def ra1_def)
    have gone: "reassembler_wf (reassembler_remove ra1 (pf_packet_id f))"
      using reassembler_remove_wf [OF wf(2)] by blast
    have nolim: "\<not> (map_of (ra_assemblies ra) (pf_packet_id f) = None \<and> max_reassemblies \<le> length (ra_assemblies ra))"
      using room by auto
    show ?thesis
    proof (cases "asm_total_len a = pf_total_len f \<and> map_of (asm_fragments a) (pf_offset f) = None \<and>
        \<not> fragment_overlaps (pf_offset f) (pf_offset f + length (pf_data f)) (asm_fragments a)")
      case True
      note add = assembly_add_wf [OF wf(1), of f]
      have mem: "ra_memory ra + length (pf_data f) =
          ra_memory ra + asm_received a' - (case map_of (ra_assemblies ra) (pf_packet_id f) of None \<Rightarrow> 0
            | Some b \<Rightarrow> asm_received b)"
        by (auto simp: a'_def assembly_add_def a_def entry_assembly_def split: option.splits)
      have "asm_received a' \<noteq> asm_total_len a \<Longrightarrow>
          reassembler_wf (ra\<lparr>ra_assemblies := AList.update (pf_packet_id f) a' (ra_assemblies ra),
                        ra_memory := ra_memory ra + length (pf_data f)\<rparr>)"
        using reassembler_update_wf [OF ra _ refl room mem] add True fits by (simp add: a'_def)
      then show ?thesis
        using assms(2) gone reassembler_push_accept [OF assms(1) ra_def Inr room a_def _ _ _ ra1_def a'_def] True
        by (auto simp: a'_def assembly_add_def split: if_splits)
    next
      case False
      then show ?thesis
        using assms(2) gone wf(2) unfolding reassembler_push_def Let_def Inr sum.case
        unfolding ra_def [symmetric] if_not_P [OF nolim] entry_assembly_def [symmetric] a_def [symmetric]
          ra1_def [symmetric]
        by (auto split: if_splits option.splits)
    qed
  qed
qed

interpretation reassembly: event_machine
  "\<lambda>ra (body, now). snd (reassembler_push ra body now)" reassembler_wf
proof
  fix ra and e :: "bytes \<times> instant"
  assume "reassembler_wf ra"
  then show "reassembler_wf (case e of (body, now) \<Rightarrow> snd (reassembler_push ra body now))"
    using reassembler_push_wf [of ra "fst e" "snd e"] by (auto simp: split_beta prod_eq_iff)
qed

lemma reassembler_new_wf: "reassembler_wf reassembler_new"
  by (simp add: reassembler_new_def reassembler_wf_def)

section \<open>Reassembly in any order\<close>

definition fragments_apart :: "nat \<times> bytes \<Rightarrow> nat \<times> bytes \<Rightarrow> bool" where
  "fragments_apart f g \<longleftrightarrow> fst f + length (snd f) \<le> fst g \<or> fst g + length (snd g) \<le> fst f"

text \<open>Fragments that tile a packet: slices of it, pairwise disjoint, together as long as it is.\<close>

definition tiles :: "bytes \<Rightarrow> (nat \<times> bytes) list \<Rightarrow> bool" where
  "tiles packet frags \<longleftrightarrow> fragments_of packet frags \<and>
     (\<forall>(offset, data)\<in>set frags. fragment_fits (length packet) offset data) \<and>
     sorted_wrt fragments_apart frags \<and> fragments_size frags = length packet"

fun push_run :: "fragment_reassembler \<Rightarrow> (bytes \<times> instant) list \<Rightarrow> bytes option result list \<times> fragment_reassembler" where
  "push_run ra [] = ([], ra)"
| "push_run ra ((body, now) # es) =
     (let (res, ra') = reassembler_push ra body now; (out, t) = push_run ra' es in (res # out, t))"

lemma mset_btree_insert: "map_of fs k = None \<Longrightarrow> mset (btree_insert k v fs) = add_mset (k, v) (mset fs)"
  by (induction fs) (auto split: if_splits)

lemma fragments_size_mset: "mset fs = mset gs \<Longrightarrow> fragments_size fs = fragments_size gs"
  unfolding fragments_size_def by (metis mset_map sum_mset_sum_list)

lemma foldl_remove_map_of:
  assumes "reassembler_wf ra" and "i \<notin> set is"
  shows "map_of (ra_assemblies (foldl reassembler_remove ra is)) i = map_of (ra_assemblies ra) i"
  using assms by (induction "is" arbitrary: ra) (simp_all add: reassembler_remove_wf)

lemma reassembler_expire_keeps:
  assumes "reassembler_wf ra" and "map_of (ra_assemblies ra) i = Some a" and "\<not> assembly_expired now a"
  shows "map_of (ra_assemblies (reassembler_expire ra now)) i = Some a"
proof -
  have "i \<notin> fst ` {x \<in> set (ra_assemblies ra). assembly_expired now (snd x)}"
    using assms by (auto simp: reassembler_wf_def dest: eq_key_imp_eq_value)
  then have "i \<notin> set (map fst (filter (\<lambda>(packet_id, asm). assembly_expired now asm) (ra_assemblies ra)))"
    by (auto simp: split_beta)
  then show ?thesis using foldl_remove_map_of [OF assms(1)] assms(2)
    unfolding reassembler_expire_def by metis
qed

lemma reassembler_expire_absent:
  assumes "reassembler_wf ra" and "map_of (ra_assemblies ra) i = None"
  shows "map_of (ra_assemblies (reassembler_expire ra now)) i = None \<and>
    length (ra_assemblies (reassembler_expire ra now)) \<le> length (ra_assemblies ra)"
proof -
  have "reassembler_wf ra \<Longrightarrow> map_of (ra_assemblies ra) i = None \<Longrightarrow>
      map_of (ra_assemblies (foldl reassembler_remove ra is)) i = None \<and>
      length (ra_assemblies (foldl reassembler_remove ra is)) \<le> length (ra_assemblies ra)" for ra "is"
  proof (induction "is" arbitrary: ra)
    case (Cons j js)
    have "length (ra_assemblies (reassembler_remove ra j)) \<le> length (ra_assemblies ra)"
      using length_alist_delete by (auto simp: reassembler_remove_def split: option.splits)
    moreover have "reassembler_wf (reassembler_remove ra j)"
      "map_of (ra_assemblies (reassembler_remove ra j)) i = None"
      using Cons.prems reassembler_remove_wf [OF Cons.prems(1), of j] by simp_all
    ultimately show ?case using Cons.IH [of "reassembler_remove ra j"] by auto
  qed simp
  then show ?thesis using assms by (simp add: reassembler_expire_def)
qed

text \<open>A fragment apart from all the others is neither a duplicate nor an overlap.\<close>

lemma fragment_new:
  assumes "\<And>g. g \<in> set fs \<Longrightarrow> fragments_apart g (offset, data) \<and> snd g \<noteq> []" and "data \<noteq> []"
  shows "map_of fs offset = None" and "\<not> fragment_overlaps offset (offset + length data) fs"
proof -
  have pos: "0 < length data" "\<And>g. g \<in> set fs \<Longrightarrow> 0 < length (snd g)" using assms by auto
  have "fst g \<noteq> offset" if "g \<in> set fs" for g
    using assms(1) [OF that] pos(1) pos(2) [OF that] by (auto simp: fragments_apart_def)
  then show "map_of fs offset = None" by (auto simp: map_of_eq_None_iff)
  show "\<not> fragment_overlaps offset (offset + length data) fs"
    using assms(1) by (fastforce simp: fragment_overlaps_def list_ex_iff fragments_apart_def)
qed

text \<open>One fragment of a packet, on an assembly that holds the fragments \<open>got\<close> of it.\<close>

definition holds_fragments :: "fragment_reassembler \<Rightarrow> u32 \<Rightarrow> nat \<Rightarrow> instant \<Rightarrow> (nat \<times> bytes) list \<Rightarrow> bool" where
  "holds_fragments ra i tlen t0 got \<longleftrightarrow> reassembler_wf ra \<and>
     (case map_of (ra_assemblies ra) i of
        None \<Rightarrow> got = [] \<and> length (ra_assemblies ra) < max_reassemblies
      | Some a \<Rightarrow> asm_total_len a = tlen \<and> asm_created_at a = t0 \<and> mset (asm_fragments a) = mset got)"

lemma holds_fragments_expire:
  assumes "holds_fragments ra i tlen t0 got" and "now < t0 + int reassembly_timeout"
  shows "holds_fragments (reassembler_expire ra now) i tlen t0 got"
proof (cases "map_of (ra_assemblies ra) i")
  case None
  then show ?thesis using assms(1) reassembler_expire_absent [of ra i now] reassembler_expire_wf [of ra now]
    by (auto simp: holds_fragments_def)
next
  case (Some a)
  have "\<not> assembly_expired now a"
    using assms Some by (auto simp: assembly_expired_def holds_fragments_def reassembly_timeout_def)
  then show ?thesis using assms(1) Some reassembler_expire_keeps [of ra i a now] reassembler_expire_wf [of ra now]
    by (simp add: holds_fragments_def)
qed

lemma tiles_snoc:
  assumes "tiles packet (got @ (offset, data) # rest)"
  shows "fragment_fits (length packet) offset data" and "data \<noteq> []"
    and "g \<in> set got \<Longrightarrow> fragments_apart g (offset, data) \<and> snd g \<noteq> []"
    and "fragments_size got + length data + fragments_size rest = length packet"
    and "fragments_of packet (got @ [(offset, data)])"
    and "rest \<noteq> [] \<Longrightarrow> fragments_size rest \<noteq> 0"
proof -
  show fits: "fragment_fits (length packet) offset data" using assms by (auto simp: tiles_def)
  then show "data \<noteq> []" by (simp add: fragment_fits_def)
  show "g \<in> set got \<Longrightarrow> fragments_apart g (offset, data) \<and> snd g \<noteq> []"
    using assms by (cases g) (auto simp: tiles_def sorted_wrt_append fragment_fits_def)
  show "fragments_size got + length data + fragments_size rest = length packet"
    using assms by (simp add: tiles_def fragments_size_def)
  show "fragments_of packet (got @ [(offset, data)])"
    using assms by (auto simp: tiles_def fragments_of_def)
  show "rest \<noteq> [] \<Longrightarrow> fragments_size rest \<noteq> 0"
    using assms by (cases rest) (auto simp: tiles_def fragments_size_def fragment_fits_def)
qed

lemma holds_fragments_push:
  assumes "holds_fragments ra i (length packet) t0 got" and "tiles packet (got @ (offset, data) # rest)"
    and "now < t0 + int reassembly_timeout" and "got = [] \<Longrightarrow> now = t0"
    and "map_of (ra_assemblies ra) i = None \<or> got \<noteq> []"
  shows "if rest = []
    then fst (reassembler_push ra (fragment_body i (length packet) offset data) now) = Inr (Some packet)
    else fst (reassembler_push ra (fragment_body i (length packet) offset data) now) = Inr None \<and>
      holds_fragments (snd (reassembler_push ra (fragment_body i (length packet) offset data) now))
        i (length packet) t0 (got @ [(offset, data)])"
proof -
  define body where "body = fragment_body i (length packet) offset data"
  define f where "f = \<lparr>pf_packet_id = i, pf_total_len = length packet, pf_offset = offset, pf_data = data\<rparr>"
  define ra' where "ra' = reassembler_expire ra now"
  define a where "a = entry_assembly ra' f now"
  define a' where "a' = assembly_add a f"
  note t = tiles_snoc [OF assms(2)]
  have h: "holds_fragments ra' i (length packet) t0 got"
    using holds_fragments_expire [OF assms(1,3)] by (simp add: ra'_def)
  have parse: "parsed_fragment_parse body = Inr f"
    using t(1) by (simp add: parsed_fragment_parse_iff f_def body_def)
  have wf: "reassembler_wf ra" "reassembler_wf ra'" using assms(1) h by (auto simp: holds_fragments_def)
  have room: "map_of (ra_assemblies ra') (pf_packet_id f) = None \<Longrightarrow> length (ra_assemblies ra') < max_reassemblies"
    using h by (simp add: holds_fragments_def f_def)
  have fits: "fragment_fits (pf_total_len f) (pf_offset f) (pf_data f)" using t(1) by (simp add: f_def)
  have a: "asm_total_len a = length packet" "asm_created_at a = t0" "mset (asm_fragments a) = mset got"
    and awf: "assembly_wf a"
    using h assms(4) entry_assembly_wf(1) [OF wf(2) fits room, of now]
    by (auto simp: a_def entry_assembly_def holds_fragments_def f_def split: option.splits)
  have new: "map_of (asm_fragments a) (pf_offset f) = None"
    "\<not> fragment_overlaps (pf_offset f) (pf_offset f + length (pf_data f)) (asm_fragments a)"
    using fragment_new [of "asm_fragments a" offset data] t(2,3) mset_eq_setD [OF a(3)]
    by (simp_all add: f_def)
  note push = reassembler_push_accept [OF wf(1) ra'_def parse room a_def _ new refl a'_def]
  note add = assembly_add_wf [OF awf _ new, folded a'_def]
  have m: "mset (asm_fragments a') = mset (got @ [(offset, data)])"
    using mset_btree_insert [OF new(1)] a(3) by (simp add: a'_def assembly_add_def f_def)
  have size: "asm_received a' = fragments_size got + length data"
    using add(2) fits fragments_size_mset [OF m] a(1) by (simp add: f_def fragments_size_def)
  have tot: "asm_total_len a' = length packet" "asm_created_at a' = t0"
    using a by (simp_all add: a'_def assembly_add_def)
  show ?thesis
  proof (cases "rest = []")
    case True
    then have full: "asm_received a' = asm_total_len a'" using t(4) size tot by (simp add: fragments_size_def)
    have "fragments_of packet (asm_fragments a')"
      using t(5) mset_eq_setD [OF m] by (simp add: fragments_of_def)
    then have "concat (map snd (asm_fragments a')) = packet"
      using collect_packet [of 0 packet "asm_fragments a'"] add(1,2) fits a(1) full tot by (simp add: f_def)
    then show ?thesis using True push full a(1) by (simp add: f_def body_def)
  next
    case False
    then have "asm_received a' \<noteq> asm_total_len a'" using t(4,6) size tot by simp
    moreover from this have "reassembler_push ra body now =
        (Inr None, ra'\<lparr>ra_assemblies := AList.update i a' (ra_assemblies ra'), ra_memory := ra_memory ra' + length data\<rparr>)"
      using push a(1) by (simp add: f_def)
    moreover from this have "reassembler_wf (ra'\<lparr>ra_assemblies := AList.update i a' (ra_assemblies ra'),
        ra_memory := ra_memory ra' + length data\<rparr>)"
      using reassembler_push_wf [OF wf(1)] by blast
    ultimately show ?thesis using False tot m
      by (simp add: holds_fragments_def AList.update_conv' flip: body_def)
  qed
qed

lemma holds_fragments_run:
  assumes "holds_fragments ra i (length packet) t0 got" and "tiles packet (got @ frags)" and "frags \<noteq> []"
    and "map fst es = map (\<lambda>(offset, data). fragment_body i (length packet) offset data) frags"
    and "\<forall>now\<in>snd ` set es. now < t0 + int reassembly_timeout" and "got = [] \<Longrightarrow> snd (hd es) = t0"
    and "map_of (ra_assemblies ra) i = None \<or> got \<noteq> []"
  shows "fst (push_run ra es) = replicate (length frags - 1) (Inr None) @ [Inr (Some packet)]"
  using assms
proof (induction frags arbitrary: ra got es)
  case (Cons f rest)
  obtain offset data where f: "f = (offset, data)" by fastforce
  obtain now es' where es: "es = (fragment_body i (length packet) offset data, now) # es'"
    "map fst es' = map (\<lambda>(offset, data). fragment_body i (length packet) offset data) rest"
    using Cons.prems(4) by (cases es) (auto simp: f)
  have now: "now < t0 + int reassembly_timeout" "got = [] \<Longrightarrow> now = t0"
    using Cons.prems(5,6) by (auto simp: es)
  note push = holds_fragments_push [OF Cons.prems(1) _ now Cons.prems(7), of offset data rest, OF Cons.prems(2) [unfolded f]]
  obtain res ra' where p: "reassembler_push ra (fragment_body i (length packet) offset data) now = (res, ra')" by fastforce
  show ?case
  proof (cases "rest = []")
    case True
    then show ?thesis using push p es by simp
  next
    case False
    then have "fst (push_run ra' es') = replicate (length rest - 1) (Inr None) @ [Inr (Some packet)]"
      using Cons.IH [of ra' "got @ [(offset, data)]" es'] push p es Cons.prems by (simp add: f)
    then show ?thesis using False push p es by (cases rest) (simp_all add: split_beta)
  qed
qed simp

lemma reassembly_any_order_frags:
  assumes "reassembler_wf ra" and "map_of (ra_assemblies ra) i = None"
    and "length (ra_assemblies ra) < max_reassemblies" and "tiles packet frags" and "frags \<noteq> []"
    and "map fst es = map (\<lambda>(offset, data). fragment_body i (length packet) offset data) frags"
    and "\<forall>now\<in>snd ` set es. now < snd (hd es) + int reassembly_timeout"
  shows "fst (push_run ra es) = replicate (length frags - 1) (Inr None) @ [Inr (Some packet)]"
  using holds_fragments_run [of ra i packet "snd (hd es)" "[]" frags es] assms
  by (simp add: holds_fragments_def)

section \<open>Timeout\<close>

lemma foldl_remove_gone:
  assumes "reassembler_wf ra" and "i \<in> set is"
  shows "map_of (ra_assemblies (foldl reassembler_remove ra is)) i = None"
  using assms
proof (induction "is" arbitrary: ra rule: rev_induct)
  case (snoc j js)
  have "reassembler_wf (foldl reassembler_remove ra js)"
    using snoc.prems(1) by (induction js arbitrary: ra) (simp_all add: reassembler_remove_wf)
  then show ?case using snoc reassembler_remove_wf [of "foldl reassembler_remove ra js" j] by auto
qed simp

lemma reassembler_expire_fresh:
  assumes "reassembler_wf ra" and "map_of (ra_assemblies (reassembler_expire ra now)) i = Some a"
  shows "\<not> assembly_expired now a"
proof
  let ?is = "map fst (filter (\<lambda>(packet_id, asm). assembly_expired now asm) (ra_assemblies ra))"
  assume old: "assembly_expired now a"
  have "i \<notin> set ?is" using foldl_remove_gone [OF assms(1), of i ?is] assms(2)
    by (auto simp: reassembler_expire_def)
  then have "map_of (ra_assemblies ra) i = Some a"
    using foldl_remove_map_of [OF assms(1), of i ?is] assms(2) by (simp add: reassembler_expire_def)
  then have "(i, a) \<in> set (filter (\<lambda>(packet_id, asm). assembly_expired now asm) (ra_assemblies ra))"
    using old by (auto dest: map_of_SomeD)
  then show False using \<open>i \<notin> set ?is\<close> by (metis fst_conv image_eqI list.set_map)
qed

text \<open>The states \<open>push\<close> can leave behind.\<close>

lemma reassembler_push_states:
  assumes "parsed_fragment_parse body = Inr f" and "ra = reassembler_expire ra0 now"
    and "b = entry_assembly ra f now"
    and "ra1 = ra\<lparr>ra_assemblies := AList.update (pf_packet_id f) b (ra_assemblies ra)\<rparr>"
    and "ra2 = ra1\<lparr>ra_assemblies := AList.update (pf_packet_id f) (assembly_add b f) (ra_assemblies ra1),
      ra_memory := ra_memory ra1 + length (pf_data f)\<rparr>"
  shows "snd (reassembler_push ra0 body now) \<in>
      {ra, ra1, reassembler_remove ra1 (pf_packet_id f), ra2, reassembler_remove ra2 (pf_packet_id f)} \<and>
    (fst (reassembler_push ra0 body now) = Inr (Some packet) \<longrightarrow>
      snd (reassembler_push ra0 body now) = reassembler_remove ra2 (pf_packet_id f))"
proof -
  define Q where "Q = (\<lambda>(res :: bytes option result, st). st \<in> {ra, ra1, reassembler_remove ra1 (pf_packet_id f), ra2,
    reassembler_remove ra2 (pf_packet_id f)} \<and>
    (res = Inr (Some packet) \<longrightarrow> st = reassembler_remove ra2 (pf_packet_id f)))"
  have if_Q: "Q x \<Longrightarrow> Q y \<Longrightarrow> Q (if P then x else y)" for P x y by simp
  have option_Q: "Q x \<Longrightarrow> (\<And>v. Q (g v)) \<Longrightarrow> Q (case_option x g v)" for x v and g :: "bytes \<Rightarrow> _"
    by (cases v) simp_all
  have pair_Q: "Q x \<Longrightarrow> (\<And>u v. Q (g u v)) \<Longrightarrow> Q (case_option x (\<lambda>(u, v). g u v) v)" for x v
    and g :: "nat \<Rightarrow> bytes \<Rightarrow> _"
    by (cases v) auto
  have "Q (reassembler_push ra0 body now)"
    unfolding reassembler_push_def Let_def assms(1) sum.case
    unfolding assms(2) [symmetric] entry_assembly_def [symmetric] assms(3) [symmetric] assms(4) [symmetric]
      assembly_add_def [symmetric] assms(5) [symmetric]
    by (intro if_Q option_Q pair_Q) (simp_all add: Q_def)
  then show ?thesis by (simp add: Q_def split_beta)
qed

lemma reassembler_remove_map_of:
  "map_of (ra_assemblies (reassembler_remove r k)) = (map_of (ra_assemblies r))(k := None)"
  by (auto simp: reassembler_remove_def AList.delete_conv' split: option.splits)

lemma reassembler_push_dom:
  assumes "parsed_fragment_parse body = Inr f" and "reassembler_wf ra"
  shows "dom (map_of (ra_assemblies (snd (reassembler_push ra body now)))) \<subseteq>
      insert (pf_packet_id f) (dom (map_of (ra_assemblies ra)))"
    and "fst (reassembler_push ra body now) = Inr (Some packet) \<Longrightarrow>
      map_of (ra_assemblies (snd (reassembler_push ra body now))) (pf_packet_id f) = None"
proof -
  note st = reassembler_push_states [OF assms(1) refl refl refl refl, of ra now]
  have "map_of (ra_assemblies (reassembler_expire ra now)) k = Some v \<Longrightarrow>
      \<exists>w. map_of (ra_assemblies ra) k = Some w" for k v
    using reassembler_expire_absent [OF assms(2), of k now] by (cases "map_of (ra_assemblies ra) k") auto
  then show "dom (map_of (ra_assemblies (snd (reassembler_push ra body now)))) \<subseteq>
      insert (pf_packet_id f) (dom (map_of (ra_assemblies ra)))"
    using conjunct1 [OF st] by (auto simp: reassembler_remove_map_of AList.update_conv')
  show "fst (reassembler_push ra body now) = Inr (Some packet) \<Longrightarrow>
      map_of (ra_assemblies (snd (reassembler_push ra body now))) (pf_packet_id f) = None"
    using st [of packet] by (auto simp: reassembler_remove_map_of)
qed

lemma reassembler_push_map_of:
  assumes "map_of (ra_assemblies (snd (reassembler_push ra0 body now))) i = Some a"
  shows "(\<exists>b. map_of (ra_assemblies (reassembler_expire ra0 now)) i = Some b \<and> asm_created_at a = asm_created_at b)
    \<or> asm_created_at a = now"
proof (cases "parsed_fragment_parse body")
  case (Inl e)
  then show ?thesis using assms by (simp add: reassembler_push_def Let_def)
next
  case (Inr f)
  let ?ra = "reassembler_expire ra0 now" and ?b = "entry_assembly (reassembler_expire ra0 now) f now"
  have "asm_created_at (assembly_add ?b f) = asm_created_at ?b" by (simp add: assembly_add_def)
  moreover have "asm_created_at ?b = now \<or> map_of (ra_assemblies ?ra) (pf_packet_id f) = Some ?b"
    by (simp add: entry_assembly_def split: option.split)
  ultimately show ?thesis
    using conjunct1 [OF reassembler_push_states [OF Inr refl refl refl refl, of ra0 now]] assms
    by (auto simp: reassembler_remove_map_of AList.update_conv' split: if_splits)
qed

section \<open>Properties\<close>

text \<open>C32. Whatever fragments a peer sends, the reassembler keeps at most 64 partial packets, its
  memory counter is the number of bytes it holds, that number stays below 4 MiB, and so the 8 MiB limit
  check of \<open>push\<close> never fires.\<close>

theorem reassembly_memory_bounded:
  fixes es :: "(bytes \<times> instant) list"
  defines "ra \<equiv> foldl (\<lambda>ra (body, now). snd (reassembler_push ra body now)) reassembler_new es"
  shows "length (ra_assemblies ra) \<le> 64 \<and>
    ra_memory ra = sum_list (map (fragments_size \<circ> asm_fragments \<circ> snd) (ra_assemblies ra)) \<and>
    ra_memory ra \<le> 4194176 \<and>
    fst (reassembler_push ra body now) \<noteq> Inl (Bail ''fragment memory limit reached'')"
proof -
  have wf: "reassembler_wf ra" unfolding ra_def by (rule reassembly.run_invar [OF reassembler_new_wf])
  then have len: "length (ra_assemblies ra) \<le> 64" by (simp add: reassembler_wf_def max_reassemblies_def)
  have eq: "map (asm_received \<circ> snd) (ra_assemblies ra) = map (fragments_size \<circ> asm_fragments \<circ> snd) (ra_assemblies ra)"
    using wf by (force simp: reassembler_wf_def assembly_wf_def)
  have "ra_memory ra = sum_list (map (fragments_size \<circ> asm_fragments \<circ> snd) (ra_assemblies ra))"
    unfolding eq [symmetric] using wf by (simp add: reassembler_wf_def)
  then show ?thesis
    using len reassembler_memory_bound [OF wf] reassembler_push_wf [OF wf, of body now]
    by (auto simp: prod_eq_iff)
qed

text \<open>C31. A packet cut into disjoint fragments is put together again whatever the order in which they
  arrive, provided they arrive within three seconds of the first one and there is room for one more
  partial packet: every \<open>push\<close> but the last returns \<open>None\<close> and the last returns the packet.\<close>

theorem reassembly_any_order:
  assumes "reassembler_wf ra" and "map_of (ra_assemblies ra) i = None"
    and "length (ra_assemblies ra) < max_reassemblies" and "tiles packet frags" and "frags \<noteq> []"
    and "map fst es = map (\<lambda>(offset, data). fragment_body i (length packet) offset data) frags"
    and "\<forall>now\<in>snd ` set es. now < snd (hd es) + int reassembly_timeout"
  shows "fst (push_run ra es) = replicate (length frags - 1) (Inr None) @ [Inr (Some packet)]"
  by (rule reassembly_any_order_frags [OF assms])

theorem reassembly_any_order_witness:
  "fst (push_run reassembler_new
     [(fragment_body 1 6 3 [4, 5, 6], 0), (fragment_body 1 6 0 [1, 2], 7), (fragment_body 1 6 2 [3], 9)]) =
   [Inr None, Inr None, Inr (Some [1, 2, 3, 4, 5, 6])]"
proof -
  have "tiles [1, 2, 3, 4, 5, 6] [(3, [4, 5, 6]), (0, [1, 2]), (2, [3])]"
    by (simp add: tiles_def fragments_of_def subrange_def fragment_fits_def fragments_apart_def fragments_size_def)
  moreover have "length [1, 2, 3, 4, 5, 6 :: byte] = 6" by simp
  ultimately show ?thesis
    using reassembly_any_order [of reassembler_new 1 "[1, 2, 3, 4, 5, 6]" "[(3, [4, 5, 6]), (0, [1, 2]), (2, [3])]"
      "[(fragment_body 1 6 3 [4, 5, 6], 0), (fragment_body 1 6 0 [1, 2], 7), (fragment_body 1 6 2 [3], 9)]"]
    by (simp add: reassembler_new_wf del: push_run.simps list.size)
      (simp add: reassembler_new_def max_reassemblies_def reassembly_timeout_def numeral_2_eq_2 del: push_run.simps)
qed

text \<open>After every \<open>push\<close>, no partial packet older than three seconds is left.\<close>

theorem reassembly_drops_stale:
  assumes "reassembler_wf ra" and "map_of (ra_assemblies (snd (reassembler_push ra body now))) i = Some a"
  shows "nat (now - asm_created_at a) < reassembly_timeout"
proof -
  have "\<not> assembly_expired now a"
    using reassembler_push_map_of [OF assms(2)] reassembler_expire_fresh [OF assms(1)]
    by (auto simp: assembly_expired_def reassembly_timeout_def)
  then show ?thesis by (simp add: assembly_expired_def)
qed

theorem reassembly_drops_stale_witness:
  "\<exists>a. map_of (ra_assemblies (snd (reassembler_push reassembler_new (fragment_body 1 6 3 [4]) 5))) 1 = Some a \<and>
     nat (5 - asm_created_at a) < reassembly_timeout"
proof -
  let ?f = "\<lparr>pf_packet_id = 1, pf_total_len = 6, pf_offset = 3, pf_data = [4]\<rparr>"
  have "parsed_fragment_parse (fragment_body 1 6 3 [4]) = Inr ?f"
    by (simp add: parsed_fragment_parse_iff fragment_fits_def)
  then have m: "map_of (ra_assemblies (snd (reassembler_push reassembler_new (fragment_body 1 6 3 [4]) 5))) 1 =
      Some \<lparr>asm_total_len = 6, asm_created_at = 5, asm_fragments = [(3, [4])], asm_received = 1\<rparr>"
    by (simp add: reassembler_push_def reassembler_new_def reassembler_expire_def max_reassemblies_def
        max_reassembly_memory_def fragment_overlaps_def)
  show ?thesis using reassembly_drops_stale [OF reassembler_new_wf m] m by blast
qed

end
