(* ===== verification/Reka_Handshake.thy ===== *)
theory Reka_Handshake
  imports Reka_Config Reka_Carrier Reka_Rekey Reka_Fragment
begin

text \<open>
  The inner handshake of \<open>main.rs\<close>: the cursor that reads its messages, the client hello, the encrypted
  messages, the client's proof, and \<open>inner_handshake\<close> itself, which ends in an established session.
  Randomness and the clock are arguments, collected in \<open>handshake_inputs\<close>. The \<open>i64\<close> arithmetic of the
  clock checks is the wrapping one of the release profile, which sets no overflow checks.
\<close>

unbundle bit_operations_syntax

section \<open>Model\<close>

definition max_clear_handshake :: nat where "max_clear_handshake = 1536"
definition max_encrypted_handshake :: nat where "max_encrypted_handshake = 4096 + 16"

text \<open>\<open>(now as i64 - then as i64).abs() <= window\<close>.\<close>

definition i64_wrapping_abs :: "u64 \<Rightarrow> u64" where
  "i64_wrapping_abs d = (if sint d < 0 then - d else d)"

definition clock_within :: "u64 \<Rightarrow> u64 \<Rightarrow> nat \<Rightarrow> bool" where
  "clock_within now t window \<longleftrightarrow> \<not> sint (i64_wrapping_abs (now - t)) > int window"

record cursor =
  cu_bytes :: bytes
  cu_pos :: nat

definition cursor_new :: "bytes \<Rightarrow> cursor" where
  "cursor_new bs = \<lparr>cu_bytes = bs, cu_pos = 0\<rparr>"

definition cursor_take :: "nat \<Rightarrow> cursor \<Rightarrow> (bytes \<times> cursor) result" where
  "cursor_take len c =
     and_then (ok_or (usize_checked_add (cu_pos c) len) (Bail ''overflow'')) (\<lambda>stop.
       if stop \<le> length (cu_bytes c) then Inr (subrange (cu_pos c) stop (cu_bytes c), c\<lparr>cu_pos := stop\<rparr>)
       else Inl (Bail ''truncated input''))"

definition cursor_u16 :: "cursor \<Rightarrow> (u16 \<times> cursor) result" where
  "cursor_u16 c = and_then (cursor_take 2 c) (\<lambda>(bs, c'). Inr (from_be bs, c'))"

definition cursor_u32 :: "cursor \<Rightarrow> (u32 \<times> cursor) result" where
  "cursor_u32 c = and_then (cursor_take 4 c) (\<lambda>(bs, c'). Inr (from_be bs, c'))"

definition cursor_u64 :: "cursor \<Rightarrow> (u64 \<times> cursor) result" where
  "cursor_u64 c = and_then (cursor_take 8 c) (\<lambda>(bs, c'). Inr (from_be bs, c'))"

definition cursor_skip :: "nat \<Rightarrow> cursor \<Rightarrow> cursor result" where
  "cursor_skip len c = and_then (cursor_take len c) (\<lambda>(_, c'). Inr c')"

definition cursor_finish :: "cursor \<Rightarrow> unit result" where
  "cursor_finish c = (if cu_pos c \<noteq> length (cu_bytes c) then Inl (Bail ''trailing bytes'') else Inr ())"

record client_hello =
  ch_handshake_id :: bytes
  ch_client_id :: bytes
  ch_client_ephemeral :: bytes
  ch_client_nonce :: bytes

definition parse_client_hello :: "u64 result \<Rightarrow> bytes \<Rightarrow> client_hello result" where
  "parse_client_hello now_secs encoded =
     (if length encoded < 5 \<or> encoded ! 0 \<noteq> 0x01 then Inl (Bail ''expected CLIENT_HELLO'')
      else if unat (from_be (subrange 1 5 encoded) :: u32) \<noteq> length encoded - 5
      then Inl (Bail ''bad CLIENT_HELLO length'')
      else
      and_then (cursor_u16 (cursor_new (drop 5 encoded))) (\<lambda>(version, c).
      if version \<noteq> 1 then Inl (Bail ''unsupported version or suite'') else
      and_then (cursor_u16 c) (\<lambda>(suite, c).
      if suite \<noteq> 1 then Inl (Bail ''unsupported version or suite'') else
      and_then (cursor_take 16 c) (\<lambda>(handshake_id, c).
      and_then (cursor_take 16 c) (\<lambda>(client_id, c).
      and_then (cursor_take 32 c) (\<lambda>(client_ephemeral, c).
      and_then (cursor_take 32 c) (\<lambda>(client_nonce, c).
      and_then (cursor_u64 c) (\<lambda>(client_time, c).
      and_then now_secs (\<lambda>now.
      if \<not> clock_within now client_time 300 then Inl (Bail ''client clock outside allowed window'') else
      and_then (cursor_u16 c) (\<lambda>(retry_len, c).
      if unat retry_len > 64 then Inl (Bail ''retry cookie too large'')
      else if unat retry_len \<noteq> 0 then Inl (Bail ''inner retry is disabled'') else
      and_then (cursor_skip (unat retry_len) c) (\<lambda>c.
      and_then (cursor_u16 c) (\<lambda>(extension_len, c).
      if unat extension_len > 1024 then Inl (Bail ''extensions too large'')
      else if unat extension_len \<noteq> 0 then Inl (Bail ''resumption and experimental extensions are disabled'') else
      and_then (cursor_skip (unat extension_len) c) (\<lambda>c.
      and_then (cursor_finish c) (\<lambda>_.
        Inr \<lparr>ch_handshake_id = handshake_id, ch_client_id = client_id,
             ch_client_ephemeral = client_ephemeral, ch_client_nonce = client_nonce\<rparr>))))))))))))))"

definition verify_client_auth ::
    "crypto \<Rightarrow> bytes \<Rightarrow> client \<Rightarrow> bytes \<Rightarrow> bytes \<Rightarrow> bytes \<Rightarrow> bytes \<Rightarrow> unit result" where
  "verify_client_auth C plaintext client t2 server_signature server_public client_finished_key =
     (if length plaintext < 16 + 16 + 4 + 2 + 2 + 64 + 32 then Inl (Bail ''short CLIENT_AUTH'')
      else
      and_then (cursor_take 16 (cursor_new plaintext)) (\<lambda>(client_id, c).
      and_then (cursor_take 16 c) (\<lambda>(client_key_id, c).
      and_then (cursor_u32 c) (\<lambda>(_, c).
      and_then (cursor_u16 c) (\<lambda>(mtu, c).
      if \<not> (1200 \<le> unat mtu \<and> unat mtu \<le> 1500) then Inl (Bail ''invalid requested MTU'') else
      and_then (cursor_u16 c) (\<lambda>(extension_len, c).
      if unat extension_len > 1024 then Inl (Bail ''extensions too large'') else
      and_then (cursor_skip (unat extension_len) c) (\<lambda>c.
      let signature_offset = cu_pos c in
      and_then (cursor_take 64 c) (\<lambda>(signature_bytes, c).
      let finished_offset = cu_pos c in
      and_then (cursor_take 32 c) (\<lambda>(received_finished, c).
      and_then (cursor_finish c) (\<lambda>_.
      if client_id \<noteq> cl_id client then Inl (Bail ''client id mismatch'')
      else if client_key_id \<noteq> key_id C ''RekaSerdoba client key'' (cl_public_key client)
      then Inl (Bail ''client key id mismatch'')
      else if \<not> ed25519_verify C (cl_public_key client)
                (hash_parts C [ascii ''RekaSerdoba/1 client signature'', t2, server_signature, server_public,
                   cl_id client, client_key_id]) signature_bytes
      then Inl (Bail ''invalid client signature'')
      else if signature_offset + 64 \<noteq> finished_offset then Inl (Bail ''invalid auth layout'')
      else
      and_then (hmac_bytes C client_finished_key
                  (hash_parts C [ascii ''RekaSerdoba/1 client finished'', t2, take finished_offset plaintext])) (\<lambda>expected.
      if received_finished \<noteq> expected then Inl (Bail ''invalid client finished'') else Inr ())))))))))))"

definition assigned_parameters :: "bytes \<Rightarrow> bytes \<Rightarrow> nat \<Rightarrow> bytes" where
  "assigned_parameters session_id ipv4 session_lifetime_seconds =
     session_id @ be32 (of_nat session_lifetime_seconds) @ be16 1280 @ be16 4096 @ be32 16777216 @ be32 1800 @
     [24] @ ipv4 @ [0] @ replicate 16 0 @ [0] @ be16 0"

definition packet_nonce :: "bytes \<Rightarrow> u64 \<Rightarrow> bytes result" where
  "packet_nonce iv packet_number =
     (if length iv \<noteq> 12 then Inl (Bail ''invalid IV length'')
      else Inr (take 4 iv @ map2 (XOR) (drop 4 iv) (be64 packet_number)))"

definition handshake_header :: "byte \<Rightarrow> u32 \<Rightarrow> nat \<Rightarrow> bytes" where
  "handshake_header message_type seq ciphertext_len = [message_type, 0] @ be32 seq @ be16 (of_nat ciphertext_len)"

text \<open>\<open>Key::from_slice\<close> panics unless the key has 32 bytes.\<close>

definition seal_handshake :: "crypto \<Rightarrow> bytes \<Rightarrow> bytes \<Rightarrow> byte \<Rightarrow> u32 \<Rightarrow> bytes \<Rightarrow> bytes \<Rightarrow> bytes result" where
  "seal_handshake C key iv message_type seq transcript plaintext =
     (if length plaintext > 4096 then Inl (Bail ''handshake plaintext too large'')
      else
        let header = handshake_header message_type seq (length plaintext + 16) in
        and_then (packet_nonce iv (ucast seq)) (\<lambda>n.
        if length key \<noteq> 32 then Inl (Panic ''key length'')
        else
        and_then (ok_or (aead_encrypt C key n (header @ transcript) plaintext) (Bail ''handshake encryption failed''))
          (\<lambda>ciphertext. Inr (header @ ciphertext))))"

definition open_handshake :: "crypto \<Rightarrow> bytes \<Rightarrow> bytes \<Rightarrow> byte \<Rightarrow> u32 \<Rightarrow> bytes \<Rightarrow> bytes \<Rightarrow> bytes result" where
  "open_handshake C key iv message_type seq transcript encoded =
     (if length encoded < 24 \<or> encoded ! 0 \<noteq> message_type \<or> encoded ! 1 \<noteq> 0 \<or>
         from_be (subrange 2 6 encoded) \<noteq> seq
      then Inl (Bail ''invalid encrypted handshake header'')
      else
        let ciphertext_len = unat (from_be (subrange 6 8 encoded) :: u16) in
        if ciphertext_len > max_encrypted_handshake \<or> ciphertext_len \<noteq> length encoded - 8
        then Inl (Bail ''invalid encrypted handshake length'')
        else
        and_then (packet_nonce iv (ucast seq)) (\<lambda>n.
        if length key \<noteq> 32 then Inl (Panic ''key length'')
        else ok_or (aead_decrypt C key n (take 8 encoded @ transcript) (drop 8 encoded))
               (Bail ''handshake authentication failed'')))"

text \<open>\<open>expand_label\<close> of \<open>main.rs\<close>: like the others, with the output length truncated to 16 bits.\<close>

definition expand_label :: "crypto \<Rightarrow> bytes \<Rightarrow> string \<Rightarrow> bytes \<Rightarrow> nat \<Rightarrow> bytes result" where
  "expand_label C hk label context len =
     (let full = full_label label in
      if length full > 255 \<or> length context > 65535 then Inl (Bail ''HKDF label or context too long'')
      else
        let info = be16 (of_nat len) @ [of_nat (length full)] @ ascii full @ be16 (of_nat (length context)) @ context
        in ok_or (hkdf_expand C hk info len) (Bail ''HKDF expand failed''))"

definition encode_handshake :: "byte \<Rightarrow> bytes \<Rightarrow> bytes result" where
  "encode_handshake message_type payload =
     (if length payload > max_clear_handshake then Inl (Bail ''handshake message too large'')
      else Inr ([message_type] @ be32 (of_nat (length payload)) @ payload))"

definition transcript_initial :: "crypto \<Rightarrow> bytes" where
  "transcript_initial C = sha256 C (ascii ''RekaSerdoba/1 transcript'')"

record handshake_inputs =
  hi_hello_time :: "u64 result"
  hi_server_time :: "u64 result"
  hi_server_secret :: bytes
  hi_server_nonce :: bytes
  hi_session_id :: bytes
  hi_crypto_start :: instant
  hi_policy_start :: instant

record established_session =
  est_session_id :: bytes
  est_crypto :: rekey_session
  est_fragments :: fragment_reassembler
  est_policy :: session_policy
  est_migration_secret :: bytes
  est_resumption_secret :: bytes
  est_exporter_secret :: bytes

text \<open>The unsigned part of the server hello.\<close>

definition server_hello_core :: "runtime_config \<Rightarrow> client_hello \<Rightarrow> bytes \<Rightarrow> bytes \<Rightarrow> u64 \<Rightarrow> bytes" where
  "server_hello_core rt ch server_ephemeral server_nonce server_time =
     be16 1 @ be16 1 @ ch_handshake_id ch @ server_ephemeral @ server_nonce @ rt_server_key_id rt @
     be32 (ucast server_time) @ be16 0"

definition server_signature_input :: "crypto \<Rightarrow> bytes \<Rightarrow> bytes \<Rightarrow> client_hello \<Rightarrow> bytes" where
  "server_signature_input C transcript sh0 ch =
     hash_parts C [ascii ''RekaSerdoba/1 server signature'', transcript, sha256 C sh0, ch_client_id ch, ch_handshake_id ch]"

record handshake_keys =
  hk_kdf :: bytes
  hk_c_key :: bytes
  hk_s_key :: bytes
  hk_c_iv :: bytes
  hk_s_iv :: bytes
  hk_c_finished :: bytes
  hk_s_finished :: bytes

definition derive_handshake_keys :: "crypto \<Rightarrow> bytes \<Rightarrow> bytes \<Rightarrow> bytes \<Rightarrow> bytes \<Rightarrow> handshake_keys result" where
  "derive_handshake_keys C dh client_nonce server_nonce transcript =
     (let salt = hash_parts C [ascii ''RekaSerdoba/1 handshake extract'', client_nonce, server_nonce, transcript];
          hk = hkdf_extract C salt dh
      in
      and_then (expand_label C hk ''client handshake key'' transcript 32) (\<lambda>c_key.
      and_then (expand_label C hk ''server handshake key'' transcript 32) (\<lambda>s_key.
      and_then (expand_label C hk ''client handshake iv'' transcript 12) (\<lambda>c_iv.
      and_then (expand_label C hk ''server handshake iv'' transcript 12) (\<lambda>s_iv.
      and_then (expand_label C hk ''client finished'' transcript 32) (\<lambda>c_finished.
      and_then (expand_label C hk ''server finished'' transcript 32) (\<lambda>s_finished.
        Inr \<lparr>hk_kdf = hk, hk_c_key = c_key, hk_s_key = s_key, hk_c_iv = c_iv, hk_s_iv = s_iv,
             hk_c_finished = c_finished, hk_s_finished = s_finished\<rparr>)))))))"

text \<open>The check of the client's last message, and the session that follows from it.\<close>

definition verify_client_confirm :: "crypto \<Rightarrow> handshake_keys \<Rightarrow> bytes \<Rightarrow> bytes \<Rightarrow> bytes \<Rightarrow> unit result" where
  "verify_client_confirm C keys transcript session_id confirm_plain =
     (if length confirm_plain \<noteq> 48 \<or> take 16 confirm_plain \<noteq> session_id then Inl (Bail ''invalid client finish'')
      else
      and_then (hmac_bytes C (hk_c_finished keys)
                  (hash_parts C [ascii ''RekaSerdoba/1 client confirm'', transcript, session_id])) (\<lambda>expected.
      if drop 16 confirm_plain \<noteq> expected then Inl (Bail ''invalid client confirmation'') else Inr ()))"

definition establish :: "crypto \<Rightarrow> client \<Rightarrow> handshake_inputs \<Rightarrow> bytes \<Rightarrow> bytes \<Rightarrow> established_session result" where
  "establish C client hi kdf transcript =
     and_then (application_secrets_derive C kdf transcript (hi_session_id hi)) (\<lambda>secrets.
     and_then (rekey_session_new C (hi_session_id hi) (as_epoch_secret secrets) (as_epoch secrets) transcript
                 (hi_crypto_start hi)) (\<lambda>crypto.
     and_then (session_policy_new (cl_session_lifetime_seconds client) (cl_bandwidth_bytes_per_second client)
                 (cl_session_quota_bytes client) (hi_policy_start hi)) (\<lambda>policy.
       Inr \<lparr>est_session_id = hi_session_id hi, est_crypto = crypto, est_fragments = reassembler_new,
            est_policy = policy, est_migration_secret = as_migration secrets,
            est_resumption_secret = as_resumption secrets, est_exporter_secret = as_exporter secrets\<rparr>)))"

text \<open>The server's answer to an accepted client proof.\<close>

definition server_finish ::
    "crypto \<Rightarrow> client \<Rightarrow> handshake_inputs \<Rightarrow> handshake_keys \<Rightarrow> bytes \<Rightarrow> bytes result" where
  "server_finish C client hi keys transcript =
     (let params = assigned_parameters (hi_session_id hi) (cl_tunnel_ipv4 client) (cl_session_lifetime_seconds client) in
      and_then (hmac_bytes C (hk_s_finished keys)
                  (hash_parts C [ascii ''RekaSerdoba/1 server finished'', transcript, sha256 C params])) (\<lambda>server_proof.
      seal_handshake C (hk_s_key keys) (hk_s_iv keys) 0x05 0 transcript (params @ server_proof)))"

definition inner_handshake ::
    "crypto \<Rightarrow> runtime_config \<Rightarrow> client \<Rightarrow> handshake_inputs \<Rightarrow> carrier \<Rightarrow> established_session result \<times> carrier" where
  "inner_handshake C rt client hi carrier =
     (let (received, c1) = recv_binary carrier in
      attempt received c1 (\<lambda>hello.
      if length hello > max_clear_handshake then (Inl (Bail ''client hello too large''), c1)
      else
      attempt (parse_client_hello (hi_hello_time hi) hello) c1 (\<lambda>ch.
      if ch_client_id ch \<noteq> cl_id client then (Inl (Bail ''client selector mismatch''), c1)
      else
      let t1 = transcript_next C (transcript_initial C) hello in
      attempt (hi_server_time hi) c1 (\<lambda>server_time.
      let sh0 = server_hello_core rt ch (x25519_public C (hi_server_secret hi)) (hi_server_nonce hi) server_time;
          signature = ed25519_sign C (rt_server_seed rt) (server_signature_input C t1 sh0 ch)
      in
      attempt (encode_handshake 0x03 (sh0 @ signature)) c1 (\<lambda>server_hello.
      let (sent, c2) = carrier_send_binary c1 server_hello in
      attempt sent c2 (\<lambda>_.
      let t2 = transcript_next C t1 server_hello;
          dh = x25519 C (hi_server_secret hi) (ch_client_ephemeral ch)
      in
      if dh = replicate 32 0 then (Inl (Bail ''all-zero X25519 output''), c2)
      else
      attempt (derive_handshake_keys C dh (ch_client_nonce ch) (hi_server_nonce hi) t2) c2 (\<lambda>keys.
      let (received, c3) = recv_binary c2 in
      attempt received c3 (\<lambda>encrypted_auth.
      attempt (open_handshake C (hk_c_key keys) (hk_c_iv keys) 0x04 0 t2 encrypted_auth) c3 (\<lambda>auth_plain.
      attempt (verify_client_auth C auth_plain client t2 signature (rt_server_public rt) (hk_c_finished keys)) c3 (\<lambda>_.
      let t3 = transcript_next C t2 encrypted_auth in
      attempt (server_finish C client hi keys t3) c3 (\<lambda>encrypted_finish.
      let (sent, c4) = carrier_send_binary c3 encrypted_finish in
      attempt sent c4 (\<lambda>_.
      let t4 = transcript_next C t3 encrypted_finish;
          (received, c5) = recv_binary c4
      in
      attempt received c5 (\<lambda>encrypted_confirm.
      attempt (open_handshake C (hk_c_key keys) (hk_c_iv keys) 0x06 1 t4 encrypted_confirm) c5 (\<lambda>confirm_plain.
      attempt (verify_client_confirm C keys t4 (hi_session_id hi) confirm_plain) c5 (\<lambda>_.
        (establish C client hi (hk_kdf keys) (transcript_next C t4 encrypted_confirm), c5))))))))))))))))"

section \<open>Reading with a cursor\<close>

definition cursor_ok :: "cursor \<Rightarrow> bool" where
  "cursor_ok c \<longleftrightarrow> cu_pos c \<le> length (cu_bytes c) \<and> length (cu_bytes c) < 2 ^ 64"

definition cursor_rest :: "cursor \<Rightarrow> bytes" where
  "cursor_rest c = drop (cu_pos c) (cu_bytes c)"

text \<open>The cursor moved over exactly the bytes \<open>bs\<close>.\<close>

definition cursor_over :: "cursor \<Rightarrow> bytes \<Rightarrow> cursor \<Rightarrow> bool" where
  "cursor_over c bs c' \<longleftrightarrow> cursor_ok c' \<and> cursor_rest c = bs @ cursor_rest c' \<and> cu_bytes c' = cu_bytes c \<and>
     cu_pos c' = cu_pos c + length bs"

lemma cursor_new_ok [simp]: "cursor_ok (cursor_new bs) \<longleftrightarrow> length bs < 2 ^ 64" "cursor_rest (cursor_new bs) = bs"
  "cu_pos (cursor_new bs) = 0" "cu_bytes (cursor_new bs) = bs"
  by (simp_all add: cursor_ok_def cursor_rest_def cursor_new_def)

lemma cursor_take_iff:
  assumes "cursor_ok c"
  shows "cursor_take n c = Inr (bs, c') \<longleftrightarrow> length bs = n \<and> cursor_over c bs c'"
proof
  assume "cursor_take n c = Inr (bs, c')"
  then have t: "cu_pos c + n \<le> length (cu_bytes c)" "bs = subrange (cu_pos c) (cu_pos c + n) (cu_bytes c)"
    "c' = c\<lparr>cu_pos := cu_pos c + n\<rparr>"
    by (auto simp: cursor_take_def and_then_Inr_iff usize_checked_add_Some split: if_splits)
  then show "length bs = n \<and> cursor_over c bs c'"
    using assms by (auto simp: cursor_over_def cursor_ok_def cursor_rest_def subrange_def)
      (metis add.commute append_take_drop_id drop_drop)
next
  assume o: "length bs = n \<and> cursor_over c bs c'"
  then have l: "cu_pos c + n \<le> length (cu_bytes c)" by (auto simp: cursor_over_def cursor_ok_def)
  moreover have "cu_pos c + n < 2 ^ 64" using l assms by (simp add: cursor_ok_def)
  moreover have "subrange (cu_pos c) (cu_pos c + n) (cu_bytes c) = bs"
    using o by (simp add: cursor_over_def cursor_rest_def subrange_def)
  ultimately show "cursor_take n c = Inr (bs, c')"
    using o by (simp add: cursor_take_def usize_checked_add_def cursor_over_def)
qed

lemma cursor_over_ok: "cursor_over c bs c' \<Longrightarrow> cursor_ok c'"
  by (simp add: cursor_over_def)

lemma cursor_u16_iff:
  assumes "cursor_ok c"
  shows "cursor_u16 c = Inr (w, c') \<longleftrightarrow> cursor_over c (be16 w) c'"
  unfolding cursor_u16_def and_then_Inr_iff using be_encode(1)
  by (auto simp: cursor_take_iff [OF assms] intro!: exI [of _ "be16 w"])

lemma cursor_u32_iff:
  assumes "cursor_ok c"
  shows "cursor_u32 c = Inr (w, c') \<longleftrightarrow> cursor_over c (be32 w) c'"
  unfolding cursor_u32_def and_then_Inr_iff using be_encode(2)
  by (auto simp: cursor_take_iff [OF assms] intro!: exI [of _ "be32 w"])

lemma cursor_u64_iff:
  assumes "cursor_ok c"
  shows "cursor_u64 c = Inr (w, c') \<longleftrightarrow> cursor_over c (be64 w) c'"
  unfolding cursor_u64_def and_then_Inr_iff using be_encode(3)
  by (auto simp: cursor_take_iff [OF assms] intro!: exI [of _ "be64 w"])

lemma cursor_skip_iff:
  assumes "cursor_ok c"
  shows "cursor_skip n c = Inr c' \<longleftrightarrow> (\<exists>bs. length bs = n \<and> cursor_over c bs c')"
  unfolding cursor_skip_def and_then_Inr_iff by (auto simp: cursor_take_iff [OF assms])

lemma cursor_finish_iff: "cursor_ok c \<Longrightarrow> cursor_finish c = Inr () \<longleftrightarrow> cursor_rest c = []"
  by (auto simp: cursor_finish_def cursor_ok_def cursor_rest_def)

text \<open>A cursor in front of \<open>bs @ r\<close> can move over \<open>bs\<close>.\<close>

definition cursor_at :: "cursor \<Rightarrow> nat \<Rightarrow> cursor" where
  "cursor_at c n = c\<lparr>cu_pos := cu_pos c + n\<rparr>"

lemma cursor_over_at:
  assumes "cursor_ok c" and "cursor_rest c = bs @ r"
  shows "cursor_over c bs (cursor_at c (length bs)) \<and> cursor_ok (cursor_at c (length bs)) \<and> cursor_rest (cursor_at c (length bs)) = r"
proof -
  have "length (cu_bytes c) - cu_pos c = length bs + length r"
    using arg_cong [OF assms(2), of length] by (simp add: cursor_rest_def)
  moreover have "drop (cu_pos c + length bs) (cu_bytes c) = r"
    using arg_cong [OF assms(2), of "drop (length bs)"] by (simp add: cursor_rest_def add.commute)
  ultimately show ?thesis using assms by (auto simp: cursor_over_def cursor_at_def cursor_ok_def cursor_rest_def)
qed

section \<open>The clock check\<close>

lemma sint_u64: "sint (d :: u64) = (if unat d < 2 ^ 63 then int (unat d) else int (unat d) - 2 ^ 64)"
proof -
  have u: "uint d < 2 ^ 64" "0 \<le> uint d" using uint_lt2p [of d] by simp_all
  have b: "bit (uint d) 63 \<longleftrightarrow> \<not> uint d < 2 ^ 63"
  proof (cases "uint d < 2 ^ 63")
    case True
    then show ?thesis using u by (simp add: bit_iff_odd_drop_bit drop_bit_eq_div)
  next
    case False
    have "uint d div 2 ^ 63 = 1"
      by (rule int_div_pos_eq [of _ _ _ "uint d - 2 ^ 63"]) (use u False in simp_all)
    then show ?thesis using False by (simp add: bit_iff_odd_drop_bit drop_bit_eq_div)
  qed
  have i: "int (unat d) = uint d" by simp
  have "(unat d < 2 ^ 63) = (uint d < 2 ^ 63)" by (subst of_nat_less_iff [where 'a=int, symmetric]) simp
  moreover have "sint d = (if bit (uint d) 63 then uint d - 2 ^ 64 else uint d)"
    using u by (simp add: sint_uint signed_take_bit_eq_take_bit_minus take_bit_int_eq_self)
  ultimately show ?thesis unfolding b i by (simp only: if_not_P split: if_split) simp
qed

lemma unat_minus_u64: "unat (- d :: u64) = (if d = 0 then 0 else 2 ^ 64 - unat d)"
proof (cases "d = 0")
  case False
  have l: "unat d < 2 ^ 64" using unsigned_less [of d] by simp
  have p: "0 < unat d" using False by (simp add: unat_gt_0)
  have "(- d) = of_nat (2 ^ 64 - unat d)" using l by (simp add: of_nat_diff)
  then have "unat (- d) = (2 ^ 64 - unat d) mod 2 ^ 64" by (simp only: unat_of_nat) simp
  also have "\<dots> = 2 ^ 64 - unat d" by (rule mod_less) (use p in simp)
  finally show ?thesis using False by simp
qed simp

lemma clock_arith:
  fixes n m w :: nat
  assumes "n < 2 ^ 64" and "m = (if n = 0 then 0 else 2 ^ 64 - n)" and "w < 2 ^ 63"
   and "sd = (if n < 2 ^ 63 then int n else int n - 2 ^ 64)" and "sm = (if m < 2 ^ 63 then int m else int m - 2 ^ 64)"
  shows "(\<not> (if sd < 0 then sm else sd) > int w) \<longleftrightarrow> n \<le> w \<or> m \<le> w \<or> n = 2 ^ 63"
  using assms by (cases "n < 2^63"; cases "n = 2^63"; auto)

text \<open>The check accepts a clock within the window, and one further value exactly half the range away.\<close>

lemma clock_within_iff:
  assumes "window < 2 ^ 63"
  shows "clock_within now t window \<longleftrightarrow> unat (now - t) \<le> window \<or> unat (t - now) \<le> window \<or> t = now + 2 ^ 63"
proof -
  define d where "d = now - t"
  have neg: "t - now = - d" by (simp add: d_def)
  have "t = now + 2 ^ 63 \<longleftrightarrow> d = - (2 ^ 63)" unfolding d_def by (auto simp: algebra_simps)
  also have "(- (2 ^ 63) :: u64) = 2 ^ 63" by simp
  also have "d = 2 ^ 63 \<longleftrightarrow> unat d = 2 ^ 63" by (simp add: word_unat_eq_iff)
  finally have half: "t = now + 2 ^ 63 \<longleftrightarrow> unat d = 2 ^ 63" .
  have lt: "unat d < 2 ^ 64" using unsigned_less [of d] by simp
  have "clock_within now t window \<longleftrightarrow> \<not> (if sint d < 0 then sint (- d) else sint d) > int window"
    unfolding clock_within_def i64_wrapping_abs_def d_def [symmetric] by (simp only: if_distrib [of sint])
  also have "\<dots> \<longleftrightarrow> unat d \<le> window \<or> unat (- d) \<le> window \<or> unat d = 2 ^ 63"
    by (rule clock_arith [OF lt _ assms sint_u64 sint_u64]) (simp only: unat_minus_u64 unat_0_iff)
  finally show ?thesis unfolding half neg d_def [symmetric] .
qed

section \<open>The client hello\<close>

definition client_hello_bytes :: "client_hello \<Rightarrow> u64 \<Rightarrow> bytes" where
  "client_hello_bytes ch t = [0x01] @ be32 112 @ be16 1 @ be16 1 @ ch_handshake_id ch @ ch_client_id ch @
     ch_client_ephemeral ch @ ch_client_nonce ch @ be64 t @ be16 0 @ be16 0"

definition client_hello_wf :: "client_hello \<Rightarrow> bool" where
  "client_hello_wf ch \<longleftrightarrow> length (ch_handshake_id ch) = 16 \<and> length (ch_client_id ch) = 16 \<and>
     length (ch_client_ephemeral ch) = 32 \<and> length (ch_client_nonce ch) = 32"

text \<open>Reading the body of the hello: what the sequence of cursor calls accepts.\<close>

lemma parse_client_hello_reads:
  assumes "parse_client_hello (Inr now) encoded = Inr ch"
  shows "\<exists>t. encoded = client_hello_bytes ch t \<and> client_hello_wf ch \<and> clock_within now t 300"
proof -
  have h: "5 \<le> length encoded" "encoded ! 0 = 1" "unat (from_be (subrange 1 5 encoded) :: u32) = length encoded - 5"
    using assms by (auto simp: parse_client_hello_def split: if_split_asm)
  have "length encoded - 5 < 2 ^ 32" unfolding h(3) [symmetric] using unsigned_less [of "from_be (subrange 1 5 encoded) :: u32"] by simp
  then have ok0: "cursor_ok (cursor_new (drop 5 encoded))" by simp
  obtain c1 c2 c3 c4 c5 c6 c7 c8 c9 c10 c11 t where
    s: "cursor_u16 (cursor_new (drop 5 encoded)) = Inr (1, c1)" "cursor_u16 c1 = Inr (1, c2)"
      "cursor_take 16 c2 = Inr (ch_handshake_id ch, c3)" "cursor_take 16 c3 = Inr (ch_client_id ch, c4)"
      "cursor_take 32 c4 = Inr (ch_client_ephemeral ch, c5)" "cursor_take 32 c5 = Inr (ch_client_nonce ch, c6)"
      "cursor_u64 c6 = Inr (t, c7)" "clock_within now t 300" "cursor_u16 c7 = Inr (0, c8)" "cursor_skip 0 c8 = Inr c9"
      "cursor_u16 c9 = Inr (0, c10)" "cursor_skip 0 c10 = Inr c11" "cursor_finish c11 = Inr ()"
    using assms h
    by (auto simp: parse_client_hello_def and_then_Inr_iff unat_0_iff simp del: split_paired_Ex split: if_split_asm)
  note o1 = s(1) [unfolded cursor_u16_iff [OF ok0]]
  note o2 = s(2) [unfolded cursor_u16_iff [OF cursor_over_ok [OF o1]]]
  note o3 = s(3) [unfolded cursor_take_iff [OF cursor_over_ok [OF o2]]]
  note o4 = s(4) [unfolded cursor_take_iff [OF cursor_over_ok [OF conjunct2 [OF o3]]]]
  note o5 = s(5) [unfolded cursor_take_iff [OF cursor_over_ok [OF conjunct2 [OF o4]]]]
  note o6 = s(6) [unfolded cursor_take_iff [OF cursor_over_ok [OF conjunct2 [OF o5]]]]
  note o7 = s(7) [unfolded cursor_u64_iff [OF cursor_over_ok [OF conjunct2 [OF o6]]]]
  note o8 = s(9) [unfolded cursor_u16_iff [OF cursor_over_ok [OF o7]]]
  have o9: "cursor_over c8 [] c9" using s(10) cursor_skip_iff [OF cursor_over_ok [OF o8]] by auto
  note o10 = s(11) [unfolded cursor_u16_iff [OF cursor_over_ok [OF o9]]]
  have o11: "cursor_over c10 [] c11" using s(12) cursor_skip_iff [OF cursor_over_ok [OF o10]] by auto
  have fin: "cursor_rest c11 = []" using s(13) cursor_finish_iff [OF cursor_over_ok [OF o11]] by simp
  have body: "drop 5 encoded = be16 1 @ be16 1 @ ch_handshake_id ch @ ch_client_id ch @ ch_client_ephemeral ch @
      ch_client_nonce ch @ be64 t @ be16 0 @ be16 0"
    using o1 o2 o3 o4 o5 o6 o7 o8 o9 o10 o11 fin by (simp add: cursor_over_def)
  have wf: "client_hello_wf ch" using o3 o4 o5 o6 by (simp add: client_hello_wf_def)
  have "length encoded - 5 = 112" using arg_cong [OF body, of length] wf by (simp add: client_hello_wf_def)
  then have "from_be (subrange 1 5 encoded) = (112 :: u32)" using h(3) by (simp add: word_unat_eq_iff)
  then have "subrange 1 5 encoded = be32 112" using be_encode(2) [of "subrange 1 5 encoded"] h(1) by (simp add: length_subrange)
  moreover have "take 1 encoded = [1]" using h(1,2) by (cases encoded) auto
  ultimately have "encoded = [1] @ be32 112 @ drop 5 encoded"
    using take_subrange [of 1 5 encoded] by (metis append.assoc append_take_drop_id one_le_numeral)
  then show ?thesis using body wf s(8) by (auto simp: client_hello_bytes_def)
qed

lemma cursor_take_at:
  "k + n \<le> length B \<Longrightarrow> length B < 2 ^ 64 \<Longrightarrow>
     cursor_take n \<lparr>cu_bytes = B, cu_pos = k\<rparr> = Inr (subrange k (k + n) B, \<lparr>cu_bytes = B, cu_pos = k + n\<rparr>)"
  by (simp add: cursor_take_def usize_checked_add_def)

lemma parse_client_hello_bytes:
  assumes "client_hello_wf ch" and "clock_within now t 300"
  shows "parse_client_hello (Inr now) (client_hello_bytes ch t) = Inr ch"
proof -
  define B where "B = be16 1 @ be16 1 @ ch_handshake_id ch @ ch_client_id ch @ ch_client_ephemeral ch @ ch_client_nonce ch @
    be64 t @ be16 0 @ be16 0"
  have l: "length (ch_handshake_id ch) = 16" "length (ch_client_id ch) = 16" "length (ch_client_ephemeral ch) = 32"
    "length (ch_client_nonce ch) = 32" using assms(1) by (simp_all add: client_hello_wf_def)
  have e: "client_hello_bytes ch t = [1] @ be32 112 @ B" by (simp add: client_hello_bytes_def B_def)
  have len: "length B = 112" by (simp add: B_def l)
  have f: "subrange 0 2 B = be16 1" "subrange 2 4 B = be16 1" "subrange 4 20 B = ch_handshake_id ch"
    "subrange 20 36 B = ch_client_id ch" "subrange 36 68 B = ch_client_ephemeral ch" "subrange 68 100 B = ch_client_nonce ch"
    "subrange 100 108 B = be64 t" "subrange 108 110 B = be16 0" "subrange 110 112 B = be16 0"
    by (simp_all add: B_def l codec_simps)
  have h: "subrange 1 5 (client_hello_bytes ch t) = be32 112" "drop 5 (client_hello_bytes ch t) = B"
    "length (client_hello_bytes ch t) = 117" "client_hello_bytes ch t ! 0 = 1"
    by (simp_all add: e codec_simps len)
  show ?thesis
    using assms(2)
    by (simp add: parse_client_hello_def h cursor_u16_def cursor_u64_def cursor_skip_def cursor_new_def cursor_take_at len f
        cursor_finish_def unat_0 del: add_2_eq_Suc add_2_eq_Suc' One_nat_def)
qed

section \<open>Encrypted handshake messages\<close>

lemma packet_nonce_ok: "length iv = 12 \<Longrightarrow> packet_nonce iv n = Inr (nonce iv n) \<and> length (nonce iv n) = 12"
  by (simp add: packet_nonce_def nonce_def)

lemma length_handshake_header [simp]: "length (handshake_header ty sq n) = 8"
  by (simp add: handshake_header_def)

lemma seal_open_handshake:
  assumes "aead_correct C" and "length key = 32" and "length iv = 12" and "length plaintext \<le> 4096"
  shows "\<exists>e. seal_handshake C key iv ty sq t plaintext = Inr e \<and> length e = length plaintext + 24 \<and>
    open_handshake C key iv ty sq t e = Inr plaintext"
proof -
  let ?h = "handshake_header ty sq (length plaintext + 16)"
  obtain c where c: "aead_encrypt C key (nonce iv (ucast sq)) (?h @ t) plaintext = Some c" "length c = length plaintext + 16"
    "aead_decrypt C key (nonce iv (ucast sq)) (?h @ t) c = Some plaintext"
    using aead_correctD [OF assms(1,2), of "nonce iv (ucast sq)" plaintext "?h @ t"] packet_nonce_ok [OF assms(3)] assms(4) by auto
  have seal: "seal_handshake C key iv ty sq t plaintext = Inr (?h @ c)"
    using assms packet_nonce_ok [OF assms(3)] c(1) by (simp add: seal_handshake_def)
  have f: "subrange 2 6 (?h @ c) = be32 sq" "subrange 6 8 (?h @ c) = be16 (of_nat (length plaintext + 16))"
    "(?h @ c) ! 0 = ty" "(?h @ c) ! 1 = 0"
    by (simp_all add: handshake_header_def codec_simps del: of_nat_add)
  have "unat (of_nat (length plaintext + 16) :: u16) = length plaintext + 16"
    using assms(4) by (subst unat_of_nat) simp
  then have "open_handshake C key iv ty sq t (?h @ c) = Inr plaintext"
    using assms packet_nonce_ok [OF assms(3)] c f
    by (simp add: open_handshake_def max_encrypted_handshake_def del: of_nat_add)
  then show ?thesis using seal c(2) by auto
qed

lemma expand_label_ok:
  assumes "hkdf_total C" and "label_ok l c n" and "n \<le> 8160"
  shows "\<exists>out. expand_label C hk l c n = Inr out \<and> length out = n"
proof -
  obtain out where "hkdf_expand C hk (hkdf_info l c n) n = Some out \<and> length out = n"
    using hkdf_total_expand [OF assms(1,3)] by blast
  then show ?thesis using assms(2) by (simp add: expand_label_def label_ok_def hkdf_info_def Let_def)
qed

definition handshake_keys_wf :: "handshake_keys \<Rightarrow> bool" where
  "handshake_keys_wf k \<longleftrightarrow> length (hk_c_key k) = 32 \<and> length (hk_s_key k) = 32 \<and> length (hk_c_iv k) = 12 \<and> length (hk_s_iv k) = 12"

lemma derive_handshake_keys_ok:
  assumes "hkdf_total C" and "length t = 32"
  shows "\<exists>k. derive_handshake_keys C dh cn sn t = Inr k \<and> handshake_keys_wf k"
proof -
  define hk where "hk = hkdf_extract C (hash_parts C [ascii ''RekaSerdoba/1 handshake extract'', cn, sn, t]) dh"
  have e: "\<exists>out. expand_label C hk l t n = Inr out \<and> length out = n" if "length l \<le> 241" "n \<le> 8160" for l n
    by (rule expand_label_ok [OF assms(1)]) (use assms(2) that in \<open>simp_all add: label_ok_def\<close>)
  obtain a b c d f g where
    "expand_label C hk ''client handshake key'' t 32 = Inr a" "length a = 32"
    "expand_label C hk ''server handshake key'' t 32 = Inr b" "length b = 32"
    "expand_label C hk ''client handshake iv'' t 12 = Inr c" "length c = 12"
    "expand_label C hk ''server handshake iv'' t 12 = Inr d" "length d = 12"
    "expand_label C hk ''client finished'' t 32 = Inr f" "expand_label C hk ''server finished'' t 32 = Inr g"
    using e [of "''client handshake key''" 32] e [of "''server handshake key''" 32] e [of "''client handshake iv''" 12]
      e [of "''server handshake iv''" 12] e [of "''client finished''" 32] e [of "''server finished''" 32] by auto
  then show ?thesis by (simp add: derive_handshake_keys_def hk_def [symmetric] handshake_keys_wf_def)
qed

section \<open>The client's proof\<close>

text \<open>The layout of the proof: identifiers, parameters, signature, HMAC.\<close>

definition auth_body :: "bytes \<Rightarrow> bytes \<Rightarrow> u32 \<Rightarrow> u16 \<Rightarrow> bytes \<Rightarrow> bytes" where
  "auth_body cid kid features mtu ext = cid @ kid @ be32 features @ be16 mtu @ be16 (of_nat (length ext)) @ ext"

definition client_signature_input :: "crypto \<Rightarrow> client \<Rightarrow> bytes \<Rightarrow> bytes \<Rightarrow> bytes \<Rightarrow> bytes" where
  "client_signature_input C client t2 server_signature server_public =
     hash_parts C [ascii ''RekaSerdoba/1 client signature'', t2, server_signature, server_public, cl_id client,
       key_id C ''RekaSerdoba client key'' (cl_public_key client)]"

definition auth_proven :: "crypto \<Rightarrow> client \<Rightarrow> bytes \<Rightarrow> bytes \<Rightarrow> bytes \<Rightarrow> bytes \<Rightarrow> bytes \<Rightarrow> bool" where
  "auth_proven C client t2 server_signature server_public key plaintext \<longleftrightarrow>
     (\<exists>features mtu ext sig fin.
        plaintext = auth_body (cl_id client) (key_id C ''RekaSerdoba client key'' (cl_public_key client)) features mtu ext @ sig @ fin \<and>
        length sig = 64 \<and> length fin = 32 \<and> 1200 \<le> unat mtu \<and> unat mtu \<le> 1500 \<and> length ext \<le> 1024 \<and>
        ed25519_verify C (cl_public_key client) (client_signature_input C client t2 server_signature server_public) sig \<and>
        hmac_bytes C key (hash_parts C [ascii ''RekaSerdoba/1 client finished'', t2,
          auth_body (cl_id client) (key_id C ''RekaSerdoba client key'' (cl_public_key client)) features mtu ext @ sig]) = Inr fin)"

lemma verify_client_auth_proven:
  assumes "verify_client_auth C plaintext client t2 server_signature server_public key = Inr ()" and "length plaintext < 2 ^ 64"
  shows "auth_proven C client t2 server_signature server_public key plaintext"
proof -
  have ok0: "cursor_ok (cursor_new plaintext)" using assms(2) by simp
  obtain cid kid features mtu elen c1 c2 c3 c4 c5 c6 c7 c8 sig fin where
    s: "cursor_take 16 (cursor_new plaintext) = Inr (cid, c1)" "cursor_take 16 c1 = Inr (kid, c2)" "cursor_u32 c2 = Inr (features, c3)"
      "cursor_u16 c3 = Inr (mtu, c4)" "1200 \<le> unat mtu" "unat mtu \<le> 1500" "cursor_u16 c4 = Inr (elen, c5)" "unat elen \<le> 1024"
      "cursor_skip (unat elen) c5 = Inr c6" "cursor_take 64 c6 = Inr (sig, c7)" "cursor_take 32 c7 = Inr (fin, c8)"
      "cursor_finish c8 = Inr ()" "cid = cl_id client" "kid = key_id C ''RekaSerdoba client key'' (cl_public_key client)"
      "ed25519_verify C (cl_public_key client) (hash_parts C [ascii ''RekaSerdoba/1 client signature'', t2, server_signature,
         server_public, cl_id client, kid]) sig"
      "hmac_bytes C key (hash_parts C [ascii ''RekaSerdoba/1 client finished'', t2, take (cu_pos c7) plaintext]) = Inr fin"
    using assms(1)
    by (auto simp: verify_client_auth_def and_then_Inr_iff Let_def not_less simp del: split_paired_Ex split: if_split_asm)
  note o1 = s(1) [unfolded cursor_take_iff [OF ok0]]
  note o2 = s(2) [unfolded cursor_take_iff [OF cursor_over_ok [OF conjunct2 [OF o1]]]]
  note o3 = s(3) [unfolded cursor_u32_iff [OF cursor_over_ok [OF conjunct2 [OF o2]]]]
  note o4 = s(4) [unfolded cursor_u16_iff [OF cursor_over_ok [OF o3]]]
  note o5 = s(7) [unfolded cursor_u16_iff [OF cursor_over_ok [OF o4]]]
  obtain ext where o6: "length ext = unat elen" "cursor_over c5 ext c6"
    using s(9) cursor_skip_iff [OF cursor_over_ok [OF o5]] by auto
  note o7 = s(10) [unfolded cursor_take_iff [OF cursor_over_ok [OF o6(2)]]]
  note o8 = s(11) [unfolded cursor_take_iff [OF cursor_over_ok [OF conjunct2 [OF o7]]]]
  have fin: "cursor_rest c8 = []" using s(12) cursor_finish_iff [OF cursor_over_ok [OF conjunct2 [OF o8]]] by simp
  have el: "elen = of_nat (length ext)" using o6(1) by simp
  have p: "plaintext = auth_body cid kid features mtu ext @ sig @ fin"
    using o1 o2 o3 o4 o5 o6 o7 o8 fin unfolding el by (simp add: cursor_over_def auth_body_def)
  have "cu_pos c7 = length (auth_body cid kid features mtu ext @ sig)"
    using o1 o2 o3 o4 o5 o6 o7 by (simp add: cursor_over_def auth_body_def)
  then have "take (cu_pos c7) plaintext = auth_body cid kid features mtu ext @ sig" unfolding p by simp
  then show ?thesis using p s o6(1) o7 o8 unfolding auth_proven_def client_signature_input_def by metis
qed

lemma verify_client_auth_complete:
  assumes "kid = key_id C ''RekaSerdoba client key'' (cl_public_key client)" and "length (cl_id client) = 16" and "length kid = 16"
    and "1200 \<le> unat mtu" "unat mtu \<le> 1500" and "length sig = 64" "length fin = 32"
    and "ed25519_verify C (cl_public_key client) (client_signature_input C client t2 server_signature server_public) sig"
    and "hmac_bytes C key (hash_parts C [ascii ''RekaSerdoba/1 client finished'', t2,
          auth_body (cl_id client) kid features mtu [] @ sig]) = Inr fin"
  shows "verify_client_auth C (auth_body (cl_id client) kid features mtu [] @ sig @ fin) client t2 server_signature server_public key = Inr ()"
proof -
  define B where "B = auth_body (cl_id client) kid features mtu [] @ sig @ fin"
  have len: "length B = 136" using assms by (simp add: B_def auth_body_def)
  have f: "subrange 0 16 B = cl_id client" "subrange 16 32 B = kid" "subrange 32 36 B = be32 features" "subrange 36 38 B = be16 mtu"
    "subrange 38 40 B = be16 0" "subrange 40 104 B = sig" "subrange 104 136 B = fin"
    "take 104 B = auth_body (cl_id client) kid features mtu [] @ sig"
    using assms by (simp_all add: B_def auth_body_def codec_simps)
  show ?thesis
    unfolding B_def [symmetric]
    using assms(4,5,8,9)
    by (simp add: verify_client_auth_def cursor_u16_def cursor_u32_def cursor_skip_def cursor_new_def cursor_take_at len f
        cursor_finish_def unat_0 assms(1) client_signature_input_def Let_def del: add_2_eq_Suc add_2_eq_Suc' One_nat_def)
qed

section \<open>Runs of the handshake\<close>

text \<open>What a successful run has received, checked and produced.\<close>

record handshake_run =
  hr_hello :: bytes
  hr_server_hello :: bytes
  hr_auth :: bytes
  hr_finish :: bytes
  hr_confirm :: bytes

definition hr_t2 :: "crypto \<Rightarrow> handshake_run \<Rightarrow> bytes" where
  "hr_t2 C r = transcript_next C (transcript_next C (transcript_initial C) (hr_hello r)) (hr_server_hello r)"

definition hr_t4 :: "crypto \<Rightarrow> handshake_run \<Rightarrow> bytes" where
  "hr_t4 C r = transcript_next C (transcript_next C (hr_t2 C r) (hr_auth r)) (hr_finish r)"

definition hr_t5 :: "crypto \<Rightarrow> handshake_run \<Rightarrow> bytes" where
  "hr_t5 C r = transcript_next C (hr_t4 C r) (hr_confirm r)"

lemma verify_client_confirm_iff:
  "verify_client_confirm C keys t sid confirm = Inr () \<longleftrightarrow> length confirm = 48 \<and>
     (\<exists>tag. hmac_bytes C (hk_c_finished keys) (hash_parts C [ascii ''RekaSerdoba/1 client confirm'', t, sid]) = Inr tag \<and>
        confirm = sid @ tag \<and> length sid = 16)"
proof -
  have split: "take 16 confirm = sid \<and> drop 16 confirm = tag \<longleftrightarrow> confirm = sid @ tag \<and> length sid = 16"
    if "length confirm = 48" for tag using that by auto
  have "verify_client_confirm C keys t sid confirm = Inr () \<longleftrightarrow> length confirm = 48 \<and> take 16 confirm = sid \<and>
      hmac_bytes C (hk_c_finished keys) (hash_parts C [ascii ''RekaSerdoba/1 client confirm'', t, sid]) = Inr (drop 16 confirm)"
    by (simp add: verify_client_confirm_def and_then_Inr_iff split: if_split) blast
  also have "\<dots> \<longleftrightarrow> length confirm = 48 \<and> (\<exists>tag. hmac_bytes C (hk_c_finished keys)
      (hash_parts C [ascii ''RekaSerdoba/1 client confirm'', t, sid]) = Inr tag \<and> take 16 confirm = sid \<and> drop 16 confirm = tag)"
    by simp blast
  finally show ?thesis using split by (simp cong: conj_cong)
qed

lemma if_bail_iff: "(if b then (Inl e, s) else x) = (Inr y, t) \<longleftrightarrow> \<not> b \<and> x = (Inr y, t)"
  by auto

lemma inner_handshake_steps:
  assumes "inner_handshake C rt client hi carrier = (Inr est, carrier')"
  shows "\<exists>r ch stime keys auth confirm.
    parse_client_hello (hi_hello_time hi) (hr_hello r) = Inr ch \<and> ch_client_id ch = cl_id client \<and> hi_server_time hi = Inr stime \<and>
    encode_handshake 0x03 (server_hello_core rt ch (x25519_public C (hi_server_secret hi)) (hi_server_nonce hi) stime @
      ed25519_sign C (rt_server_seed rt) (server_signature_input C (transcript_next C (transcript_initial C) (hr_hello r))
        (server_hello_core rt ch (x25519_public C (hi_server_secret hi)) (hi_server_nonce hi) stime) ch)) = Inr (hr_server_hello r) \<and>
    x25519 C (hi_server_secret hi) (ch_client_ephemeral ch) \<noteq> replicate 32 0 \<and>
    derive_handshake_keys C (x25519 C (hi_server_secret hi) (ch_client_ephemeral ch)) (ch_client_nonce ch) (hi_server_nonce hi)
      (hr_t2 C r) = Inr keys \<and>
    open_handshake C (hk_c_key keys) (hk_c_iv keys) 0x04 0 (hr_t2 C r) (hr_auth r) = Inr auth \<and>
    verify_client_auth C auth client (hr_t2 C r)
      (ed25519_sign C (rt_server_seed rt) (server_signature_input C (transcript_next C (transcript_initial C) (hr_hello r))
        (server_hello_core rt ch (x25519_public C (hi_server_secret hi)) (hi_server_nonce hi) stime) ch))
      (rt_server_public rt) (hk_c_finished keys) = Inr () \<and>
    server_finish C client hi keys (transcript_next C (hr_t2 C r) (hr_auth r)) = Inr (hr_finish r) \<and>
    open_handshake C (hk_c_key keys) (hk_c_iv keys) 0x06 1 (hr_t4 C r) (hr_confirm r) = Inr confirm \<and>
    verify_client_confirm C keys (hr_t4 C r) (hi_session_id hi) confirm = Inr () \<and>
    establish C client hi (hk_kdf keys) (hr_t5 C r) = Inr est"
proof -
  obtain hello c1 ch stime server_hello c2 keys auth_msg c3 auth finish c4 confirm_msg c5 confirm where
    p: "parse_client_hello (hi_hello_time hi) hello = Inr ch" "ch_client_id ch = cl_id client" "hi_server_time hi = Inr stime"
    and s: "encode_handshake 0x03 (server_hello_core rt ch (x25519_public C (hi_server_secret hi)) (hi_server_nonce hi) stime @
      ed25519_sign C (rt_server_seed rt) (server_signature_input C (transcript_next C (transcript_initial C) hello)
        (server_hello_core rt ch (x25519_public C (hi_server_secret hi)) (hi_server_nonce hi) stime) ch)) = Inr server_hello"
    and d: "x25519 C (hi_server_secret hi) (ch_client_ephemeral ch) \<noteq> replicate 32 0"
    and k: "derive_handshake_keys C (x25519 C (hi_server_secret hi) (ch_client_ephemeral ch)) (ch_client_nonce ch) (hi_server_nonce hi)
      (transcript_next C (transcript_next C (transcript_initial C) hello) server_hello) = Inr keys"
    and a: "open_handshake C (hk_c_key keys) (hk_c_iv keys) 0x04 0
        (transcript_next C (transcript_next C (transcript_initial C) hello) server_hello) auth_msg = Inr auth"
    and v: "verify_client_auth C auth client (transcript_next C (transcript_next C (transcript_initial C) hello) server_hello)
      (ed25519_sign C (rt_server_seed rt) (server_signature_input C (transcript_next C (transcript_initial C) hello)
        (server_hello_core rt ch (x25519_public C (hi_server_secret hi)) (hi_server_nonce hi) stime) ch))
      (rt_server_public rt) (hk_c_finished keys) = Inr ()"
    and f: "server_finish C client hi keys
        (transcript_next C (transcript_next C (transcript_next C (transcript_initial C) hello) server_hello) auth_msg) = Inr finish"
    and o: "open_handshake C (hk_c_key keys) (hk_c_iv keys) 0x06 1
        (transcript_next C (transcript_next C (transcript_next C (transcript_next C (transcript_initial C) hello) server_hello) auth_msg) finish)
        confirm_msg = Inr confirm"
    and w: "verify_client_confirm C keys
        (transcript_next C (transcript_next C (transcript_next C (transcript_next C (transcript_initial C) hello) server_hello) auth_msg) finish)
        (hi_session_id hi) confirm = Inr ()"
    and e: "establish C client hi (hk_kdf keys) (transcript_next C
        (transcript_next C (transcript_next C (transcript_next C (transcript_next C (transcript_initial C) hello) server_hello) auth_msg) finish)
        confirm_msg) = Inr est"
    using assms unfolding inner_handshake_def Let_def
    by (simp only: attempt_Inr_iff case_prod_eq_iff if_bail_iff not_not) (elim exE conjE, simp)
  show ?thesis
    by (intro exI [of _ "\<lparr>hr_hello = hello, hr_server_hello = server_hello, hr_auth = auth_msg, hr_finish = finish, hr_confirm = confirm_msg\<rparr>"]
        exI [of _ ch] exI [of _ stime] exI [of _ keys] exI [of _ auth] exI [of _ confirm])
      (use p s d k a v f o w e in \<open>simp add: hr_t2_def hr_t4_def hr_t5_def\<close>)
qed

text \<open>Decryption removes the 16 bytes of the tag.\<close>

definition aead_sized :: "crypto \<Rightarrow> bool" where
  "aead_sized C \<longleftrightarrow> (\<forall>k n a c m. aead_decrypt C k n a c = Some m \<longrightarrow> length m + 16 = length c)"

lemma open_handshake_length:
  assumes "aead_sized C" and "open_handshake C key iv ty sq t e = Inr m"
  shows "length m \<le> 4096"
proof -
  obtain n where n: "aead_decrypt C key n (take 8 e @ t) (drop 8 e) = Some m" "length e - 8 \<le> 4112"
    using assms(2) by (auto simp: open_handshake_def and_then_Inr_iff Let_def max_encrypted_handshake_def split: if_split_asm)
  have "length m + 16 = length (drop 8 e)" using assms(1) n(1) unfolding aead_sized_def by blast
  then show ?thesis using n(2) by simp
qed

lemma establish_fields:
  assumes "establish C client hi kdf t = Inr est"
  shows "est_session_id est = hi_session_id hi \<and> rk_session_id (est_crypto est) = hi_session_id hi \<and>
    es_epoch (rk_current (est_crypto est)) = 0 \<and> rk_pending (est_crypto est) = None \<and> rk_previous (est_crypto est) = None \<and>
    rk_transcript (est_crypto est) = hash_parts C [ascii ''RekaSerdoba/1 control transcript'', t, hi_session_id hi] \<and>
    est_fragments est = reassembler_new \<and> sp_transferred (est_policy est) = 0 \<and>
    sp_deadline (est_policy est) = hi_policy_start hi + int (cl_session_lifetime_seconds client * nanos_per_sec)"
  using assms
  by (auto simp: establish_def and_then_Inr_iff rekey_session_new_def session_policy_new_def split: if_split_asm)

section \<open>An honest client\<close>

text \<open>What the protocol has the client send, computed from what the client knows: its X25519 secret, its signing key
  and the bytes it received. The signature and the ephemeral key are read from the server hello.\<close>

definition hello_server_ephemeral :: "bytes \<Rightarrow> bytes" where "hello_server_ephemeral sh = subrange 25 57 sh"
definition hello_server_nonce :: "bytes \<Rightarrow> bytes" where "hello_server_nonce sh = subrange 57 89 sh"
definition hello_server_signature :: "bytes \<Rightarrow> bytes" where "hello_server_signature sh = subrange 111 175 sh"

definition client_keys :: "crypto \<Rightarrow> bytes \<Rightarrow> bytes \<Rightarrow> bytes \<Rightarrow> bytes \<Rightarrow> handshake_keys result" where
  "client_keys C client_secret client_nonce hello sh =
     derive_handshake_keys C (x25519 C client_secret (hello_server_ephemeral sh)) client_nonce (hello_server_nonce sh)
       (transcript_next C (transcript_next C (transcript_initial C) hello) sh)"

definition client_auth_message ::
    "crypto \<Rightarrow> client \<Rightarrow> bytes \<Rightarrow> bytes \<Rightarrow> u32 \<Rightarrow> u16 \<Rightarrow> handshake_keys \<Rightarrow> bytes \<Rightarrow> bytes \<Rightarrow> bytes result" where
  "client_auth_message C client signing server_public features mtu keys t2 sh =
     (let body = auth_body (cl_id client) (key_id C ''RekaSerdoba client key'' (cl_public_key client)) features mtu [];
          sig = ed25519_sign C signing (client_signature_input C client t2 (hello_server_signature sh) server_public)
      in and_then (hmac_bytes C (hk_c_finished keys)
             (hash_parts C [ascii ''RekaSerdoba/1 client finished'', t2, body @ sig])) (\<lambda>fin.
           seal_handshake C (hk_c_key keys) (hk_c_iv keys) 0x04 0 t2 (body @ sig @ fin)))"

definition client_confirm_message :: "crypto \<Rightarrow> handshake_keys \<Rightarrow> bytes \<Rightarrow> bytes \<Rightarrow> bytes result" where
  "client_confirm_message C keys t4 session_id =
     and_then (hmac_bytes C (hk_c_finished keys) (hash_parts C [ascii ''RekaSerdoba/1 client confirm'', t4, session_id])) (\<lambda>tag.
       seal_handshake C (hk_c_key keys) (hk_c_iv keys) 0x06 1 t4 (session_id @ tag))"

lemma transcript_length: "hash_sized C \<Longrightarrow> length (transcript_next C a b) = 32"
  by (simp add: transcript_next_def length_hash_parts)

lemma client_auth_message_accepted:
  assumes "aead_correct C" "hash_sized C" "handshake_keys_wf keys" and "length (cl_id client) = 16"
    and "\<And>m. ed25519_verify C (cl_public_key client) m (ed25519_sign C signing m)" "\<And>m. length (ed25519_sign C signing m) = 64"
    and "1200 \<le> unat mtu" "unat mtu \<le> 1500"
  shows "\<exists>msg auth. client_auth_message C client signing server_public features mtu keys t2 sh = Inr msg \<and>
    open_handshake C (hk_c_key keys) (hk_c_iv keys) 0x04 0 t2 msg = Inr auth \<and>
    verify_client_auth C auth client t2 (hello_server_signature sh) server_public (hk_c_finished keys) = Inr ()"
proof -
  let ?kid = "key_id C ''RekaSerdoba client key'' (cl_public_key client)"
  let ?body = "auth_body (cl_id client) ?kid features mtu []"
  let ?sig = "ed25519_sign C signing (client_signature_input C client t2 (hello_server_signature sh) server_public)"
  have kid: "length ?kid = 16" using length_hash_parts [OF assms(2)] by (simp add: key_id_def)
  obtain fin where fin: "hmac_bytes C (hk_c_finished keys) (hash_parts C [ascii ''RekaSerdoba/1 client finished'', t2, ?body @ ?sig]) = Inr fin"
    "length fin = 32" using hmac_bytes_ok [OF assms(2)] by blast
  have "length (?body @ ?sig @ fin) \<le> 4096" using kid assms(4,6) fin(2) by (simp add: auth_body_def)
  then obtain e where e: "seal_handshake C (hk_c_key keys) (hk_c_iv keys) 0x04 0 t2 (?body @ ?sig @ fin) = Inr e"
    "open_handshake C (hk_c_key keys) (hk_c_iv keys) 0x04 0 t2 e = Inr (?body @ ?sig @ fin)"
    using seal_open_handshake [OF assms(1)] assms(3) unfolding handshake_keys_wf_def by blast
  have "verify_client_auth C (?body @ ?sig @ fin) client t2 (hello_server_signature sh) server_public (hk_c_finished keys) = Inr ()"
    by (rule verify_client_auth_complete [OF refl assms(4) kid assms(7,8,6) fin(2) assms(5) fin(1)])
  then show ?thesis using e fin(1) by (simp add: client_auth_message_def)
qed

lemma client_confirm_message_accepted:
  assumes "aead_correct C" "hash_sized C" "handshake_keys_wf keys" and "length sid = 16"
  shows "\<exists>msg confirm. client_confirm_message C keys t4 sid = Inr msg \<and>
    open_handshake C (hk_c_key keys) (hk_c_iv keys) 0x06 1 t4 msg = Inr confirm \<and>
    verify_client_confirm C keys t4 sid confirm = Inr ()"
proof -
  obtain tag where t: "hmac_bytes C (hk_c_finished keys) (hash_parts C [ascii ''RekaSerdoba/1 client confirm'', t4, sid]) = Inr tag"
    "length tag = 32" using hmac_bytes_ok [OF assms(2)] by blast
  have "length (sid @ tag) \<le> 4096" using assms(4) t(2) by simp
  then obtain e where "seal_handshake C (hk_c_key keys) (hk_c_iv keys) 0x06 1 t4 (sid @ tag) = Inr e"
    "open_handshake C (hk_c_key keys) (hk_c_iv keys) 0x06 1 t4 e = Inr (sid @ tag)"
    using seal_open_handshake [OF assms(1)] assms(3) unfolding handshake_keys_wf_def by blast
  then show ?thesis using t assms(4) by (simp add: client_confirm_message_def verify_client_confirm_iff)
qed

lemma server_finish_ok:
  assumes "aead_correct C" "hash_sized C" "handshake_keys_wf keys" and "length (hi_session_id hi) = 16" "length (cl_tunnel_ipv4 client) = 4"
  shows "\<exists>msg proof'. server_finish C client hi keys t3 = Inr msg \<and>
    open_handshake C (hk_s_key keys) (hk_s_iv keys) 0x05 0 t3 msg =
      Inr (assigned_parameters (hi_session_id hi) (cl_tunnel_ipv4 client) (cl_session_lifetime_seconds client) @ proof')"
proof -
  let ?p = "assigned_parameters (hi_session_id hi) (cl_tunnel_ipv4 client) (cl_session_lifetime_seconds client)"
  obtain tag where t: "hmac_bytes C (hk_s_finished keys) (hash_parts C [ascii ''RekaSerdoba/1 server finished'', t3, sha256 C ?p]) = Inr tag"
    "length tag = 32" using hmac_bytes_ok [OF assms(2)] by blast
  have "length (?p @ tag) \<le> 4096" using assms(4,5) t(2) by (simp add: assigned_parameters_def)
  then obtain e where "seal_handshake C (hk_s_key keys) (hk_s_iv keys) 0x05 0 t3 (?p @ tag) = Inr e"
    "open_handshake C (hk_s_key keys) (hk_s_iv keys) 0x05 0 t3 e = Inr (?p @ tag)"
    using seal_open_handshake [OF assms(1)] assms(3) unfolding handshake_keys_wf_def by blast
  then show ?thesis using t by (auto simp: server_finish_def)
qed

lemma application_secrets_derive_ok:
  assumes "hkdf_total C" and "length t = 32" and "length sid = 16"
  shows "\<exists>a. application_secrets_derive C kdf t sid = Inr a \<and> epoch_keys_wf (as_epoch a)"
proof -
  have e: "\<exists>out. expand C k l t 32 = Inr out \<and> length out = 32" if "length l \<le> 241" for k l
    using expand_ok [OF assms(1), of l t 32 k] assms(2) that by (auto simp: label_ok_def)
  obtain m where m: "expand C kdf ''master secret'' t 32 = Inr m" "length m = 32" using e [of "''master secret''" kdf] by auto
  obtain mk where mk: "hkdf_from_prk C m = Some mk" using hkdf_total_prk [OF assms(1) m(2)] by blast
  obtain a b c d where "expand C mk ''epoch root'' t 32 = Inr a" and a: "length a = 32"
    and "expand C mk ''migration'' t 32 = Inr b" "length b = 32" "expand C mk ''resumption'' t 32 = Inr c" "length c = 32"
    "expand C mk ''exporter'' t 32 = Inr d" "length d = 32"
    using e [of "''epoch root''" mk] e [of "''migration''" mk] e [of "''resumption''" mk] e [of "''exporter''" mk] by auto
  moreover obtain keys where "epoch_keys_derive C a sid 0 = Inr keys" "epoch_keys_wf keys"
    using epoch_keys_derive_ok [OF assms(1) a assms(3)] by blast
  ultimately show ?thesis using m mk by (simp add: application_secrets_derive_def fixed_def)
qed

lemma establish_ok:
  assumes "hkdf_total C" and "length t = 32" and "length (hi_session_id hi) = 16" and "policy_accepted client"
  shows "\<exists>est. establish C client hi kdf t = Inr est"
proof -
  obtain a where "application_secrets_derive C kdf t (hi_session_id hi) = Inr a"
    using application_secrets_derive_ok [OF assms(1-3)] by blast
  moreover obtain p where "session_policy_new (cl_session_lifetime_seconds client) (cl_bandwidth_bytes_per_second client)
      (cl_session_quota_bytes client) (hi_policy_start hi) = Inr p"
    using assms(4) by (auto simp: policy_accepted_def)
  ultimately show ?thesis
    by (simp add: establish_def rekey_session_new_def session_record_layer_new_def record_receiver_new_def replay_new_def
        default_replay_window_def)
qed

text \<open>The server hello, and where the client finds what it needs in it.\<close>

lemma server_hello_layout:
  assumes "length (ch_handshake_id ch) = 16" "length eph = 32" "length sn = 32" "length (rt_server_key_id rt) = 16" "length sig = 64"
  shows "\<exists>sh. encode_handshake 0x03 (server_hello_core rt ch eph sn stime @ sig) = Inr sh \<and>
    hello_server_ephemeral sh = eph \<and> hello_server_nonce sh = sn \<and> hello_server_signature sh = sig"
  using assms
  by (simp add: encode_handshake_def server_hello_core_def max_clear_handshake_def hello_server_ephemeral_def hello_server_nonce_def
      hello_server_signature_def codec_simps)

definition ws_script :: "bytes list \<Rightarrow> bytes list \<Rightarrow> carrier" where
  "ws_script inputs outputs = WebSocket \<lparr>ws_input = map (\<lambda>m. Inr (WsBinary m)) inputs, ws_output = map WsBinary outputs, ws_open = True\<rparr>"

lemma ws_script_simps [simp]:
  "recv_binary (ws_script (m # ms) outs) = (Inr m, ws_script ms outs)"
  "carrier_send_binary (ws_script ms outs) m = (Inr (), ws_script ms (outs @ [m]))"
  by (simp_all add: ws_script_def recv_binary_def ws_recv_def)

lemma inner_handshake_runs:
  assumes "length hello \<le> max_clear_handshake" and "parse_client_hello (hi_hello_time hi) hello = Inr ch" and "ch_client_id ch = cl_id client"
    and "hi_server_time hi = Inr stime" and "sh0 = server_hello_core rt ch (x25519_public C (hi_server_secret hi)) (hi_server_nonce hi) stime"
    and "sig = ed25519_sign C (rt_server_seed rt) (server_signature_input C (transcript_next C (transcript_initial C) hello) sh0 ch)"
    and "encode_handshake 0x03 (sh0 @ sig) = Inr sh" and "t2 = transcript_next C (transcript_next C (transcript_initial C) hello) sh"
    and "x25519 C (hi_server_secret hi) (ch_client_ephemeral ch) \<noteq> replicate 32 0"
    and "derive_handshake_keys C (x25519 C (hi_server_secret hi) (ch_client_ephemeral ch)) (ch_client_nonce ch) (hi_server_nonce hi) t2 = Inr keys"
    and "open_handshake C (hk_c_key keys) (hk_c_iv keys) 0x04 0 t2 auth_msg = Inr auth"
    and "verify_client_auth C auth client t2 sig (rt_server_public rt) (hk_c_finished keys) = Inr ()"
    and "server_finish C client hi keys (transcript_next C t2 auth_msg) = Inr finish"
    and "t4 = transcript_next C (transcript_next C t2 auth_msg) finish"
    and "open_handshake C (hk_c_key keys) (hk_c_iv keys) 0x06 1 t4 confirm_msg = Inr confirm"
    and "verify_client_confirm C keys t4 (hi_session_id hi) confirm = Inr ()"
  shows "inner_handshake C rt client hi (ws_script [hello, auth_msg, confirm_msg] []) =
    (establish C client hi (hk_kdf keys) (transcript_next C t4 confirm_msg), ws_script [] [sh, finish])"
  using assms by (simp add: inner_handshake_def Let_def)

text \<open>The contract of the signature scheme for the keys at hand, and the setting of an honest run: both ends
  compute the same non-zero Diffie-Hellman result, the hello names the client, and all values have the sizes of their
  types.\<close>

definition signatures_correct :: "crypto \<Rightarrow> client \<Rightarrow> bytes \<Rightarrow> bool" where
  "signatures_correct C client signing \<longleftrightarrow> (\<forall>k m. length (ed25519_sign C k m) = 64) \<and>
     (\<forall>m. ed25519_verify C (cl_public_key client) m (ed25519_sign C signing m))"

definition honest_setup ::
    "crypto \<Rightarrow> runtime_config \<Rightarrow> client \<Rightarrow> handshake_inputs \<Rightarrow> client_hello \<Rightarrow> bytes \<Rightarrow> u64 \<Rightarrow> bool" where
  "honest_setup C rt client hi ch csec t \<longleftrightarrow>
     length (x25519_public C (hi_server_secret hi)) = 32 \<and>
     x25519 C (hi_server_secret hi) (ch_client_ephemeral ch) = x25519 C csec (x25519_public C (hi_server_secret hi)) \<and>
     x25519 C (hi_server_secret hi) (ch_client_ephemeral ch) \<noteq> replicate 32 0 \<and>
     client_hello_wf ch \<and> ch_client_id ch = cl_id client \<and>
     (\<exists>now. hi_hello_time hi = Inr now \<and> clock_within now t 300) \<and> (\<exists>stime. hi_server_time hi = Inr stime) \<and>
     length (hi_server_nonce hi) = 32 \<and> length (hi_session_id hi) = 16 \<and> length (rt_server_key_id rt) = 16 \<and>
     length (cl_tunnel_ipv4 client) = 4 \<and> policy_accepted client"

lemma honest_handshake:
  assumes "aead_correct C" and "hkdf_total C" and "hash_sized C" and "signatures_correct C client signing"
    and "honest_setup C rt client hi ch csec t" and "1200 \<le> unat mtu" and "unat mtu \<le> 1500"
  shows "\<exists>sh finish auth confirm keys est server_proof. let hello = client_hello_bytes ch t;
      t2 = transcript_next C (transcript_next C (transcript_initial C) hello) sh;
      t3 = transcript_next C t2 auth; t4 = transcript_next C t3 finish in
    client_keys C csec (ch_client_nonce ch) hello sh = Inr keys \<and>
    client_auth_message C client signing (rt_server_public rt) features mtu keys t2 sh = Inr auth \<and>
    client_confirm_message C keys t4 (hi_session_id hi) = Inr confirm \<and>
    inner_handshake C rt client hi (ws_script [hello, auth, confirm] []) = (Inr est, ws_script [] [sh, finish]) \<and>
    open_handshake C (hk_s_key keys) (hk_s_iv keys) 0x05 0 t3 finish =
      Inr (assigned_parameters (est_session_id est) (cl_tunnel_ipv4 client) (cl_session_lifetime_seconds client) @ server_proof)"
proof -
  obtain now stime where sg: "\<And>k m. length (ed25519_sign C k m) = 64" "\<And>m. ed25519_verify C (cl_public_key client) m (ed25519_sign C signing m)"
    and st: "length (x25519_public C (hi_server_secret hi)) = 32"
      "x25519 C (hi_server_secret hi) (ch_client_ephemeral ch) = x25519 C csec (x25519_public C (hi_server_secret hi))"
      "x25519 C (hi_server_secret hi) (ch_client_ephemeral ch) \<noteq> replicate 32 0" "client_hello_wf ch" "ch_client_id ch = cl_id client"
      "hi_hello_time hi = Inr now" "clock_within now t 300" "hi_server_time hi = Inr stime" "length (hi_server_nonce hi) = 32"
      "length (hi_session_id hi) = 16" "length (rt_server_key_id rt) = 16" "length (cl_tunnel_ipv4 client) = 4" "policy_accepted client"
    using assms(4,5) unfolding signatures_correct_def honest_setup_def by blast
  define hello where "hello = client_hello_bytes ch t"
  have lens: "length (ch_handshake_id ch) = 16" "length (cl_id client) = 16" using st(4) st(5) by (auto simp: client_hello_wf_def)
  have hl: "length hello \<le> max_clear_handshake"
    using st(4) by (simp add: hello_def client_hello_bytes_def client_hello_wf_def max_clear_handshake_def)
  have parse: "parse_client_hello (hi_hello_time hi) hello = Inr ch"
    unfolding st(6) hello_def by (rule parse_client_hello_bytes [OF st(4) st(7)])
  define sh0 where "sh0 = server_hello_core rt ch (x25519_public C (hi_server_secret hi)) (hi_server_nonce hi) stime"
  define sig where "sig = ed25519_sign C (rt_server_seed rt) (server_signature_input C (transcript_next C (transcript_initial C) hello) sh0 ch)"
  obtain sh where sh: "encode_handshake 0x03 (sh0 @ sig) = Inr sh" "hello_server_ephemeral sh = x25519_public C (hi_server_secret hi)"
    "hello_server_nonce sh = hi_server_nonce hi" "hello_server_signature sh = sig"
    using server_hello_layout [OF lens(1) st(1) st(9) st(11) sg(1)] unfolding sh0_def sig_def by blast
  define t2 where "t2 = transcript_next C (transcript_next C (transcript_initial C) hello) sh"
  obtain keys where k: "derive_handshake_keys C (x25519 C (hi_server_secret hi) (ch_client_ephemeral ch)) (ch_client_nonce ch)
      (hi_server_nonce hi) t2 = Inr keys" "handshake_keys_wf keys"
    using derive_handshake_keys_ok [OF assms(2) transcript_length [OF assms(3)]] unfolding t2_def by blast
  obtain auth_msg auth where a: "client_auth_message C client signing (rt_server_public rt) features mtu keys t2 sh = Inr auth_msg"
    "open_handshake C (hk_c_key keys) (hk_c_iv keys) 0x04 0 t2 auth_msg = Inr auth"
    "verify_client_auth C auth client t2 sig (rt_server_public rt) (hk_c_finished keys) = Inr ()"
    using client_auth_message_accepted [OF assms(1) assms(3) k(2) lens(2) sg(2) sg(1) assms(6) assms(7)] sh(4) by metis
  obtain finish server_proof where f: "server_finish C client hi keys (transcript_next C t2 auth_msg) = Inr finish"
    "open_handshake C (hk_s_key keys) (hk_s_iv keys) 0x05 0 (transcript_next C t2 auth_msg) finish =
       Inr (assigned_parameters (hi_session_id hi) (cl_tunnel_ipv4 client) (cl_session_lifetime_seconds client) @ server_proof)"
    using server_finish_ok [OF assms(1) assms(3) k(2) st(10) st(12)] by blast
  define t4 where "t4 = transcript_next C (transcript_next C t2 auth_msg) finish"
  obtain confirm_msg confirm where c: "client_confirm_message C keys t4 (hi_session_id hi) = Inr confirm_msg"
    "open_handshake C (hk_c_key keys) (hk_c_iv keys) 0x06 1 t4 confirm_msg = Inr confirm"
    "verify_client_confirm C keys t4 (hi_session_id hi) confirm = Inr ()"
    using client_confirm_message_accepted [OF assms(1) assms(3) k(2) st(10)] by blast
  obtain est where e: "establish C client hi (hk_kdf keys) (transcript_next C t4 confirm_msg) = Inr est"
    using establish_ok [OF assms(2) transcript_length [OF assms(3)] st(10) st(13)] by blast
  have "inner_handshake C rt client hi (ws_script [hello, auth_msg, confirm_msg] []) = (Inr est, ws_script [] [sh, finish])"
    unfolding e [symmetric]
    by (rule inner_handshake_runs [OF hl parse st(5) st(8) sh0_def sig_def sh(1) t2_def st(3) k(1) a(2,3) f(1) t4_def c(2,3)])
  moreover have "client_keys C csec (ch_client_nonce ch) hello sh = Inr keys"
    using k(1) by (simp add: client_keys_def sh(2,3) t2_def [symmetric] st(2))
  ultimately show ?thesis
    using a(1) c(1) f(2) establish_fields [OF e] unfolding Let_def hello_def [symmetric] t2_def [symmetric] t4_def [symmetric]
    by (intro exI [of _ sh] exI [of _ finish] exI [of _ auth_msg] exI [of _ confirm_msg] exI [of _ keys] exI [of _ est] exI [of _ server_proof])
      (simp add: t2_def [symmetric] t4_def [symmetric])
qed

section \<open>A concrete setting\<close>

definition sample_client :: client where
  "sample_client = \<lparr>cl_id = replicate 16 1, cl_public_key = replicate 32 2, cl_gate_key = replicate 32 3, cl_tunnel_ipv4 = [10, 77, 0, 2],
     cl_session_lifetime_seconds = 3600, cl_bandwidth_bytes_per_second = 26214400, cl_session_quota_bytes = 0\<rparr>"

definition sample_runtime :: runtime_config where
  "sample_runtime = \<lparr>rt_authority = ''a:443'', rt_tunnel_path = ''/t'', rt_server_seed = replicate 32 4, rt_server_public = replicate 32 4,
     rt_server_key_id = replicate 16 5, rt_clients = [replicate 16 1 \<mapsto> sample_client]\<rparr>"

definition sample_inputs :: handshake_inputs where
  "sample_inputs = \<lparr>hi_hello_time = Inr 1000, hi_server_time = Inr 1000, hi_server_secret = replicate 32 1,
     hi_server_nonce = replicate 32 7, hi_session_id = replicate 16 8, hi_crypto_start = 0, hi_policy_start = 0\<rparr>"

definition sample_hello :: client_hello where
  "sample_hello = \<lparr>ch_handshake_id = replicate 16 9, ch_client_id = replicate 16 1, ch_client_ephemeral = replicate 32 2,
     ch_client_nonce = replicate 32 6\<rparr>"

lemma sample_setup:
  "signatures_correct clear_crypto sample_client (replicate 32 2)"
  "honest_setup clear_crypto sample_runtime sample_client sample_inputs sample_hello (replicate 32 2) 1005"
proof -
  show "signatures_correct clear_crypto sample_client (replicate 32 2)"
    by (simp add: signatures_correct_def clear_crypto_def sample_client_def)
  have p: "pad32 (replicate 32 x) = replicate 32 x" for x by (simp add: pad32_def)
  have x: "x25519 clear_crypto (replicate 32 a) (replicate 32 b) = replicate 32 (a XOR b)" for a b
    by (simp add: clear_crypto_def p map2_map_map [symmetric] zip_replicate)
  have "clock_within 1000 1005 300" by (subst clock_within_iff) simp_all
  moreover have "policy_accepted sample_client" by (simp add: policy_accepted_def sample_client_def session_policy_new_def)
  moreover have "x25519_public clear_crypto (replicate 32 a) = replicate 32 a" for a by (simp add: clear_crypto_def p)
  moreover have "replicate 32 (3 :: byte) \<noteq> replicate 32 0" by simp
  ultimately show "honest_setup clear_crypto sample_runtime sample_client sample_inputs sample_hello (replicate 32 2) 1005"
    by (simp add: honest_setup_def sample_client_def sample_runtime_def sample_inputs_def sample_hello_def client_hello_wf_def x)
qed

lemma clear_crypto_sized: "aead_sized clear_crypto"
  by (auto simp: aead_sized_def clear_crypto_def split: if_split_asm)

lemma sample_handshake:
  "\<exists>sh finish auth confirm est. inner_handshake clear_crypto sample_runtime sample_client sample_inputs
     (ws_script [client_hello_bytes sample_hello 1005, auth, confirm] []) = (Inr est, ws_script [] [sh, finish])"
  using honest_handshake [OF clear_crypto_ok sample_setup, of 1280] unfolding Let_def by simp blast

section \<open>Properties\<close>

text \<open>The parser of the client hello is exact: it accepts a message precisely when it is the encoding of a
  hello of version 1 and suite 1, with fields of the right sizes, no retry cookie, no extensions and
  nothing behind them, whose time passes the clock check.\<close>

theorem client_hello_exact:
  "parse_client_hello (Inr now) encoded = Inr ch \<longleftrightarrow>
     (\<exists>t. encoded = client_hello_bytes ch t \<and> client_hello_wf ch \<and> clock_within now t 300)"
  using parse_client_hello_reads parse_client_hello_bytes by blast

text \<open>The clock check of the hello and of the admission tokens, computed in wrapping 64-bit
  arithmetic, accepts exactly the times at most the window before or after now, and besides them one
  time half the range of the clock away, whose distance has no absolute value.\<close>

theorem clock_check_exact:
  assumes "window < 2 ^ 63"
  shows "clock_within now t window \<longleftrightarrow> unat (now - t) \<le> window \<or> unat (t - now) \<le> window \<or> t = now + 2 ^ 63"
  by (rule clock_within_iff [OF assms])

theorem clock_check_exact_witness:
  "clock_within 1000 (1000 + 2 ^ 63) 90 \<and> clock_within 1000 1090 90 \<and> \<not> clock_within 1000 1091 90"
  using clock_check_exact [of 90 1000 "1000 + 2 ^ 63"] clock_check_exact [of 90 1000 1090] clock_check_exact [of 90 1000 1091]
  by simp





end
