(* ===== verification/Reka_Admission.thy ===== *)
theory Reka_Admission
  imports Reka_Handshake
begin

text \<open>
  Who may start a handshake: the admission rate of \<open>Runtime\<close>, its gate and migration tokens with their
  replay caches, the registry of sessions that may migrate, and the three entry points (\<open>maybe_tunnel\<close>,
  \<open>h2_tunnel\<close> and \<open>handle_h3_session\<close> in \<open>main.rs\<close>) up to the admission decision; and the token that the
  client's bridge builds (\<open>bin/h3_bridge.rs\<close>). The mutexes around the caches cannot be poisoned in a
  program that aborts on panic, so a locked section is one step. Each clock reading of a request is an
  argument.
\<close>

section \<open>Model\<close>

definition gate_window_secs :: nat where "gate_window_secs = 90"
definition gate_replay_secs :: nat where "gate_replay_secs = 180"
definition admission_window :: duration where "admission_window = 60 * 1000000000"
definition gate_replay_window :: duration where "gate_replay_window = gate_replay_secs * 1000000000"

record migration_entry =
  me_secret :: bytes
  me_replay :: "bytes \<rightharpoonup> instant"

record admission_state =
  ad_gate_replay :: "bytes \<times> bytes \<rightharpoonup> instant"
  ad_rates :: "(bytes \<times> instant list) list"
  ad_migrations :: "bytes \<rightharpoonup> migration_entry"
  ad_gate_rejected :: u64
  ad_draining :: bool
  ad_network_ready :: bool
  ad_h3_ready :: bool

datatype admission = HandshakeAdmission client | MigrationAdmission bytes

text \<open>The readings of the clocks during one request: wall-clock seconds, and the monotonic clock when the
  rate is checked, when a replay cache is cleaned and when the token is entered into it.\<close>

record request_clock =
  ck_unix :: "u64 result"
  ck_rate :: instant
  ck_cut :: instant
  ck_insert :: instant

definition check_admission_rate :: "admission_state \<Rightarrow> bytes \<Rightarrow> instant \<Rightarrow> unit result \<times> admission_state" where
  "check_admission_rate ad source now =
     (let cutoff = now - int admission_window;
          rates = filter (\<lambda>(_, attempts). attempts \<noteq> [] \<and> cutoff \<le> last attempts) (ad_rates ad)
      in if 8192 \<le> length rates \<and> map_of rates source = None
         then (Inl (Bail ''admission rate table full''), ad\<lparr>ad_rates := rates\<rparr>)
         else
           let attempts = dropWhile (\<lambda>seen. seen < cutoff) (case map_of rates source of Some a \<Rightarrow> a | None \<Rightarrow> [])
           in if 60 \<le> length attempts
              then (Inl (Bail ''admission rate exceeded''), ad\<lparr>ad_rates := AList.update source attempts rates\<rparr>)
              else (Inr (), ad\<lparr>ad_rates := AList.update source (attempts @ [now]) rates\<rparr>))"

definition retain_since :: "instant \<Rightarrow> ('k \<rightharpoonup> instant) \<Rightarrow> ('k \<rightharpoonup> instant)" where
  "retain_since cutoff m = (\<lambda>k. case m k of Some seen \<Rightarrow> if cutoff \<le> seen then Some seen else None | None \<Rightarrow> None)"

text \<open>The cleaning and the insertion that both token checks end with: whether the token is new, and the
  cache afterwards. The insertion happens in either case.\<close>

definition replay_insert :: "('k \<rightharpoonup> instant) \<Rightarrow> 'k \<Rightarrow> request_clock \<Rightarrow> bool \<times> ('k \<rightharpoonup> instant)" where
  "replay_insert m k clock =
     (let recent = retain_since (ck_cut clock - int gate_replay_window) m
      in (recent k = None, recent(k \<mapsto> ck_insert clock)))"

definition gate_message ::
    "string \<Rightarrow> bytes \<Rightarrow> string \<Rightarrow> string \<Rightarrow> string \<Rightarrow> bytes \<Rightarrow> u64 \<Rightarrow> bytes \<Rightarrow> bytes" where
  "gate_message label exporter http_method authority path client_id unix_time token_nonce =
     ascii label @ exporter @ ascii http_method @ [0] @ ascii authority @ [0] @ ascii path @ [0] @
     client_id @ be64 unix_time @ token_nonce"

definition validate_gate_token ::
    "crypto \<Rightarrow> config_env \<Rightarrow> runtime_config \<Rightarrow> admission_state \<Rightarrow> request_clock \<Rightarrow> string \<Rightarrow> string \<Rightarrow> bytes \<Rightarrow> string \<Rightarrow> string \<Rightarrow> string \<Rightarrow>
     client result \<times> admission_state" where
  "validate_gate_token C env rt ad clock encoded label exporter http_method authority path =
     attempt (ok_or (ce_base64 env encoded) (Bail ''invalid base64'')) ad (\<lambda>token.
     if length token \<noteq> 72 then (Inl (Bail ''invalid token length''), ad)
     else
     let client_id = subrange 0 16 token;
         unix_time = from_be (subrange 16 24 token);
         token_nonce = subrange 24 40 token;
         received_mac = subrange 40 72 token
     in
     attempt (ok_or (rt_clients rt client_id) (Bail ''unknown client'')) ad (\<lambda>client.
     attempt (ck_unix clock) ad (\<lambda>now.
     if \<not> clock_within now unix_time gate_window_secs then (Inl (Bail ''expired token''), ad)
     else
     attempt (hmac_bytes C (cl_gate_key client)
         (gate_message label exporter http_method authority path client_id unix_time token_nonce)) ad (\<lambda>expected.
     if expected \<noteq> received_mac then (Inl (Bail ''invalid gate MAC''), ad)
     else
     let (fresh, cache) = replay_insert (ad_gate_replay ad) (client_id, token_nonce) clock;
         ad' = ad\<lparr>ad_gate_replay := cache\<rparr>
     in if fresh then (Inr client, ad') else (Inl (Bail ''replayed gate token''), ad')))))"

definition validate_gate ::
    "crypto \<Rightarrow> config_env \<Rightarrow> runtime_config \<Rightarrow> admission_state \<Rightarrow> request_clock \<Rightarrow> string \<Rightarrow> string \<Rightarrow> string \<Rightarrow>
     client result \<times> admission_state" where
  "validate_gate C env rt ad clock encoded http_method path =
     validate_gate_token C env rt ad clock encoded ''RekaSerdoba/1 gate-lab'' [] http_method (rt_authority rt) path"

definition validate_h3_gate ::
    "crypto \<Rightarrow> config_env \<Rightarrow> runtime_config \<Rightarrow> admission_state \<Rightarrow> request_clock \<Rightarrow> string \<Rightarrow> bytes \<Rightarrow> string \<Rightarrow> string \<Rightarrow>
     client result \<times> admission_state" where
  "validate_h3_gate C env rt ad clock encoded exporter authority path =
     validate_gate_token C env rt ad clock encoded ''RekaSerdoba/1 gate'' exporter ''CONNECT'' authority path"

definition migration_message :: "bytes \<Rightarrow> bytes \<Rightarrow> u64 \<Rightarrow> bytes \<Rightarrow> u32 \<Rightarrow> bytes" where
  "migration_message exporter session_id unix_time token_nonce endpoint_id =
     ascii ''RekaSerdoba/1 migration gate'' @ exporter @ session_id @ be64 unix_time @ token_nonce @ be32 endpoint_id"

text \<open>The result of a migration check is the session whose channel takes the carrier.\<close>

definition validate_migration_gate ::
    "crypto \<Rightarrow> config_env \<Rightarrow> admission_state \<Rightarrow> request_clock \<Rightarrow> string \<Rightarrow> bytes \<Rightarrow> u32 \<Rightarrow> bytes result \<times> admission_state" where
  "validate_migration_gate C env ad clock encoded exporter endpoint_id =
     attempt (ok_or (ce_base64 env encoded) (Bail ''invalid base64'')) ad (\<lambda>token.
     if length token \<noteq> 72 then (Inl (Bail ''invalid migration token length''), ad)
     else
     let session_id = subrange 0 16 token;
         unix_time = from_be (subrange 16 24 token);
         token_nonce = subrange 24 40 token;
         received_mac = subrange 40 72 token
     in
     attempt (ok_or (ad_migrations ad session_id) (Bail ''unknown migration session'')) ad (\<lambda>entry.
     attempt (ck_unix clock) ad (\<lambda>now.
     if \<not> clock_within now unix_time gate_window_secs then (Inl (Bail ''expired migration token''), ad)
     else
     attempt (hmac_bytes C (me_secret entry)
         (migration_message exporter session_id unix_time token_nonce endpoint_id)) ad (\<lambda>expected.
     if expected \<noteq> received_mac then (Inl (Bail ''invalid migration MAC''), ad)
     else
     let (fresh, cache) = replay_insert (me_replay entry) token_nonce clock;
         ad' = ad\<lparr>ad_migrations := (ad_migrations ad)(session_id \<mapsto> entry\<lparr>me_replay := cache\<rparr>)\<rparr>
     in if fresh then (Inr session_id, ad') else (Inl (Bail ''replayed migration token''), ad')))))"

definition register_migration :: "admission_state \<Rightarrow> bytes \<Rightarrow> bytes \<Rightarrow> unit result \<times> admission_state" where
  "register_migration ad session_id secret =
     (let ad' = ad\<lparr>ad_migrations := (ad_migrations ad)(session_id \<mapsto> \<lparr>me_secret = secret, me_replay = Map.empty\<rparr>)\<rparr>
      in if ad_migrations ad session_id \<noteq> None then (Inl (Bail ''duplicate active session id''), ad') else (Inr (), ad'))"

definition migration_registration_drop :: "admission_state \<Rightarrow> bytes \<Rightarrow> admission_state" where
  "migration_registration_drop ad session_id = ad\<lparr>ad_migrations := (ad_migrations ad)(session_id := None)\<rparr>"

text \<open>The address a request is counted under. Parsing an address from text is an argument.\<close>

definition is_loopback :: "bytes \<Rightarrow> bool" where
  "is_loopback ip \<longleftrightarrow> length ip = 4 \<and> hd ip = 127 \<or> ip = replicate 15 0 @ [1]"

definition ascii_trim :: "string \<Rightarrow> string" where
  "ascii_trim s = (let blank = (\<lambda>c. (of_char c :: nat) = 32 \<or> 9 \<le> (of_char c :: nat) \<and> (of_char c :: nat) \<le> 13)
     in rev (dropWhile blank (rev (dropWhile blank s))))"

definition forwarded_source :: "(string \<Rightarrow> bytes option) \<Rightarrow> string option \<Rightarrow> bytes \<Rightarrow> bytes" where
  "forwarded_source parse_ip header fallback =
     (if \<not> is_loopback fallback then fallback
      else case header of
        None \<Rightarrow> fallback
      | Some text \<Rightarrow>
          (case parse_ip (ascii_trim (takeWhile (\<lambda>c. c \<noteq> CHR '','') text)) of Some ip \<Rightarrow> ip | None \<Rightarrow> fallback))"

definition is_operational :: "admission_state \<Rightarrow> bool" where
  "is_operational ad \<longleftrightarrow> \<not> ad_draining ad \<and> ad_network_ready ad \<and> ad_h3_ready ad"

definition count_rejected :: "admission_state \<Rightarrow> admission_state" where
  "count_rejected ad = ad\<lparr>ad_gate_rejected := ad_gate_rejected ad + 1\<rparr>"

definition strip_bearer :: "string \<Rightarrow> string option" where
  "strip_bearer auth = (if take 7 auth = ''Bearer '' then Some (drop 7 auth) else None)"

text \<open>The decision shared by the entry points: a gate token, else a migration token, else rejection. \<open>None\<close> is
  the plain 404 answer, or a closed connection on HTTP/3.\<close>

definition decide_admission ::
    "client result \<times> admission_state \<Rightarrow> (admission_state \<Rightarrow> bytes result \<times> admission_state) \<Rightarrow> admission option \<times> admission_state" where
  "decide_admission gate migrate =
     (case gate of
        (Inr client, ad) \<Rightarrow> (Some (HandshakeAdmission client), ad)
      | (Inl _, ad) \<Rightarrow>
          (case migrate ad of
             (Inr session, ad') \<Rightarrow> (Some (MigrationAdmission session), ad')
           | (Inl _, ad') \<Rightarrow> (None, count_rejected ad')))"

definition h2_path :: string where "h2_path = ''/connect/v1/h2''"

definition admit_wss ::
    "crypto \<Rightarrow> config_env \<Rightarrow> runtime_config \<Rightarrow> admission_state \<Rightarrow> request_clock \<Rightarrow> request_clock \<Rightarrow> string \<Rightarrow> bool \<Rightarrow> string option \<Rightarrow> bytes \<Rightarrow>
     admission option \<times> admission_state" where
  "admit_wss C env rt ad clock clock2 path upgradable authorization source =
     (if path \<noteq> rt_tunnel_path rt \<or> \<not> is_operational ad \<or> \<not> upgradable then (None, ad)
      else case Option.bind authorization strip_bearer of
        None \<Rightarrow> (None, ad)
      | Some encoded \<Rightarrow>
          (case check_admission_rate ad source (ck_rate clock) of
             (Inl _, ad1) \<Rightarrow> (None, count_rejected ad1)
           | (Inr _, ad1) \<Rightarrow>
               decide_admission (validate_gate C env rt ad1 clock encoded ''GET'' (rt_tunnel_path rt))
                 (\<lambda>ad2. validate_migration_gate C env ad2 clock2 encoded (replicate 32 0) 1)))"

definition admit_h2 ::
    "crypto \<Rightarrow> config_env \<Rightarrow> runtime_config \<Rightarrow> admission_state \<Rightarrow> request_clock \<Rightarrow> request_clock \<Rightarrow> string option \<Rightarrow> bytes \<Rightarrow>
     admission option \<times> admission_state" where
  "admit_h2 C env rt ad clock clock2 authorization source =
     (if \<not> is_operational ad then (None, ad)
      else case Option.bind authorization strip_bearer of
        None \<Rightarrow> (None, ad)
      | Some encoded \<Rightarrow>
          (case check_admission_rate ad source (ck_rate clock) of
             (Inl _, ad1) \<Rightarrow> (None, count_rejected ad1)
           | (Inr _, ad1) \<Rightarrow>
               decide_admission (validate_gate C env rt ad1 clock encoded ''POST'' h2_path)
                 (\<lambda>ad2. validate_migration_gate C env ad2 clock2 encoded (replicate 32 0) 1)))"

definition h3_exporter_context :: "crypto \<Rightarrow> string \<Rightarrow> string \<Rightarrow> bytes" where
  "h3_exporter_context C authority path = hash_parts C [ascii authority, [0], ascii path]"

text \<open>On HTTP/3 the token is the first message of the stream. \<open>exporter_for\<close> is the TLS exporter of the
  connection, \<open>utf8\<close> the conversion of the message to text, and \<open>late\<close> says that the token did not come within
  ten seconds.\<close>

definition admit_h3 ::
    "crypto \<Rightarrow> config_env \<Rightarrow> runtime_config \<Rightarrow> h3_config \<Rightarrow> (bytes \<Rightarrow> bytes option) \<Rightarrow> (bytes \<Rightarrow> string option) \<Rightarrow> admission_state \<Rightarrow>
     request_clock \<Rightarrow> request_clock \<Rightarrow> bytes \<Rightarrow> bool \<Rightarrow> carrier \<Rightarrow> admission option result \<times> admission_state \<times> carrier" where
  "admit_h3 C env rt cfg exporter_for utf8 ad clock clock2 peer late carrier =
     (if \<not> is_operational ad then (Inr None, ad, carrier)
      else case check_admission_rate ad peer (ck_rate clock) of
        (Inl _, ad1) \<Rightarrow> (Inr None, count_rejected ad1, carrier)
      | (Inr _, ad1) \<Rightarrow>
          (case exporter_for (h3_exporter_context C (hc_authority cfg) (hc_path cfg)) of
             None \<Rightarrow> (Inl (Bail ''H3 TLS exporter unavailable''), ad1, carrier)
           | Some exporter \<Rightarrow>
               (if late then (Inr None, count_rejected ad1, carrier_close carrier)
                else case recv_binary carrier of
                  (Inl _, c) \<Rightarrow> (Inr None, count_rejected ad1, carrier_close c)
                | (Inr token, c) \<Rightarrow>
                    (case utf8 token of
                       None \<Rightarrow> (Inl (Bail ''invalid H3 gate token encoding''), ad1, c)
                     | Some encoded \<Rightarrow>
                         (let (admitted, ad2) = decide_admission
                                (validate_h3_gate C env rt ad1 clock encoded exporter (hc_authority cfg) (hc_path cfg))
                                (\<lambda>ad2. validate_migration_gate C env ad2 clock2 encoded exporter 1)
                          in (Inr admitted, ad2, if admitted = None then carrier_close c else c))))))"

text \<open>The token of the bridge. \<open>encode\<close> is the base64 encoder, \<open>clock\<close> the reading of the wall clock and
  \<open>token_nonce\<close> the random bytes.\<close>

definition gate_token ::
    "crypto \<Rightarrow> (bytes \<Rightarrow> string) \<Rightarrow> u64 result \<Rightarrow> bytes \<Rightarrow> bytes \<Rightarrow> bytes \<Rightarrow> bytes \<Rightarrow> string \<Rightarrow> string \<Rightarrow> string result" where
  "gate_token C encode clock token_nonce client_id gate_key exporter authority path =
     and_then clock (\<lambda>unix_time.
     and_then (hmac_bytes C gate_key
         (ascii ''RekaSerdoba/1 gate'' @ exporter @ ascii ''CONNECT'' @ [0] @ ascii authority @ [0] @ ascii path @ [0] @
          client_id @ be64 unix_time @ token_nonce)) (\<lambda>mac.
     Inr (encode (client_id @ be64 unix_time @ token_nonce @ mac))))"

section \<open>The admission rate\<close>

lemma map_of_filter_distinct:
  "distinct (map fst xs) \<Longrightarrow> map_of (filter P xs) k = (case map_of xs k of Some v \<Rightarrow> if P (k, v) then Some v else None | None \<Rightarrow> None)"
proof (induction xs)
  case (Cons x xs)
  have "map_of xs (fst x) = None" using Cons.prems by (simp add: map_of_eq_None_iff)
  then show ?case using Cons by (cases x) auto
qed simp

text \<open>The attempts that the table holds for a source.\<close>

definition attempts_of :: "admission_state \<Rightarrow> bytes \<Rightarrow> instant list" where
  "attempts_of ad source = (case map_of (ad_rates ad) source of Some a \<Rightarrow> a | None \<Rightarrow> [])"

text \<open>What the table knows after the admissions \<open>A\<close> of a source, the last request being at \<open>t\<close>: all but the
  recorded attempts are older than a minute.\<close>

definition rate_inv :: "admission_state \<Rightarrow> bytes \<Rightarrow> instant \<Rightarrow> instant list \<Rightarrow> bool" where
  "rate_inv ad source t A \<longleftrightarrow> sorted A \<and> (\<forall>a\<in>set A. a \<le> t) \<and>
     (\<exists>old. A = old @ attempts_of ad source \<and> (\<forall>a\<in>set old. a < t - int admission_window)) \<and>
     (\<forall>T. length (filter (\<lambda>a. T - int admission_window \<le> a \<and> a \<le> T) A) \<le> 60)"

definition rates_wf :: "admission_state \<Rightarrow> bool" where
  "rates_wf ad \<longleftrightarrow> distinct (map fst (ad_rates ad)) \<and> length (ad_rates ad) \<le> 8192"

fun rate_run :: "admission_state \<Rightarrow> (bytes \<times> instant) list \<Rightarrow> (bytes \<times> instant) list \<times> admission_state" where
  "rate_run ad [] = ([], ad)"
| "rate_run ad ((source, now) # rest) =
     (let (r, ad1) = check_admission_rate ad source now; (out, ad2) = rate_run ad1 rest
      in (case r of Inr _ \<Rightarrow> (source, now) # out | Inl _ \<Rightarrow> out, ad2))"

lemma length_alist_update_le: "length (AList.update k v xs) \<le> Suc (length xs)"
  by (induction xs) auto

lemma length_alist_update_present: "map_of xs k \<noteq> None \<Longrightarrow> length (AList.update k v xs) = length xs"
  by (induction xs) (auto split: if_splits)

lemma check_rate_wf:
  assumes "rates_wf ad"
  shows "rates_wf (snd (check_admission_rate ad source now))"
proof -
  define rates where "rates = filter (\<lambda>(_, attempts). attempts \<noteq> [] \<and> now - int admission_window \<le> last attempts) (ad_rates ad)"
  have d: "distinct (map fst rates)" "length rates \<le> 8192"
    using assms le_trans [OF length_filter_le] by (auto simp: rates_wf_def rates_def distinct_map_filter)
  have "length (AList.update source v rates) \<le> 8192" if "\<not> (8192 \<le> length rates \<and> map_of rates source = None)" for v
    using that d(2) length_alist_update_le [of source v rates] length_alist_update_present [of rates source v] by auto
  then show ?thesis using d by (auto simp: check_admission_rate_def rates_wf_def rates_def [symmetric] Let_def AList.distinct_update)
qed

text \<open>What a check does to the attempts of a source: only old ones disappear, and an admission is appended.\<close>

definition forgets :: "instant \<Rightarrow> instant list \<Rightarrow> instant list \<Rightarrow> bool" where
  "forgets cutoff xs ys \<longleftrightarrow> (\<exists>gone. xs = gone @ ys \<and> (sorted xs \<longrightarrow> (\<forall>a\<in>set gone. a < cutoff)))"

lemma check_rate_attempts:
  assumes "rates_wf ad" and "check_admission_rate ad source now = (r, ad')"
  shows "forgets (now - int admission_window) (attempts_of ad s)
      (if s = source \<and> r = Inr () then butlast (attempts_of ad' s) else attempts_of ad' s) \<and>
    (s = source \<and> r = Inr () \<longrightarrow> attempts_of ad' s \<noteq> [] \<and> last (attempts_of ad' s) = now \<and> length (attempts_of ad' s) \<le> 60)"
proof -
  define cut where "cut = now - int admission_window"
  define rates where "rates = filter (\<lambda>(_, attempts). attempts \<noteq> [] \<and> cut \<le> last attempts) (ad_rates ad)"
  define live where "live = (\<lambda>k. case map_of rates k of Some a \<Rightarrow> a | None \<Rightarrow> [])"
  have live_eq: "live k = (if attempts_of ad k \<noteq> [] \<and> \<not> cut \<le> last (attempts_of ad k) then [] else attempts_of ad k)" for k
    using map_of_filter_distinct [of "ad_rates ad" "\<lambda>(_, attempts). attempts \<noteq> [] \<and> cut \<le> last attempts" k] assms(1)
    by (simp add: live_def rates_def rates_wf_def attempts_of_def split: option.split)
  have live: "forgets cut (attempts_of ad k) (live k)" for k
  proof (cases "attempts_of ad k \<noteq> [] \<and> \<not> cut \<le> last (attempts_of ad k)")
    case True
    then have "live k = []" by (simp add: live_eq)
    moreover have "a < cut" if "sorted (attempts_of ad k)" "a \<in> set (attempts_of ad k)" for a
    proof -
      have "a \<le> last (attempts_of ad k)"
        using that by (metis append_butlast_last_id insert_iff list.set(1) list.set(2) order_refl set_append sorted_append True Un_iff empty_iff)
      then show ?thesis using True by simp
    qed
    ultimately show ?thesis by (auto simp: forgets_def)
  next
    case False
    then have "live k = attempts_of ad k" by (auto simp: live_eq)
    then show ?thesis by (simp add: forgets_def)
  qed
  define kept where "kept = dropWhile (\<lambda>seen. seen < cut) (live source)"
  have kept: "forgets cut (attempts_of ad source) kept"
  proof -
    obtain gone where g: "attempts_of ad source = gone @ live source" "sorted (attempts_of ad source) \<longrightarrow> (\<forall>a\<in>set gone. a < cut)"
      using live [of source] unfolding forgets_def by blast
    have "\<forall>a\<in>set (takeWhile (\<lambda>seen. seen < cut) (live source)). a < cut" by (auto dest: set_takeWhileD)
    then show ?thesis using g unfolding forgets_def
      by (intro exI [of _ "gone @ takeWhile (\<lambda>seen. seen < cut) (live source)"]) (auto simp: kept_def)
  qed
  have def: "check_admission_rate ad source now =
     (if 8192 \<le> length rates \<and> map_of rates source = None then (Inl (Bail ''admission rate table full''), ad\<lparr>ad_rates := rates\<rparr>)
      else if 60 \<le> length kept then (Inl (Bail ''admission rate exceeded''), ad\<lparr>ad_rates := AList.update source kept rates\<rparr>)
      else (Inr (), ad\<lparr>ad_rates := AList.update source (kept @ [now]) rates\<rparr>))"
    by (simp add: check_admission_rate_def rates_def cut_def kept_def live_def Let_def)
  have upd: "attempts_of (ad\<lparr>ad_rates := AList.update source v rates\<rparr>) k = (if k = source then v else live k)" for k v
    by (simp add: attempts_of_def live_def AList.update_conv')
  have "attempts_of (ad\<lparr>ad_rates := rates\<rparr>) k = live k" for k by (simp add: attempts_of_def live_def)
  then show ?thesis
    using assms(2) live [of s] kept upd unfolding def cut_def [symmetric]
    by (cases "s = source") (auto split: if_split_asm)
qed

text \<open>A later request finds the same knowledge, at its own time.\<close>

lemma rate_inv_later: "rate_inv ad source t A \<Longrightarrow> t \<le> now \<Longrightarrow> rate_inv ad source now A"
  by (fastforce simp: rate_inv_def)

text \<open>The window that ends before the newest admission is the old one, and the window that contains it holds
  only attempts of the table.\<close>

lemma window_count:
  assumes old: "\<forall>a\<in>set old. a < now - int admission_window" and upper: "\<forall>a\<in>set (old @ kept). a \<le> now"
    and before: "\<forall>T. length (filter (\<lambda>a. T - int admission_window \<le> a \<and> a \<le> T) (old @ kept)) \<le> 60"
    and room: "length kept < 60"
  shows "length (filter (\<lambda>a. T - int admission_window \<le> a \<and> a \<le> T) (old @ kept @ [now])) \<le> 60"
proof (cases "now \<le> T")
  case True
  then have "filter (\<lambda>a. T - int admission_window \<le> a \<and> a \<le> T) old = []" using old by (auto simp: filter_empty_conv)
  moreover have "length (filter P (kept @ [now])) \<le> 60" for P
    using le_trans [OF length_filter_le, of "kept @ [now]" 60 P] room by (simp del: filter_append)
  ultimately show ?thesis by (simp del: filter_append add: filter_append [of _ old])
next
  case False
  then show ?thesis using before [rule_format, of T] by simp
qed

lemma rate_inv_check:
  assumes wf: "rates_wf ad" and inv: "rate_inv ad s now A" and step: "check_admission_rate ad source now = (r, ad')"
  shows "rate_inv ad' s now (if s = source \<and> r = Inr () then A @ [now] else A)"
proof -
  obtain old where A: "A = old @ attempts_of ad s" "\<forall>a\<in>set old. a < now - int admission_window"
    and s: "sorted A" "\<forall>a\<in>set A. a \<le> now"
    and w: "\<forall>T. length (filter (\<lambda>a. T - int admission_window \<le> a \<and> a \<le> T) A) \<le> 60"
    using inv by (auto simp: rate_inv_def)
  have sa: "sorted (attempts_of ad s)" using s(1) A(1) by (simp add: sorted_append)
  note att = check_rate_attempts [OF wf step, of s]
  show ?thesis
  proof (cases "s = source \<and> r = Inr ()")
    case True
    obtain gone where g: "attempts_of ad s = gone @ butlast (attempts_of ad' s)" "\<forall>a\<in>set gone. a < now - int admission_window"
      using att sa True by (auto simp: forgets_def)
    have new: "attempts_of ad' s = butlast (attempts_of ad' s) @ [now]" and len: "length (attempts_of ad' s) \<le> 60"
      using att True append_butlast_last_id [of "attempts_of ad' s"] by auto
    have split: "A = (old @ gone) @ butlast (attempts_of ad' s)" using A(1) g(1) by simp
    have room: "length (butlast (attempts_of ad' s)) < 60" using len by simp
    have past: "\<forall>a\<in>set (old @ gone). a < now - int admission_window" using A(2) g(2) by auto
    have "length (filter (\<lambda>a. T - int admission_window \<le> a \<and> a \<le> T) (A @ [now])) \<le> 60" for T
      using window_count [OF past s(2) [unfolded split] w [unfolded split] room, of T] by (simp only: split append.assoc)
    moreover have "A @ [now] = (old @ gone) @ attempts_of ad' s" using split new by (metis append.assoc)
    moreover have "sorted (A @ [now])" "\<forall>a\<in>set (A @ [now]). a \<le> now" using s by (auto simp: sorted_append)
    ultimately show ?thesis unfolding rate_inv_def if_P [OF True] using past by blast
  next
    case False
    obtain gone where "attempts_of ad s = gone @ attempts_of ad' s" "\<forall>a\<in>set gone. a < now - int admission_window"
      using att sa False by (auto simp: forgets_def)
    then have "A = (old @ gone) @ attempts_of ad' s" "\<forall>a\<in>set (old @ gone). a < now - int admission_window" using A by auto
    then show ?thesis using False s w unfolding rate_inv_def by auto
  qed
qed

lemma rate_run_inv:
  assumes "rates_wf ad" and "\<forall>s. rate_inv ad s t (A s)" and "sorted (t # map snd requests)"
    and "rate_run ad requests = (admitted, ad')"
  shows "rates_wf ad' \<and> (\<exists>t'. \<forall>s. rate_inv ad' s t' (A s @ map snd (filter (\<lambda>(source, _). source = s) admitted)))"
  using assms
proof (induction requests arbitrary: ad t A admitted)
  case (Cons request rest)
  obtain source now where q: "request = (source, now)" by fastforce
  obtain r ad1 where step: "check_admission_rate ad source now = (r, ad1)" by fastforce
  obtain out where run: "rate_run ad1 rest = (out, ad')" and adm: "admitted = (case r of Inr _ \<Rightarrow> (source, now) # out | Inl _ \<Rightarrow> out)"
    using Cons.prems(4) by (auto simp: q step split: prod.splits)
  have wf1: "rates_wf ad1" using check_rate_wf [OF Cons.prems(1), of source now] step by simp
  define A1 where "A1 = (\<lambda>s. if s = source \<and> r = Inr () then A s @ [now] else A s)"
  have "rate_inv ad1 s now (A1 s)" for s
    using rate_inv_check [OF Cons.prems(1) rate_inv_later step, of s t "A s"] Cons.prems(2, 3) by (simp add: A1_def q)
  then have "rates_wf ad' \<and> (\<exists>t'. \<forall>s. rate_inv ad' s t' (A1 s @ map snd (filter (\<lambda>(source, _). source = s) out)))"
    using Cons.IH [OF wf1 _ _ run, of now A1] Cons.prems(3) by (auto simp: q)
  moreover have "A1 s @ map snd (filter (\<lambda>(source, _). source = s) out) = A s @ map snd (filter (\<lambda>(source, _). source = s) admitted)" for s
    by (cases r) (auto simp: A1_def adm)
  ultimately show ?case by simp
qed auto

definition admission_new :: admission_state where
  "admission_new = \<lparr>ad_gate_replay = Map.empty, ad_rates = [], ad_migrations = Map.empty, ad_gate_rejected = 0,
     ad_draining = False, ad_network_ready = True, ad_h3_ready = True\<rparr>"



section \<open>Gate tokens\<close>

text \<open>The key of the replay cache under which a token is entered, and what its check does.\<close>

definition token_key :: "config_env \<Rightarrow> string \<Rightarrow> bytes \<times> bytes" where
  "token_key env encoded =
     (case ce_base64 env encoded of Some token \<Rightarrow> (subrange 0 16 token, subrange 24 40 token) | None \<Rightarrow> ([], []))"

record gate_request =
  gr_clock :: request_clock
  gr_encoded :: string
  gr_label :: string
  gr_exporter :: bytes
  gr_method :: string
  gr_authority :: string
  gr_path :: string

definition check_gate ::
    "crypto \<Rightarrow> config_env \<Rightarrow> runtime_config \<Rightarrow> admission_state \<Rightarrow> gate_request \<Rightarrow> client result \<times> admission_state" where
  "check_gate C env rt ad q = validate_gate_token C env rt ad (gr_clock q) (gr_encoded q) (gr_label q) (gr_exporter q)
     (gr_method q) (gr_authority q) (gr_path q)"

text \<open>What the check of a token guarantees for the client it returns.\<close>

definition gate_authentic :: "crypto \<Rightarrow> config_env \<Rightarrow> runtime_config \<Rightarrow> gate_request \<Rightarrow> client \<Rightarrow> bool" where
  "gate_authentic C env rt q client \<longleftrightarrow>
     (\<exists>client_id unix_time token_nonce mac now. ce_base64 env (gr_encoded q) = Some (client_id @ be64 unix_time @ token_nonce @ mac) \<and>
        length client_id = 16 \<and> length token_nonce = 16 \<and> length mac = 32 \<and>
        rt_clients rt client_id = Some client \<and> ck_unix (gr_clock q) = Inr now \<and> clock_within now unix_time gate_window_secs \<and>
        hmac_bytes C (cl_gate_key client) (gate_message (gr_label q) (gr_exporter q) (gr_method q) (gr_authority q) (gr_path q)
          client_id unix_time token_nonce) = Inr mac)"

lemma token_parts:
  assumes "length token = 72"
  shows "token = subrange 0 16 token @ be64 (from_be (subrange 16 24 token)) @ subrange 24 40 token @ subrange 40 72 token"
proof -
  have "be64 (from_be (subrange 16 24 token)) = subrange 16 24 token" using assms by (simp add: be_encode codec_simps)
  then show ?thesis using assms by (simp add: subrange_append_subrange codec_simps)
qed

lemma check_gate_cases:
  assumes "check_gate C env rt ad q = (r, ad')"
  shows "(\<exists>e. r = Inl e) \<and> ad' = ad \<or>
    (let (fresh, cache) = replay_insert (ad_gate_replay ad) (token_key env (gr_encoded q)) (gr_clock q)
     in ad' = ad\<lparr>ad_gate_replay := cache\<rparr> \<and> (if fresh then \<exists>client. r = Inr client \<and> gate_authentic C env rt q client else \<exists>e. r = Inl e))"
proof (cases "ce_base64 env (gr_encoded q)")
  case (Some token)
  show ?thesis
  proof (cases "length token = 72")
    case True
    have k: "token_key env (gr_encoded q) = (subrange 0 16 token, subrange 24 40 token)" by (simp add: token_key_def Some)
    have auth: "gate_authentic C env rt q client"
      if "rt_clients rt (subrange 0 16 token) = Some client" "ck_unix (gr_clock q) = Inr now"
        "clock_within now (from_be (subrange 16 24 token)) gate_window_secs"
        "hmac_bytes C (cl_gate_key client) (gate_message (gr_label q) (gr_exporter q) (gr_method q) (gr_authority q) (gr_path q)
          (subrange 0 16 token) (from_be (subrange 16 24 token)) (subrange 24 40 token)) = Inr (subrange 40 72 token)" for client now
      unfolding gate_authentic_def Some using that token_parts [OF True] True
      by (intro exI [of _ "subrange 0 16 token"] exI [of _ "from_be (subrange 16 24 token)"] exI [of _ "subrange 24 40 token"]
          exI [of _ "subrange 40 72 token"] exI [of _ now]) (simp add: codec_simps)
    obtain fresh cache where ins: "replay_insert (ad_gate_replay ad) (subrange 0 16 token, subrange 24 40 token) (gr_clock q) = (fresh, cache)"
      by fastforce
    show ?thesis using assms True auth unfolding k ins
      by (auto simp: check_gate_def validate_gate_token_def Some attempt_def ok_or_def Let_def ins
          split: option.split_asm sum.split_asm if_split_asm)
  qed (use assms Some in \<open>auto simp: check_gate_def validate_gate_token_def\<close>)
qed (use assms in \<open>auto simp: check_gate_def validate_gate_token_def\<close>)

text \<open>Requests checked one after the other, and the tokens accepted with the clocks of their requests.\<close>

fun gate_run ::
    "crypto \<Rightarrow> config_env \<Rightarrow> runtime_config \<Rightarrow> admission_state \<Rightarrow> gate_request list \<Rightarrow>
     (gate_request \<times> client) list \<times> admission_state" where
  "gate_run C env rt ad [] = ([], ad)"
| "gate_run C env rt ad (q # qs) =
     (let (r, ad1) = check_gate C env rt ad q; (out, ad2) = gate_run C env rt ad1 qs
      in (case r of Inr client \<Rightarrow> (q, client) # out | Inl _ \<Rightarrow> out, ad2))"

text \<open>The monotonic clock during the requests, from \<open>t\<close> on.\<close>

fun clocks_from :: "instant \<Rightarrow> gate_request list \<Rightarrow> bool" where
  "clocks_from t [] \<longleftrightarrow> True"
| "clocks_from t (q # qs) \<longleftrightarrow> t \<le> ck_cut (gr_clock q) \<and> ck_cut (gr_clock q) \<le> ck_insert (gr_clock q) \<and>
     clocks_from (ck_insert (gr_clock q)) qs"

text \<open>Every token accepted before \<open>t\<close> is still in the cache or was accepted more than 180 seconds ago.\<close>

definition remembered :: "('k \<rightharpoonup> instant) \<Rightarrow> instant \<Rightarrow> 'k \<Rightarrow> instant \<Rightarrow> bool" where
  "remembered cache t k at \<longleftrightarrow> at \<le> t \<and> ((\<exists>seen. cache k = Some seen \<and> at \<le> seen) \<or> at + int gate_replay_window < t)"

lemma remembered_insert:
  assumes "remembered cache t k at" and "t \<le> ck_cut clock" and "ck_cut clock \<le> ck_insert clock"
    and "replay_insert cache k' clock = (fresh, cache')"
  shows "remembered cache' (ck_insert clock) k at" "fresh \<Longrightarrow> k = k' \<Longrightarrow> at + int gate_replay_window < ck_cut clock"
  using assms by (auto simp: remembered_def replay_insert_def retain_since_def Let_def split: option.splits if_split_asm)

lemma inserted_remembered:
  "replay_insert cache k clock = (fresh, cache') \<Longrightarrow> remembered cache' (ck_insert clock) k (ck_insert clock)"
  by (auto simp: remembered_def replay_insert_def Let_def)

lemma remembered_later: "remembered cache t k at \<Longrightarrow> t \<le> t' \<Longrightarrow> remembered cache t' k at"
  by (auto simp: remembered_def)

text \<open>A run accepts only authentic tokens, and none that its cache remembers.\<close>

lemma gate_run_separated:
  assumes "gate_run C env rt ad qs = (accepted, ad')" and "clocks_from t qs"
  shows "(\<forall>(q, client)\<in>set accepted. gate_authentic C env rt q client) \<and>
    (\<forall>k at. remembered (ad_gate_replay ad) t k at \<longrightarrow>
       (\<forall>(q, client)\<in>set accepted. token_key env (gr_encoded q) = k \<longrightarrow> at + int gate_replay_window < ck_cut (gr_clock q))) \<and>
    sorted_wrt (\<lambda>(q1, _) (q2, _). token_key env (gr_encoded q1) = token_key env (gr_encoded q2) \<longrightarrow>
       ck_insert (gr_clock q1) + int gate_replay_window < ck_cut (gr_clock q2)) accepted"
  using assms
proof (induction qs arbitrary: ad t accepted)
  case (Cons q qs)
  obtain r ad1 where c: "check_gate C env rt ad q = (r, ad1)" by fastforce
  obtain out where run: "gate_run C env rt ad1 qs = (out, ad')" and acc: "accepted = (case r of Inr client \<Rightarrow> (q, client) # out | Inl _ \<Rightarrow> out)"
    using Cons.prems(1) by (auto simp: c split: prod.splits)
  define k where "k = token_key env (gr_encoded q)"
  obtain fresh cache where ins: "replay_insert (ad_gate_replay ad) k (gr_clock q) = (fresh, cache)" by fastforce
  have mono: "t \<le> ck_cut (gr_clock q)" "ck_cut (gr_clock q) \<le> ck_insert (gr_clock q)" using Cons.prems(2) by auto
  note IH = Cons.IH [OF run, of "ck_insert (gr_clock q)"]
  have ih: "\<forall>(q, client)\<in>set out. gate_authentic C env rt q client"
    "\<forall>k at. remembered (ad_gate_replay ad1) (ck_insert (gr_clock q)) k at \<longrightarrow>
       (\<forall>(q, client)\<in>set out. token_key env (gr_encoded q) = k \<longrightarrow> at + int gate_replay_window < ck_cut (gr_clock q))"
    "sorted_wrt (\<lambda>(q1, _) (q2, _). token_key env (gr_encoded q1) = token_key env (gr_encoded q2) \<longrightarrow>
       ck_insert (gr_clock q1) + int gate_replay_window < ck_cut (gr_clock q2)) out"
    using IH Cons.prems(2) by auto
  from check_gate_cases [OF c, unfolded k_def [symmetric] ins]
  consider (rejected) e where "r = Inl e" "ad_gate_replay ad1 = ad_gate_replay ad" |
    (entered) e where "r = Inl e" "ad_gate_replay ad1 = cache" |
    (accepted) client where "r = Inr client" "ad_gate_replay ad1 = cache" "fresh" "gate_authentic C env rt q client"
    by (auto split: if_split_asm)
  then show ?case
  proof cases
    case rejected
    then show ?thesis using ih mono remembered_later [of "ad_gate_replay ad" t _ _ "ck_insert (gr_clock q)"] by (auto simp: acc)
  next
    case entered
    then show ?thesis using ih remembered_insert(1) [OF _ mono ins] by (auto simp: acc)
  next
    case accepted
    have "\<forall>(q', client)\<in>set out. token_key env (gr_encoded q') = k \<longrightarrow> ck_insert (gr_clock q) + int gate_replay_window < ck_cut (gr_clock q')"
      using ih(2) inserted_remembered [OF ins] accepted(2) by blast
    then show ?thesis using ih accepted remembered_insert [OF _ mono ins] by (auto simp: acc k_def)
  qed
qed simp

text \<open>C7. Gate tokens are single-use for as long as the cache remembers them: in any run of gate checks on a
  nondecreasing monotonic clock, every accepted token is authentic (its MAC is the HMAC, under the gate key of
  the client it names, of the label, TLS exporter, method, authority, path, client, time and nonce, and its
  time passes the clock check), and two acceptances with the same client and nonce are more than 180 seconds
  apart.\<close>

theorem gate_token_single_use:
  assumes "gate_run C env rt ad qs = (accepted, ad')" and "clocks_from t qs"
  shows "(\<forall>(q, client)\<in>set accepted. gate_authentic C env rt q client) \<and>
    (\<forall>i j. i < j \<and> j < length accepted \<and>
       token_key env (gr_encoded (fst (accepted ! i))) = token_key env (gr_encoded (fst (accepted ! j))) \<longrightarrow>
       ck_insert (gr_clock (fst (accepted ! i))) + int gate_replay_window < ck_cut (gr_clock (fst (accepted ! j))))"
  using gate_run_separated [OF assms] by (auto simp: sorted_wrt_iff_nth_less case_prod_beta)

text \<open>A token of time 1000 is accepted at wall time 910.0 s and again at 1090.9 s: both readings are at most 90
  whole seconds away, but the first acceptance left the cache 0.9 seconds earlier.\<close>

definition sample_token :: bytes where
  "sample_token = replicate 16 1 @ be64 1000 @ replicate 16 7 @ replicate 16 7 @ rev (be64 1000) @ replicate 8 1"

definition sample_gate_env :: config_env where
  "sample_gate_env = sample_env\<lparr>ce_base64 := (\<lambda>_. Some sample_token)\<rparr>"

definition sample_request :: "u64 \<Rightarrow> instant \<Rightarrow> gate_request" where
  "sample_request now at = \<lparr>gr_clock = \<lparr>ck_unix = Inr now, ck_rate = at, ck_cut = at, ck_insert = at\<rparr>, gr_encoded = ''token'',
     gr_label = ''RekaSerdoba/1 gate'', gr_exporter = replicate 32 9, gr_method = ''CONNECT'', gr_authority = ''a'', gr_path = ''/p''\<rparr>"

lemma be64_1000: "be64 1000 = [0, 0, 0, 0, 0, 0, 3, 232]"
  by (simp add: to_be_def upt_rec)

lemma sample_mac:
  "hmac_bytes clear_crypto key (gate_message l e m a p (replicate 16 1) 1000 (replicate 16 7)) =
     Inr (replicate 16 7 @ rev (be64 1000) @ replicate 8 1)"
  by (simp add: hmac_bytes_def clear_crypto_def gate_message_def pad32_def be64_1000 numeral_eq_Suc)

lemma sample_fields:
  "ce_base64 sample_gate_env e = Some sample_token" "length sample_token = 72" "subrange 0 16 sample_token = replicate 16 1"
  "from_be (subrange 16 24 sample_token) = (1000 :: u64)" "subrange 24 40 sample_token = replicate 16 7"
  "subrange 40 72 sample_token = replicate 16 7 @ rev (be64 1000) @ replicate 8 1"
  by (simp_all add: sample_gate_env_def sample_token_def codec_simps)

lemma sample_check:
  assumes "clock_within now 1000 gate_window_secs"
    and "replay_insert (ad_gate_replay ad) (replicate 16 1, replicate 16 7) (gr_clock (sample_request now at)) = (True, cache)"
  shows "check_gate clear_crypto sample_gate_env sample_runtime ad (sample_request now at) =
    (Inr sample_client, ad\<lparr>ad_gate_replay := cache\<rparr>)"
  using assms unfolding check_gate_def validate_gate_token_def
  by (simp add: sample_request_def sample_fields sample_mac sample_runtime_def)

lemma gate_token_accepted_twice:
  "fst (gate_run clear_crypto sample_gate_env sample_runtime admission_new
     [sample_request 910 910000000000, sample_request 1090 1090900000000]) =
   [(sample_request 910 910000000000, sample_client), (sample_request 1090 1090900000000, sample_client)]"
proof -
  have w: "clock_within 910 1000 gate_window_secs" "clock_within 1090 1000 gate_window_secs"
    by (simp_all add: clock_within_def i64_wrapping_abs_def gate_window_secs_def)
  define k :: "bytes \<times> bytes" where "k = (replicate 16 1, replicate 16 7)"
  have "replay_insert (ad_gate_replay admission_new) k (gr_clock (sample_request 910 910000000000)) = (True, [k \<mapsto> 910000000000])"
    by (simp add: replay_insert_def retain_since_def sample_request_def admission_new_def)
  from sample_check [OF w(1) this [unfolded k_def]]
  have 1: "check_gate clear_crypto sample_gate_env sample_runtime admission_new (sample_request 910 910000000000) =
      (Inr sample_client, admission_new\<lparr>ad_gate_replay := [k \<mapsto> 910000000000]\<rparr>)"
    by (simp add: k_def)
  have "replay_insert (ad_gate_replay (admission_new\<lparr>ad_gate_replay := [k \<mapsto> 910000000000]\<rparr>)) k
      (gr_clock (sample_request 1090 1090900000000)) =
      (True, (retain_since (1090900000000 - int gate_replay_window) [k \<mapsto> 910000000000])(k \<mapsto> 1090900000000))"
    by (simp add: replay_insert_def retain_since_def sample_request_def gate_replay_window_def gate_replay_secs_def)
  from sample_check [OF w(2) this [unfolded k_def]] show ?thesis by (simp add: 1 k_def)
qed

theorem gate_token_single_use_witness:
  "910000000000 + int gate_replay_window < 1090900000000 \<and>
   gate_authentic clear_crypto sample_gate_env sample_runtime (sample_request 910 910000000000) sample_client"
proof -
  obtain ad where r: "gate_run clear_crypto sample_gate_env sample_runtime admission_new
     [sample_request 910 910000000000, sample_request 1090 1090900000000] =
     ([(sample_request 910 910000000000, sample_client), (sample_request 1090 1090900000000, sample_client)], ad)"
    using gate_token_accepted_twice by (metis prod.collapse)
  have c: "clocks_from 0 [sample_request 910 910000000000, sample_request 1090 1090900000000]" by (simp add: sample_request_def)
  show ?thesis using gate_token_single_use [OF r c] by (force simp: sample_request_def)
qed

section \<open>Tokens of the client's bridge\<close>

text \<open>The token that the bridge builds is the one the server expects: checked by a server that knows the
  client with the same gate key, over the same TLS exporter, authority and path, within the clock window and
  not seen before, it is accepted and entered into the replay cache. \<open>encode\<close> and the decoder are base64,
  which decodes what it encoded.\<close>

theorem bridge_token_admitted:
  assumes "hash_sized C" and "\<And>bs. ce_base64 env (encode bs) = Some bs"
    and "gate_token C encode (Inr unix_time) token_nonce client_id (cl_gate_key client) exporter authority path = Inr encoded"
    and "length client_id = 16" and "length token_nonce = 16" and "rt_clients rt client_id = Some client"
    and "ck_unix clock = Inr now" and "clock_within now unix_time gate_window_secs"
    and "ad_gate_replay ad (client_id, token_nonce) = None"
  shows "\<exists>cache. validate_h3_gate C env rt ad clock encoded exporter authority path = (Inr client, ad\<lparr>ad_gate_replay := cache\<rparr>) \<and>
    cache (client_id, token_nonce) = Some (ck_insert clock)"
proof -
  obtain mac where mac: "hmac_bytes C (cl_gate_key client) (gate_message ''RekaSerdoba/1 gate'' exporter ''CONNECT'' authority path
      client_id unix_time token_nonce) = Inr mac" "length mac = 32"
    using hmac_bytes_ok [OF assms(1)] by blast
  then have e: "encoded = encode (client_id @ be64 unix_time @ token_nonce @ mac)"
    using assms(3) by (simp add: gate_token_def gate_message_def)
  have f: "ce_base64 env encoded = Some (client_id @ be64 unix_time @ token_nonce @ mac)" by (simp add: e assms(2))
  obtain cache where "replay_insert (ad_gate_replay ad) (client_id, token_nonce) clock = (True, cache)"
      "cache (client_id, token_nonce) = Some (ck_insert clock)"
    using assms(9) by (simp add: replay_insert_def retain_since_def)
  then show ?thesis
    using assms mac by (intro exI [of _ cache]) (simp add: validate_h3_gate_def validate_gate_token_def f codec_simps)
qed

definition text_of_bytes :: "bytes \<Rightarrow> string" where
  "text_of_bytes bs = map (\<lambda>b. char_of (unat b)) bs"

lemma ascii_text_of_bytes: "ascii (text_of_bytes bs) = bs"
proof -
  have "(of_char (char_of (unat b)) :: byte) = b" for b :: byte
  proof -
    have "(of_char (char_of (unat b)) :: byte) = of_nat (of_char (char_of (unat b)) :: nat)" by (simp only: of_nat_of_char)
    also have "\<dots> = of_nat (unat b)" using unsigned_less [of b, where 'a = nat] by (simp add: of_char_of)
    finally show ?thesis by simp
  qed
  then show ?thesis by (simp add: ascii_def text_of_bytes_def map_idI)
qed

theorem bridge_token_admitted_witness:
  "\<exists>encoded cache. gate_token clear_crypto text_of_bytes (Inr 1000) (replicate 16 7) (replicate 16 1) (replicate 32 3) (replicate 32 9) ''a'' ''/p'' = Inr encoded \<and>
     validate_h3_gate clear_crypto (sample_env\<lparr>ce_base64 := (\<lambda>s. Some (ascii s))\<rparr>) sample_runtime admission_new
       (gr_clock (sample_request 910 5)) encoded (replicate 32 9) ''a'' ''/p'' =
     (Inr sample_client, admission_new\<lparr>ad_gate_replay := cache\<rparr>) \<and> cache (replicate 16 1, replicate 16 7) = Some 5"
proof -
  obtain encoded where e: "gate_token clear_crypto text_of_bytes (Inr 1000) (replicate 16 7) (replicate 16 1) (cl_gate_key sample_client)
      (replicate 32 9) ''a'' ''/p'' = Inr encoded"
    using hmac_bytes_ok [OF clear_crypto_ok(3)] by (fastforce simp: gate_token_def and_then_Inr_iff)
  have b: "\<And>bs. ce_base64 (sample_env\<lparr>ce_base64 := (\<lambda>s. Some (ascii s))\<rparr>) (text_of_bytes bs) = Some bs"
    by (simp add: ascii_text_of_bytes)
  show ?thesis
    using bridge_token_admitted [OF clear_crypto_ok(3) b e, of sample_runtime "gr_clock (sample_request 910 5)" 910 admission_new] e
    by (simp add: sample_runtime_def sample_request_def admission_new_def clock_within_def i64_wrapping_abs_def gate_window_secs_def
        sample_client_def)
qed

section \<open>The entry points\<close>

definition migration_authentic :: "crypto \<Rightarrow> config_env \<Rightarrow> admission_state \<Rightarrow> request_clock \<Rightarrow> string \<Rightarrow> bytes \<Rightarrow> u32 \<Rightarrow> bytes \<Rightarrow> bool" where
  "migration_authentic C env ad clock encoded exporter endpoint_id session_id \<longleftrightarrow>
     (\<exists>entry unix_time token_nonce mac now. ce_base64 env encoded = Some (session_id @ be64 unix_time @ token_nonce @ mac) \<and>
        length session_id = 16 \<and> length token_nonce = 16 \<and> length mac = 32 \<and>
        ad_migrations ad session_id = Some entry \<and> ck_unix clock = Inr now \<and> clock_within now unix_time gate_window_secs \<and>
        hmac_bytes C (me_secret entry) (migration_message exporter session_id unix_time token_nonce endpoint_id) = Inr mac \<and>
        (\<forall>seen. me_replay entry token_nonce = Some seen \<longrightarrow> seen < ck_cut clock - int gate_replay_window))"

lemma if_bail_else_iff: "(if b then x else (Inl e, s)) = (Inr y, t) \<longleftrightarrow> b \<and> x = (Inr y, t)"
  by auto

lemma migration_gate_authentic:
  assumes "validate_migration_gate C env ad clock encoded exporter endpoint_id = (Inr session_id, ad')"
  shows "migration_authentic C env ad clock encoded exporter endpoint_id session_id"
proof -
  obtain token where t: "ce_base64 env encoded = Some token" "length token = 72"
    using assms by (auto simp: validate_migration_gate_def attempt_Inr_iff if_bail_iff)
  obtain entry now mac fresh cache where
    v: "ad_migrations ad (subrange 0 16 token) = Some entry" "ck_unix clock = Inr now"
      "clock_within now (from_be (subrange 16 24 token)) gate_window_secs"
      "hmac_bytes C (me_secret entry) (migration_message exporter (subrange 0 16 token) (from_be (subrange 16 24 token))
         (subrange 24 40 token) endpoint_id) = Inr mac" "mac = subrange 40 72 token"
      "replay_insert (me_replay entry) (subrange 24 40 token) clock = (fresh, cache)" "fresh"
      "subrange 0 16 token = session_id"
    using assms unfolding validate_migration_gate_def t(1) ok_or_simps attempt_simps Let_def
    by (simp only: attempt_Inr_iff case_prod_eq_iff if_bail_iff if_bail_else_iff not_not ok_or_Inr_iff
        prod.inject sum.inject) (elim exE conjE, rule that)
  have sid: "session_id = subrange 0 16 token" using v(8) by simp
  have "seen < ck_cut clock - int gate_replay_window" if "me_replay entry (subrange 24 40 token) = Some seen" for seen
    using v(6, 7) that by (auto simp: replay_insert_def retain_since_def Let_def split: if_split_asm)
  moreover have "ce_base64 env encoded =
      Some (session_id @ be64 (from_be (subrange 16 24 token)) @ subrange 24 40 token @ subrange 40 72 token)"
    using t(1) token_parts [OF t(2)] unfolding sid by simp
  ultimately show ?thesis using v(1-5) t(2) unfolding migration_authentic_def sid
    by (intro exI [of _ entry] exI [of _ "from_be (subrange 16 24 token)"] exI [of _ "subrange 24 40 token"]
        exI [of _ "subrange 40 72 token"] exI [of _ now]) (simp add: codec_simps)
qed

text \<open>The credentials behind an admission: the state \<open>ad1\<close> is the one after the rate check.\<close>

fun admission_backed ::
    "crypto \<Rightarrow> config_env \<Rightarrow> runtime_config \<Rightarrow> admission_state \<Rightarrow> request_clock \<Rightarrow> gate_request \<Rightarrow> bytes \<Rightarrow> admission \<Rightarrow> bool" where
  "admission_backed C env rt ad1 clock2 q exporter (HandshakeAdmission client) \<longleftrightarrow> gate_authentic C env rt q client"
| "admission_backed C env rt ad1 clock2 q exporter (MigrationAdmission session_id) \<longleftrightarrow>
     migration_authentic C env ad1 clock2 (gr_encoded q) exporter 1 session_id"

lemma decide_backed:
  assumes "decide_admission (check_gate C env rt ad1 q)
      (\<lambda>ad2. validate_migration_gate C env ad2 clock2 (gr_encoded q) exporter 1) = (Some a, ad')"
  shows "admission_backed C env rt ad1 clock2 q exporter a"
proof -
  obtain r ad2 where g: "check_gate C env rt ad1 q = (r, ad2)" by fastforce
  note cases = check_gate_cases [OF g]
  have same: "ad_migrations ad2 = ad_migrations ad1" using cases by (auto split: prod.splits)
  show ?thesis
  proof (cases r)
    case (Inl e)
    then show ?thesis using assms same
      by (auto simp: decide_admission_def g migration_authentic_def dest!: migration_gate_authentic split: sum.splits prod.splits)
  next
    case (Inr client)
    then show ?thesis using assms cases by (auto simp: decide_admission_def g split: prod.splits if_split_asm)
  qed
qed

lemma strip_bearer_Some: "strip_bearer auth = Some encoded \<longleftrightarrow> auth = ''Bearer '' @ encoded"
proof
  assume "strip_bearer auth = Some encoded"
  then show "auth = ''Bearer '' @ encoded"
    using append_take_drop_id [of 7 auth] by (auto simp: strip_bearer_def simp del: append_take_drop_id split: if_split_asm)
qed (simp add: strip_bearer_def)

text \<open>What an admission at an entry point rests on: the server is operational, the source passed the rate
  check, and the presented token backs the admission.\<close>

definition admitted_by ::
    "crypto \<Rightarrow> config_env \<Rightarrow> runtime_config \<Rightarrow> admission_state \<Rightarrow> bytes \<Rightarrow> request_clock \<Rightarrow> gate_request \<Rightarrow> bytes \<Rightarrow> admission \<Rightarrow> bool" where
  "admitted_by C env rt ad source clock2 q exporter a \<longleftrightarrow> is_operational ad \<and>
     (\<exists>ad1. check_admission_rate ad source (ck_rate (gr_clock q)) = (Inr (), ad1) \<and> admission_backed C env rt ad1 clock2 q exporter a)"

lemma decide_admitted_by:
  assumes "is_operational ad" and "check_admission_rate ad source (ck_rate (gr_clock q)) = (Inr u, ad1)"
    and "fst (decide_admission (validate_gate_token C env rt ad1 (gr_clock q) (gr_encoded q) (gr_label q) (gr_exporter q) (gr_method q)
       (gr_authority q) (gr_path q)) (\<lambda>ad2. validate_migration_gate C env ad2 clock2 (gr_encoded q) exporter 1)) = Some a"
  shows "admitted_by C env rt ad source clock2 q exporter a"
  using assms decide_backed [of C env rt ad1 q clock2 exporter a] by (auto simp: admitted_by_def check_gate_def fst_def split: prod.splits)

text \<open>C6. No entry point admits a connection without credentials: on WebSocket, HTTP/2 and HTTP/3 alike an
  admission means that the server is operational, the source is within its rate, and the presented token is a
  gate token authentic for this carrier (its label, exporter, method, authority and path) or a migration token
  authentic for a registered session.\<close>

theorem admission_requires_token:
  "(fst (admit_wss C env rt ad clock clock2 path upgradable authorization source) = Some a \<longrightarrow>
      path = rt_tunnel_path rt \<and> upgradable \<and> (\<exists>encoded. authorization = Some (''Bearer '' @ encoded) \<and>
        admitted_by C env rt ad source clock2 \<lparr>gr_clock = clock, gr_encoded = encoded, gr_label = ''RekaSerdoba/1 gate-lab'',
          gr_exporter = [], gr_method = ''GET'', gr_authority = rt_authority rt, gr_path = rt_tunnel_path rt\<rparr> (replicate 32 0) a)) \<and>
   (fst (admit_h2 C env rt ad clock clock2 authorization source) = Some a \<longrightarrow>
      (\<exists>encoded. authorization = Some (''Bearer '' @ encoded) \<and>
        admitted_by C env rt ad source clock2 \<lparr>gr_clock = clock, gr_encoded = encoded, gr_label = ''RekaSerdoba/1 gate-lab'',
          gr_exporter = [], gr_method = ''POST'', gr_authority = rt_authority rt, gr_path = h2_path\<rparr> (replicate 32 0) a)) \<and>
   (fst (admit_h3 C env rt cfg exporter_for utf8 ad clock clock2 source late carrier) = Inr (Some a) \<longrightarrow>
      (\<exists>exporter encoded. exporter_for (h3_exporter_context C (hc_authority cfg) (hc_path cfg)) = Some exporter \<and>
        (\<exists>token. fst (recv_binary carrier) = Inr token \<and> utf8 token = Some encoded) \<and>
        admitted_by C env rt ad source clock2 \<lparr>gr_clock = clock, gr_encoded = encoded, gr_label = ''RekaSerdoba/1 gate'',
          gr_exporter = exporter, gr_method = ''CONNECT'', gr_authority = hc_authority cfg, gr_path = hc_path cfg\<rparr> exporter a))"
proof (intro conjI impI)
  assume a: "fst (admit_wss C env rt ad clock clock2 path upgradable authorization source) = Some a"
  then show "path = rt_tunnel_path rt" "upgradable" by (auto simp: admit_wss_def split: if_split_asm)
  show "\<exists>encoded. authorization = Some (''Bearer '' @ encoded) \<and>
        admitted_by C env rt ad source clock2 \<lparr>gr_clock = clock, gr_encoded = encoded, gr_label = ''RekaSerdoba/1 gate-lab'',
          gr_exporter = [], gr_method = ''GET'', gr_authority = rt_authority rt, gr_path = rt_tunnel_path rt\<rparr> (replicate 32 0) a"
    using a by (auto simp: admit_wss_def validate_gate_def bind_eq_Some_conv strip_bearer_Some intro!: decide_admitted_by
        split: if_split_asm option.split_asm prod.split_asm sum.split_asm)
next
  assume a: "fst (admit_h2 C env rt ad clock clock2 authorization source) = Some a"
  show "\<exists>encoded. authorization = Some (''Bearer '' @ encoded) \<and>
        admitted_by C env rt ad source clock2 \<lparr>gr_clock = clock, gr_encoded = encoded, gr_label = ''RekaSerdoba/1 gate-lab'',
          gr_exporter = [], gr_method = ''POST'', gr_authority = rt_authority rt, gr_path = h2_path\<rparr> (replicate 32 0) a"
    using a by (auto simp: admit_h2_def validate_gate_def bind_eq_Some_conv strip_bearer_Some intro!: decide_admitted_by
        split: if_split_asm option.split_asm prod.split_asm sum.split_asm)
next
  assume a: "fst (admit_h3 C env rt cfg exporter_for utf8 ad clock clock2 source late carrier) = Inr (Some a)"
  then show "\<exists>exporter encoded. exporter_for (h3_exporter_context C (hc_authority cfg) (hc_path cfg)) = Some exporter \<and>
        (\<exists>token. fst (recv_binary carrier) = Inr token \<and> utf8 token = Some encoded) \<and>
        admitted_by C env rt ad source clock2 \<lparr>gr_clock = clock, gr_encoded = encoded, gr_label = ''RekaSerdoba/1 gate'',
          gr_exporter = exporter, gr_method = ''CONNECT'', gr_authority = hc_authority cfg, gr_path = hc_path cfg\<rparr> exporter a"
    by (auto simp: admit_h3_def validate_h3_gate_def intro!: decide_admitted_by
        split: if_split_asm option.split_asm prod.split_asm sum.split_asm)
qed

text \<open>The sample token opens an HTTP/2 tunnel.\<close>

lemma sample_h2_admitted:
  "fst (admit_h2 clear_crypto sample_gate_env sample_runtime admission_new (gr_clock (sample_request 910 5)) (gr_clock (sample_request 910 5))
     (Some ''Bearer token'') [10, 0, 0, 9]) = Some (HandshakeAdmission sample_client)"
proof -
  have "clock_within 910 1000 gate_window_secs" by (simp add: clock_within_def i64_wrapping_abs_def gate_window_secs_def)
  then have "fst (validate_gate clear_crypto sample_gate_env sample_runtime (admission_new\<lparr>ad_rates := [([10, 0, 0, 9], [5])]\<rparr>)
      (gr_clock (sample_request 910 5)) ''token'' ''POST'' h2_path) = Inr sample_client"
    by (simp add: validate_gate_def validate_gate_token_def sample_request_def sample_fields sample_mac sample_runtime_def replay_insert_def
        retain_since_def admission_new_def)
  then obtain ad where "validate_gate clear_crypto sample_gate_env sample_runtime (admission_new\<lparr>ad_rates := [([10, 0, 0, 9], [5])]\<rparr>)
      (gr_clock (sample_request 910 5)) ''token'' ''POST'' h2_path = (Inr sample_client, ad)"
    by (metis prod.collapse)
  moreover have "check_admission_rate admission_new [10, 0, 0, 9] (ck_rate (gr_clock (sample_request 910 5))) =
      (Inr (), admission_new\<lparr>ad_rates := [([10, 0, 0, 9], [5])]\<rparr>)"
    by (simp add: check_admission_rate_def admission_new_def sample_request_def)
  moreover have "is_operational admission_new" by (simp add: is_operational_def admission_new_def)
  ultimately show ?thesis by (simp add: admit_h2_def strip_bearer_def decide_admission_def)
qed

theorem admission_requires_token_witness:
  "\<exists>encoded. Some ''Bearer token'' = Some (''Bearer '' @ encoded) \<and>
     admitted_by clear_crypto sample_gate_env sample_runtime admission_new [10, 0, 0, 9] (gr_clock (sample_request 910 5))
       \<lparr>gr_clock = gr_clock (sample_request 910 5), gr_encoded = encoded, gr_label = ''RekaSerdoba/1 gate-lab'',
        gr_exporter = [], gr_method = ''POST'', gr_authority = rt_authority sample_runtime, gr_path = h2_path\<rparr> (replicate 32 0)
       (HandshakeAdmission sample_client)"
  using admission_requires_token [of clear_crypto sample_gate_env sample_runtime admission_new] sample_h2_admitted by blast

end
