(* ===== verification/Reka_Epochs.thy ===== *)
theory Reka_Epochs
  imports Reka_Rekey "HOL-Library.Sublist"
begin

text \<open>
  An abstract machine for the epochs of a session and the proof that the methods of \<open>RekeySession\<close>
  refine it. The abstract state keeps only the record layers of the current, pending and previous
  epoch; its moves are: seal with a sender of the current epoch, open with a receiver, stage the next
  epoch, promote the pending epoch, drop the previous epoch. Over this machine it is shown once that no
  record identifier is ever sealed twice or opened twice, over any number of rekeys.
\<close>

section \<open>The abstract machine\<close>

type_synonym layer_view = "u32 \<times> session_record_layer"

record key_view =
  kv_session_id :: bytes
  kv_current :: layer_view
  kv_pending :: "layer_view option"
  kv_previous :: "layer_view option"

text \<open>What a move shows to the outside: a sealed record, or the header of an opened one.\<close>

datatype key_out = Sent bytes | Opened record_header

definition layer_sender :: "record_kind \<Rightarrow> session_record_layer \<Rightarrow> record_sender" where
  "layer_sender k l = (case k of Data \<Rightarrow> sl_s2c_data l | Control \<Rightarrow> sl_s2c_control l)"

definition layer_receiver :: "record_kind \<Rightarrow> session_record_layer \<Rightarrow> record_receiver" where
  "layer_receiver k l = (case k of Data \<Rightarrow> sl_c2s_data l | Control \<Rightarrow> sl_c2s_control l)"

definition layer_set_sender :: "record_kind \<Rightarrow> record_sender \<Rightarrow> session_record_layer \<Rightarrow> session_record_layer" where
  "layer_set_sender k x l = (case k of Data \<Rightarrow> l\<lparr>sl_s2c_data := x\<rparr> | Control \<Rightarrow> l\<lparr>sl_s2c_control := x\<rparr>)"

definition layer_set_receiver :: "record_kind \<Rightarrow> record_receiver \<Rightarrow> session_record_layer \<Rightarrow> session_record_layer" where
  "layer_set_receiver k x l = (case k of Data \<Rightarrow> l\<lparr>sl_c2s_data := x\<rparr> | Control \<Rightarrow> l\<lparr>sl_c2s_control := x\<rparr>)"

fun view_layer :: "epoch_position \<Rightarrow> key_view \<Rightarrow> layer_view option" where
  "view_layer CurrentEpoch v = Some (kv_current v)"
| "view_layer PendingEpoch v = kv_pending v"
| "view_layer PreviousEpoch v = kv_previous v"

fun view_set_layer :: "epoch_position \<Rightarrow> layer_view \<Rightarrow> key_view \<Rightarrow> key_view" where
  "view_set_layer CurrentEpoch x v = v\<lparr>kv_current := x\<rparr>"
| "view_set_layer PendingEpoch x v = v\<lparr>kv_pending := Some x\<rparr>"
| "view_set_layer PreviousEpoch x v = v\<lparr>kv_previous := Some x\<rparr>"

inductive key_move :: "crypto \<Rightarrow> key_view \<Rightarrow> key_out list \<Rightarrow> key_view \<Rightarrow> bool" for C where
  move_seal:
    "kv_current v = (e, l) \<Longrightarrow> record_sender_seal C (layer_sender k l) p padded = (res, x) \<Longrightarrow>
     key_move C v (case res of Inl _ \<Rightarrow> [] | Inr rec \<Rightarrow> [Sent rec]) (v\<lparr>kv_current := (e, layer_set_sender k x l)\<rparr>)"
| move_open:
    "view_layer pos v = Some (e, l) \<Longrightarrow> record_receiver_open C (layer_receiver k l) bs = (res, x) \<Longrightarrow>
     record_header_parse bs = Inr h \<Longrightarrow>
     key_move C v (case res of Inl _ \<Rightarrow> [] | Inr _ \<Rightarrow> [Opened h]) (view_set_layer pos (e, layer_set_receiver k x l) v)"
| move_stage:
    "kv_pending v = None \<Longrightarrow> unat (fst (kv_current v)) + 1 < 2 ^ 32 \<Longrightarrow> epoch_keys_wf keys \<Longrightarrow>
     session_record_layer_new (kv_session_id v) (fst (kv_current v) + 1) keys default_replay_window = Inr l \<Longrightarrow>
     key_move C v [] (v\<lparr>kv_pending := Some (fst (kv_current v) + 1, l)\<rparr>)"
| move_promote:
    "kv_pending v = Some x \<Longrightarrow>
     key_move C v [] (v\<lparr>kv_current := x, kv_pending := None, kv_previous := Some (kv_current v)\<rparr>)"
| move_expire: "key_move C v [] (v\<lparr>kv_previous := None\<rparr>)"

inductive_cases key_moveE: "key_move C v outs v'"

inductive key_run :: "crypto \<Rightarrow> key_view \<Rightarrow> key_out list \<Rightarrow> key_view \<Rightarrow> bool" for C where
  run_nil: "key_run C v [] v"
| run_step: "key_move C v outs w \<Longrightarrow> key_run C w outs' x \<Longrightarrow> key_run C v (outs @ outs') x"

section \<open>Identifiers and the invariant\<close>

definition record_id :: "record_header \<Rightarrow> record_kind \<times> u32 \<times> u64" where
  "record_id h = (rh_kind h, rh_epoch h, rh_number h)"

fun sent_ids :: "key_out list \<Rightarrow> (record_kind \<times> u32 \<times> u64) list" where
  "sent_ids [] = []"
| "sent_ids (Sent rec # outs) =
     (case record_header_parse rec of Inl _ \<Rightarrow> sent_ids outs | Inr h \<Rightarrow> record_id h # sent_ids outs)"
| "sent_ids (Opened h # outs) = sent_ids outs"

fun opened_ids :: "key_out list \<Rightarrow> (record_kind \<times> u32 \<times> u64) list" where
  "opened_ids [] = []"
| "opened_ids (Opened h # outs) = record_id h # opened_ids outs"
| "opened_ids (Sent rec # outs) = opened_ids outs"

definition layer_ok ::
    "bytes \<Rightarrow> (record_kind \<times> u32 \<times> u64) set \<Rightarrow> layer_view \<Rightarrow> bool" where
  "layer_ok sid OS x \<longleftrightarrow> (\<forall>k.
     record_sender_wf (layer_sender k (snd x)) \<and>
     rs_kind (layer_sender k (snd x)) = k \<and> rs_session_id (layer_sender k (snd x)) = sid \<and>
     rs_epoch (layer_sender k (snd x)) = fst x \<and>
     rr_kind (layer_receiver k (snd x)) = k \<and> rr_session_id (layer_receiver k (snd x)) = sid \<and>
     rr_epoch (layer_receiver k (snd x)) = fst x \<and>
     replay_repr (rr_replay (layer_receiver k (snd x))) {n. (k, fst x, n) \<in> OS})"

text \<open>The identifiers a sender may have used, and those up to an epoch.\<close>

definition sent_range :: "layer_view \<Rightarrow> (record_kind \<times> u32 \<times> u64) set" where
  "sent_range x = {(k, e, n). unat e < unat (fst x) \<or> e = fst x \<and> n < rs_next_number (layer_sender k (snd x))}"

definition epochs_upto :: "nat \<Rightarrow> (record_kind \<times> u32 \<times> u64) set" where
  "epochs_upto m = {(k, e, n). unat e \<le> m}"

definition last_epoch :: "key_view \<Rightarrow> nat" where
  "last_epoch v = unat (fst (kv_current v)) + (if kv_pending v = None then 0 else 1)"

definition key_inv ::
    "key_view \<Rightarrow> (record_kind \<times> u32 \<times> u64) set \<Rightarrow> (record_kind \<times> u32 \<times> u64) set \<Rightarrow> bool" where
  "key_inv v SS OS \<longleftrightarrow> length (kv_session_id v) = 16 \<and>
     layer_ok (kv_session_id v) OS (kv_current v) \<and>
     (\<forall>x. kv_pending v = Some x \<longrightarrow> layer_ok (kv_session_id v) OS x \<and> unat (fst x) = unat (fst (kv_current v)) + 1) \<and>
     (\<forall>x. kv_previous v = Some x \<longrightarrow> layer_ok (kv_session_id v) OS x \<and> unat (fst x) + 1 = unat (fst (kv_current v))) \<and>
     SS \<subseteq> sent_range (kv_current v) \<and> OS \<subseteq> epochs_upto (last_epoch v)"

lemma layer_access [simp]:
  "layer_sender k (layer_set_sender k' x l) = (if k = k' then x else layer_sender k l)"
  "layer_receiver k (layer_set_sender k' x l) = layer_receiver k l"
  "layer_receiver k (layer_set_receiver k' y l) = (if k = k' then y else layer_receiver k l)"
  "layer_sender k (layer_set_receiver k' y l) = layer_sender k l"
  by (simp_all add: layer_sender_def layer_set_sender_def layer_receiver_def layer_set_receiver_def
      split: record_kind.splits)

lemma layer_ok_other:
  "layer_ok sid OS x \<Longrightarrow> e \<noteq> fst x \<Longrightarrow> layer_ok sid (insert (k, e, n) OS) x"
  by (auto simp: layer_ok_def)

lemma session_record_layer_new_ok:
  assumes "session_record_layer_new sid e keys default_replay_window = Inr l" and "epoch_keys_wf keys"
    and "length sid = 16" and "\<And>k n. (k, e, n) \<notin> OS"
  shows "layer_ok sid OS (e, l)"
proof -
  obtain r1 r2 where r: "replay_new default_replay_window = Inr r1" "replay_new default_replay_window = Inr r2"
    "l = \<lparr>sl_c2s_data = \<lparr>rr_kind = Data, rr_session_id = sid, rr_epoch = e, rr_key = ek_c2s_data keys, rr_replay = r1\<rparr>,
      sl_s2c_data = record_sender_new Data sid e (ek_s2c_data keys),
      sl_c2s_control = \<lparr>rr_kind = Control, rr_session_id = sid, rr_epoch = e, rr_key = ek_c2s_control keys, rr_replay = r2\<rparr>,
      sl_s2c_control = record_sender_new Control sid e (ek_s2c_control keys)\<rparr>"
    using assms(1) by (auto simp: session_record_layer_new_def record_receiver_new_def and_then_Inr_iff)
  have "replay_repr r1 {}" "replay_repr r2 {}" using replay_new_repr r(1,2) by blast+
  then show ?thesis using assms(2-4)
    by (auto simp: layer_ok_def r(3) layer_sender_def layer_receiver_def record_sender_new_def
        record_sender_wf_def epoch_keys_wf_def split: record_kind.splits)
qed

section \<open>Every move keeps the invariant and uses fresh identifiers\<close>

lemma move_seal_inv:
  assumes "key_inv v SS OS" and "kv_current v = (e, l)"
    and "record_sender_seal C (layer_sender k l) p padded = (res, x)"
    and "outs = (case res of Inl _ \<Rightarrow> [] | Inr rec \<Rightarrow> [Sent rec])"
    and "v' = v\<lparr>kv_current := (e, layer_set_sender k x l)\<rparr>"
  shows "distinct (sent_ids outs) \<and> set (sent_ids outs) \<inter> SS = {} \<and> opened_ids outs = [] \<and>
    key_inv v' (SS \<union> set (sent_ids outs)) OS"
proof -
  let ?s = "layer_sender k l"
  have ok: "layer_ok (kv_session_id v) OS (e, l)" using assms(1,2) by (simp add: key_inv_def)
  then have s: "record_sender_wf ?s" "rs_kind ?s = k" "rs_epoch ?s = e" "rs_session_id ?s = kv_session_id v"
    by (auto simp: layer_ok_def)
  note c = record_sender_seal_cases [OF assms(3) s(1)]
  have mono: "sent_range (e, l) \<subseteq> sent_range (e, layer_set_sender k x l)"
    using c by (auto simp: sent_range_def word_less_nat_alt)
  have ok': "layer_ok (kv_session_id v) OS (e, layer_set_sender k x l)"
    using ok c s by (auto simp: layer_ok_def sender_ctx_def)
  have SS: "SS \<subseteq> sent_range (e, layer_set_sender k x l)" "SS \<subseteq> sent_range (e, l)"
    using mono assms(1,2) by (auto simp: key_inv_def)
  have inv: "T \<subseteq> sent_range (e, layer_set_sender k x l) \<Longrightarrow> key_inv v' (SS \<union> T) OS" for T
    using assms(1,2) ok' SS by (simp add: assms(5) key_inv_def last_epoch_def)
  show ?thesis
  proof (cases res)
    case (Inl err)
    then show ?thesis using inv [of "{}"] by (simp add: assms(4))
  next
    case (Inr rec)
    let ?h = "sender_header ?s (rs_next_number ?s) (length p) padded"
    have h: "record_header_parse rec = Inr ?h" "record_id ?h = (k, e, rs_next_number ?s)"
      using c Inr s by (auto simp: record_id_def sender_header_def)
    have "rs_next_number ?s < rs_next_number x" using c Inr by (auto simp: word_less_nat_alt)
    then have "(k, e, rs_next_number ?s) \<in> sent_range (e, layer_set_sender k x l)"
      "(k, e, rs_next_number ?s) \<notin> sent_range (e, l)"
      by (simp_all add: sent_range_def)
    then show ?thesis using inv [of "{record_id ?h}"] SS(2) h Inr by (auto simp: assms(4))
  qed
qed

lemma key_inv_replace:
  assumes "key_inv v SS OS" and "view_layer pos v = Some x" and "fst x' = fst x"
    and "\<And>k. layer_sender k (snd x') = layer_sender k (snd x)"
    and "layer_ok (kv_session_id v) (insert (k, fst x, n) OS) x'"
  shows "key_inv (view_set_layer pos x' v) SS (insert (k, fst x, n) OS)"
proof -
  let ?OS = "insert (k, fst x, n) OS" and ?sid = "kv_session_id v"
  have keep: "layer_ok ?sid ?OS y" if "layer_ok ?sid OS y" "unat (fst x) \<noteq> unat (fst y)" for y
    using layer_ok_other [OF that(1), of "fst x" k n] that(2) by metis
  have sent: "sent_range x' = sent_range x" using assms(3,4) by (auto simp: sent_range_def)
  have base: "length ?sid = 16" "SS \<subseteq> sent_range (kv_current v)" "OS \<subseteq> epochs_upto (last_epoch v)"
    and cur: "layer_ok ?sid OS (kv_current v)"
    and pend: "\<And>y. kv_pending v = Some y \<Longrightarrow> layer_ok ?sid OS y \<and> unat (fst y) = unat (fst (kv_current v)) + 1"
    and prev: "\<And>y. kv_previous v = Some y \<Longrightarrow> layer_ok ?sid OS y \<and> unat (fst y) + 1 = unat (fst (kv_current v))"
    using assms(1) by (auto simp: key_inv_def)
  show ?thesis
  proof (cases pos)
    case CurrentEpoch
    then have x: "x = kv_current v" using assms(2) by simp
    have "?OS \<subseteq> epochs_upto (last_epoch v)" using base(3) by (simp add: x epochs_upto_def last_epoch_def)
    moreover have "\<And>y. kv_pending v = Some y \<Longrightarrow> layer_ok ?sid ?OS y"
      "\<And>y. kv_previous v = Some y \<Longrightarrow> layer_ok ?sid ?OS y"
      using keep pend prev by (metis n_not_Suc_n Suc_eq_plus1 x)+
    ultimately show ?thesis using base pend prev assms(3,5) sent
      by (simp add: CurrentEpoch key_inv_def last_epoch_def x)
  next
    case PendingEpoch
    then have x: "kv_pending v = Some x" using assms(2) by simp
    have "?OS \<subseteq> epochs_upto (last_epoch v)" using base(3) pend [OF x] x
      by (simp add: epochs_upto_def last_epoch_def)
    moreover have "layer_ok ?sid ?OS (kv_current v)" using keep [OF cur] pend [OF x] by simp
    moreover have "\<And>y. kv_previous v = Some y \<Longrightarrow> layer_ok ?sid ?OS y" using keep pend [OF x] prev by fastforce
    ultimately show ?thesis using base pend [OF x] prev assms(3,5) x
      by (simp add: PendingEpoch key_inv_def last_epoch_def)
  next
    case PreviousEpoch
    then have x: "kv_previous v = Some x" using assms(2) by simp
    have "?OS \<subseteq> epochs_upto (last_epoch v)" using base(3) prev [OF x]
      by (simp add: epochs_upto_def last_epoch_def)
    moreover have "layer_ok ?sid ?OS (kv_current v)" using keep [OF cur] prev [OF x] by simp
    moreover have "\<And>y. kv_pending v = Some y \<Longrightarrow> layer_ok ?sid ?OS y" using keep prev [OF x] pend by fastforce
    ultimately show ?thesis using base pend prev [OF x] assms(3,5)
      by (simp add: PreviousEpoch key_inv_def last_epoch_def)
  qed
qed

lemma move_open_inv:
  assumes "key_inv v SS OS" and "view_layer pos v = Some (e, l)"
    and "record_receiver_open C (layer_receiver k l) bs = (res, x)" and "record_header_parse bs = Inr h"
    and "outs = (case res of Inl _ \<Rightarrow> [] | Inr _ \<Rightarrow> [Opened h])"
    and "v' = view_set_layer pos (e, layer_set_receiver k x l) v"
  shows "distinct (opened_ids outs) \<and> set (opened_ids outs) \<inter> OS = {} \<and> sent_ids outs = [] \<and>
    key_inv v' SS (OS \<union> set (opened_ids outs))"
proof -
  let ?r = "layer_receiver k l" and ?sid = "kv_session_id v"
  have ok: "layer_ok ?sid OS (e, l)" using assms(1,2) by (cases pos) (auto simp: key_inv_def)
  have r: "rr_kind ?r = k" "rr_epoch ?r = e" "replay_repr (rr_replay ?r) {n. (k, e, n) \<in> OS}"
    using ok by (auto simp: layer_ok_def)
  note c = record_receiver_open_cases [OF assms(3) r(3)]
  show ?thesis
  proof (cases res)
    case (Inl err)
    then have "x = ?r" using c by simp
    then have "layer_set_receiver k x l = l"
      by (cases k) (simp_all add: layer_set_receiver_def layer_receiver_def)
    then have "v' = v" using assms(2) by (cases pos) (simp_all add: assms(6))
    then show ?thesis using Inl assms(1) by (simp add: assms(5))
  next
    case (Inr p)
    let ?id = "(k, e, rh_number h)"
    have id: "record_id h = ?id" and new: "?id \<notin> OS" and ctx: "receiver_ctx x = receiver_ctx ?r"
      and rep: "replay_repr (rr_replay x) (insert (rh_number h) {n. (k, e, n) \<in> OS})"
      using c Inr assms(4) r by (auto simp: record_id_def header_for_def)
    have set_eq: "insert (rh_number h) {n. (k, e, n) \<in> OS} = {n. (k, e, n) \<in> insert ?id OS}" by auto
    have ok': "layer_ok ?sid (insert ?id OS) (e, layer_set_receiver k x l)"
      using ok ctx rep unfolding set_eq by (auto simp: layer_ok_def receiver_ctx_def)
    have "key_inv v' SS (insert ?id OS)"
      using key_inv_replace [OF assms(1,2), of "(e, layer_set_receiver k x l)" k "rh_number h"] ok'
      by (simp add: assms(6))
    then show ?thesis using Inr id new by (simp add: assms(5))
  qed
qed

lemma move_stage_inv:
  assumes "key_inv v SS OS" and "kv_pending v = None" and "unat (fst (kv_current v)) + 1 < 2 ^ 32"
    and "epoch_keys_wf keys"
    and "session_record_layer_new (kv_session_id v) (fst (kv_current v) + 1) keys default_replay_window = Inr l"
  shows "key_inv (v\<lparr>kv_pending := Some (fst (kv_current v) + 1, l)\<rparr>) SS OS"
proof -
  let ?e = "fst (kv_current v) + 1"
  have e: "unat ?e = unat (fst (kv_current v)) + 1" using assms(3) by (simp add: unat_word_ariths)
  have "(k, ?e, n) \<notin> OS" for k n
    using assms(1,2) e by (auto simp: key_inv_def last_epoch_def epochs_upto_def)
  then have "layer_ok (kv_session_id v) OS (?e, l)"
    using session_record_layer_new_ok [OF assms(5,4)] assms(1) by (simp add: key_inv_def)
  then show ?thesis using assms(1,2) e
    by (auto simp: key_inv_def last_epoch_def epochs_upto_def)
qed

lemma move_promote_inv:
  assumes "key_inv v SS OS" and "kv_pending v = Some x"
  shows "key_inv (v\<lparr>kv_current := x, kv_pending := None, kv_previous := Some (kv_current v)\<rparr>) SS OS"
proof -
  have "unat (fst x) = unat (fst (kv_current v)) + 1" using assms by (simp add: key_inv_def)
  moreover from this have "sent_range (kv_current v) \<subseteq> sent_range x" by (auto simp: sent_range_def)
  ultimately show ?thesis using assms by (auto simp: key_inv_def last_epoch_def)
qed

lemma key_move_inv:
  assumes "key_move C v outs v'" and "key_inv v SS OS"
  shows "distinct (sent_ids outs) \<and> set (sent_ids outs) \<inter> SS = {} \<and>
    distinct (opened_ids outs) \<and> set (opened_ids outs) \<inter> OS = {} \<and>
    key_inv v' (SS \<union> set (sent_ids outs)) (OS \<union> set (opened_ids outs))"
  using assms(1)
proof (cases rule: key_move.cases)
  case (move_seal e l k p padded res x)
  from move_seal_inv [OF assms(2) move_seal(3,4,1,2)] show ?thesis by simp
next
  case (move_open pos e l k bs res x h)
  from move_open_inv [OF assms(2) move_open(3,4,5,1,2)] show ?thesis by simp
next
  case (move_stage keys l)
  then show ?thesis using move_stage_inv [OF assms(2)] by simp
next
  case (move_promote x)
  then show ?thesis using move_promote_inv [OF assms(2)] by simp
next
  case move_expire
  then show ?thesis using assms(2) by (simp add: key_inv_def last_epoch_def)
qed

lemma sent_ids_append: "sent_ids (xs @ ys) = sent_ids xs @ sent_ids ys"
  by (induction xs rule: sent_ids.induct) (auto split: sum.splits)

lemma opened_ids_append: "opened_ids (xs @ ys) = opened_ids xs @ opened_ids ys"
  by (induction xs rule: opened_ids.induct) auto

lemma key_run_fresh:
  assumes "key_run C v outs v'" and "key_inv v SS OS"
  shows "distinct (sent_ids outs) \<and> set (sent_ids outs) \<inter> SS = {} \<and>
    distinct (opened_ids outs) \<and> set (opened_ids outs) \<inter> OS = {} \<and>
    key_inv v' (SS \<union> set (sent_ids outs)) (OS \<union> set (opened_ids outs))"
  using assms
proof (induction arbitrary: SS OS)
  case (run_step v outs w outs' x)
  note m = key_move_inv [OF run_step.hyps(1) run_step.prems]
  show ?case using m run_step.IH [of "SS \<union> set (sent_ids outs)" "OS \<union> set (opened_ids outs)"]
    by (auto simp: sent_ids_append opened_ids_append Un_assoc)
qed simp

section \<open>The methods refine the machine\<close>

definition state_view :: "epoch_state \<Rightarrow> layer_view" where
  "state_view e = (es_epoch e, es_records e)"

definition rekey_view :: "rekey_session \<Rightarrow> key_view" where
  "rekey_view s =
     \<lparr>kv_session_id = rk_session_id s, kv_current = state_view (rk_current s),
      kv_pending = map_option (state_view \<circ> pe_state) (rk_pending s),
      kv_previous = map_option (state_view \<circ> pv_state) (rk_previous s)\<rparr>"

lemma rekey_view_simps [simp]:
  "rekey_view (s\<lparr>rk_transcript := t\<rparr>) = rekey_view s"
  "rekey_view (s\<lparr>rk_data_records := n\<rparr>) = rekey_view s"
  "rekey_view (s\<lparr>rk_plaintext_bytes := n\<rparr>) = rekey_view s"
  "rekey_view (s\<lparr>rk_update_requested := b\<rparr>) = rekey_view s"
  "rekey_view (s\<lparr>rk_update_deadline := d\<rparr>) = rekey_view s"
  "rekey_view (s\<lparr>rk_epoch_started := i\<rparr>) = rekey_view s"
  "rekey_view (reset_update s now) = rekey_view s"
  "kv_session_id (rekey_view s) = rk_session_id s"
  "kv_current (rekey_view s) = state_view (rk_current s)"
  by (simp_all add: rekey_view_def reset_update_def)

definition sent :: "bytes result \<Rightarrow> key_out list" where
  "sent res = (case res of Inl _ \<Rightarrow> [] | Inr rec \<Rightarrow> [Sent rec])"

lemma sent_simps [simp]: "sent (Inl e) = []" "sent (Inr rec) = [Sent rec]"
  by (simp_all add: sent_def)

lemma key_run_one: "key_move C v outs w \<Longrightarrow> key_run C v outs w"
  using run_step [OF _ run_nil, of C v outs w] by simp

lemma key_run_trans: "key_run C v outs w \<Longrightarrow> key_run C w outs' x \<Longrightarrow> key_run C v (outs @ outs') x"
  by (induction rule: key_run.induct) (auto intro: run_step)

lemma key_run_quiet: "key_run C v outs w \<Longrightarrow> key_run C w [] x \<Longrightarrow> key_run C v outs x"
  using key_run_trans [of C v outs w "[]" x] by simp

lemma rekey_view_current [simp]:
  "rekey_view (s\<lparr>rk_current := set_records l (rk_current s)\<rparr>) =
     (rekey_view s)\<lparr>kv_current := (es_epoch (rk_current s), l)\<rparr>"
  by (simp add: rekey_view_def set_records_def state_view_def)

lemma count_data_view: "count_data s n = (res, s') \<Longrightarrow> rekey_view s' = rekey_view s"
  by (auto simp: count_data_def Let_def split: if_splits)

lemma seal_control_run:
  assumes "seal_control C s p padded = (res, s')"
  shows "key_run C (rekey_view s) (sent res) (rekey_view s')"
proof -
  let ?l = "es_records (rk_current s)"
  obtain x where x: "record_sender_seal C (layer_sender Control ?l) p padded = (res, x)"
    "s' = s\<lparr>rk_current := set_records (layer_set_sender Control x ?l) (rk_current s)\<rparr>"
    using assms by (auto simp: seal_control_def layer_sender_def layer_set_sender_def Let_def split: prod.splits)
  show ?thesis unfolding sent_def x(2)
    using key_run_one [OF move_seal [OF _ x(1), of "rekey_view s" "es_epoch (rk_current s)"]]
    by (simp add: state_view_def)
qed

lemma seal_data_run:
  assumes "seal_data C s p padded = (res, s')"
  shows "key_run C (rekey_view s) (sent res) (rekey_view s')"
proof -
  obtain counted s1 where c: "count_data s (length p) = (counted, s1)" by fastforce
  note v = count_data_view [OF c]
  show ?thesis
  proof (cases counted)
    case (Inl e)
    then show ?thesis using assms v by (auto simp: seal_data_def c intro: run_nil)
  next
    case (Inr u)
    let ?l = "es_records (rk_current s1)"
    obtain x where x: "record_sender_seal C (layer_sender Data ?l) p padded = (res, x)"
      "s' = s1\<lparr>rk_current := set_records (layer_set_sender Data x ?l) (rk_current s1)\<rparr>"
      using assms Inr by (auto simp: seal_data_def c layer_sender_def layer_set_sender_def Let_def split: prod.splits)
    show ?thesis unfolding sent_def x(2) v [symmetric]
      using key_run_one [OF move_seal [OF _ x(1), of "rekey_view s1" "es_epoch (rk_current s1)"]]
      by (simp add: state_view_def)
  qed
qed

lemma seal_control_frame_run:
  assumes "seal_control_frame C s ft body = (res, s')"
  shows "key_run C (rekey_view s) (sent res) (rekey_view s')"
proof (cases "frame_encode \<lparr>fr_type = ft, fr_flags = 0, fr_body = body\<rparr>")
  case (Inl e)
  then have "res = Inl e" "s' = s" using assms by (auto simp: seal_control_frame_def)
  then show ?thesis by (simp add: run_nil)
next
  case (Inr bytes)
  then show ?thesis using assms by (simp add: seal_control_frame_def seal_control_run)
qed

lemma seal_control_frame_keeps:
  assumes "seal_control_frame C s ft body = (res, s')"
  shows "rk_session_id s' = rk_session_id s \<and> rk_pending s' = rk_pending s \<and> rk_previous s' = rk_previous s \<and>
    es_epoch (rk_current s') = es_epoch (rk_current s) \<and> es_secret (rk_current s') = es_secret (rk_current s) \<and>
    rk_transcript s' = rk_transcript s \<and> rk_update_requested s' = rk_update_requested s \<and>
    rk_update_deadline s' = rk_update_deadline s"
  using assms by (cases "frame_encode \<lparr>fr_type = ft, fr_flags = 0, fr_body = body\<rparr>")
    (auto simp: seal_control_frame_def seal_control_def set_records_def Let_def split: prod.splits)

lemma expire_previous_run: "key_run C (rekey_view s) [] (rekey_view (expire_previous s now))"
proof -
  have "key_run C (rekey_view s) [] (rekey_view (s\<lparr>rk_previous := None\<rparr>))"
    using key_run_one [OF move_expire, of C "rekey_view s"] by (simp add: rekey_view_def)
  then show ?thesis by (auto simp: expire_previous_def intro: run_nil split: option.split)
qed

text \<open>
  A method refines the machine when its final state is reached by a run that shows at least what the
  method returns. The rules follow the shape of the method bodies.
\<close>

definition refines ::
    "crypto \<Rightarrow> key_view \<Rightarrow> ('a \<Rightarrow> key_out list) \<Rightarrow> 'a result \<times> rekey_session \<Rightarrow> bool" where
  "refines C v out p \<longleftrightarrow> (\<exists>outs. key_run C v outs (rekey_view (snd p)) \<and>
     (case fst p of Inl _ \<Rightarrow> True | Inr x \<Rightarrow> subseq (out x) outs))"

lemma subseq_self [simp]: "subseq xs xs"
  by (rule subseq_order.order_refl)

lemma refines_error: "key_run C v outs (rekey_view s) \<Longrightarrow> refines C v out (Inl e, s)"
  by (auto simp: refines_def)

lemma refines_value: "key_run C v outs (rekey_view s) \<Longrightarrow> subseq (out x) outs \<Longrightarrow> refines C v out (Inr x, s)"
  by (auto simp: refines_def)

lemma refines_exact: "key_run C v (out x) (rekey_view s) \<Longrightarrow> refines C v out (Inr x, s)"
  by (auto simp: refines_def)

lemma refines_attempt:
  assumes "key_run C v outs (rekey_view s)" and "\<And>x. r = Inr x \<Longrightarrow> refines C v out (f x)"
  shows "refines C v out (attempt r s f)"
  using assms by (cases r) (auto intro: refines_error)

lemma refines_if:
  assumes "c \<Longrightarrow> refines C v out p" and "\<not> c \<Longrightarrow> refines C v out q"
  shows "refines C v out (if c then p else q)"
  using assms by simp

lemma refines_seal:
  assumes "key_run C v outs (rekey_view s)"
    and "\<And>res s'. seal_control_frame C s ft body = (res, s') \<Longrightarrow>
      key_run C v (outs @ sent res) (rekey_view s') \<Longrightarrow> refines C v out (g res s')"
  shows "refines C v out (case seal_control_frame C s ft body of (res, s') \<Rightarrow> g res s')"
proof -
  obtain res s' where p: "seal_control_frame C s ft body = (res, s')" by fastforce
  have "key_run C v (outs @ sent res) (rekey_view s')"
    using key_run_trans [OF assms(1) seal_control_frame_run [OF p]] .
  then show ?thesis using assms(2) [OF p] p by simp
qed

lemmas refines_intros = refines_if refines_attempt refines_error refines_seal

lemma request_update_if_due_refines:
  "refines C (rekey_view s) (\<lambda>x. case x of None \<Rightarrow> [] | Some rec \<Rightarrow> [Sent rec]) (request_update_if_due C s now)"
  unfolding request_update_if_due_def Let_def
  apply (intro refines_if)
     apply (rule refines_error [OF run_nil])
    apply (rule refines_value [OF run_nil], simp)
   apply (rule refines_value [OF run_nil], simp)
  apply (rule refines_seal [OF run_nil])
  apply (rule refines_attempt, assumption)
  apply (rule refines_value, simp, simp)
  done

lemma path_challenge_refines:
  "refines C (rekey_view s) (\<lambda>(rec, expected). [Sent rec]) (path_challenge C s m cid ch)"
  unfolding path_challenge_def Let_def
  apply (rule refines_if)
   apply (rule refines_error [OF run_nil])
  apply (rule refines_seal [OF run_nil])
  apply (rule refines_attempt, assumption)
  apply (rule refines_attempt, simp)
  apply (rule refines_value, simp, simp)
  done

lemma accept_path_response_refines:
  "refines C (rekey_view s) (\<lambda>_. []) (accept_path_response C s encoded body cid expected)"
  unfolding accept_path_response_def
  by (auto intro!: refines_if refines_error refines_value run_nil)

lemma epoch_keys_derive_wf: "epoch_keys_derive C secret sid e = Inr keys \<Longrightarrow> epoch_keys_wf keys"
  by (auto simp: epoch_keys_derive_def and_then_Inr_iff Let_def traffic_key_derive_def epoch_keys_wf_def traffic_key_wf_def)

lemma check_next_epoch_ok:
  "check_next_epoch s c n msg = Inr u \<longleftrightarrow> c = es_epoch (rk_current s) \<and> n = c + 1 \<and> unat c + 1 < 2 ^ 32"
  by (auto simp: check_next_epoch_def)

lemma stage_pending_run:
  assumes "stage_pending s n secret keys prf = Inr s'" and "rk_pending s = None"
    and "n = es_epoch (rk_current s) + 1" and "unat (es_epoch (rk_current s)) + 1 < 2 ^ 32" and "epoch_keys_wf keys"
  shows "key_run C (rekey_view s) [] (rekey_view s')"
proof -
  obtain l where l: "session_record_layer_new (rk_session_id s) n keys default_replay_window = Inr l"
    "s' = s\<lparr>rk_pending := Some \<lparr>pe_state = \<lparr>es_epoch = n, es_secret = secret, es_records = l\<rparr>, pe_proof = prf\<rparr>\<rparr>"
    using assms(1) by (auto simp: stage_pending_def and_then_Inr_iff)
  have "key_move C (rekey_view s) [] ((rekey_view s)\<lparr>kv_pending := Some (n, l)\<rparr>)"
    using move_stage [of "rekey_view s" keys l C] l(1) assms by (simp add: rekey_view_def state_view_def)
  moreover have "rekey_view s' = (rekey_view s)\<lparr>kv_pending := Some (n, l)\<rparr>"
    by (simp add: rekey_view_def l(2) state_view_def)
  ultimately show ?thesis using key_run_one by metis
qed

lemma accept_update_init_refines:
  "refines C (rekey_view s) (\<lambda>rec. [Sent rec]) (accept_update_init C s encoded body now)"
  unfolding accept_update_init_def Let_def
  apply (rule refines_if)
   apply (rule refines_error [OF run_nil])
  apply (rule refines_attempt [OF run_nil])
  apply (rule refines_attempt [OF run_nil])
  apply (rule refines_if)
   apply (rule refines_error [OF run_nil])
  apply (rule refines_attempt [OF run_nil])
  apply (rule refines_attempt [OF run_nil])
  apply (rule refines_attempt [OF run_nil])
  apply (rule refines_attempt, simp, rule run_nil)
  apply (rule refines_seal, simp, rule run_nil)
  apply (rule refines_attempt, assumption)
  apply (rule refines_attempt, simp)
  subgoal premises prems for u tag next_secret keys confirm_key ack res s2 rec s4
  proof -
    let ?s3 = "s2\<lparr>rk_transcript := transcript_next C (rk_transcript s2) rec\<rparr>"
    have k: "rk_pending s2 = None" "es_epoch (rk_current s2) = es_epoch (rk_current s)"
      using prems(1) seal_control_frame_keeps [OF prems(9)] by auto
    have "key_run C (rekey_view ?s3) [] (rekey_view s4)"
      by (rule stage_pending_run [OF prems(12)])
        (use prems(2,6) k in \<open>auto simp: check_next_epoch_ok epoch_keys_derive_wf\<close>)
    then have "key_run C (rekey_view s) [Sent rec] (rekey_view s4)"
      using key_run_quiet prems(10,11) by simp
    then show ?thesis
      by (intro refines_value [OF key_run_quiet [OF _ expire_previous_run] subseq_order.order_refl]) simp
  qed
  done

lemma accept_full_rekey_init_refines:
  "refines C (rekey_view s) (\<lambda>rec. [Sent rec]) (accept_full_rekey_init C s encoded body ck sk x now)"
  unfolding accept_full_rekey_init_def Let_def
  apply (rule refines_if)
   apply (rule refines_error [OF run_nil])
  apply (rule refines_attempt [OF run_nil])
  apply (rule refines_if)
   apply (rule refines_error [OF run_nil])
  apply (rule refines_seal, simp, rule run_nil)
  apply (rule refines_attempt, assumption)
  apply (rule refines_if)
   apply (rule refines_error, simp)
  apply (rule refines_attempt, simp)+
  subgoal premises prems for u res s2 rec next_secret keys kdf confirm_key s4
  proof -
    let ?s3 = "s2\<lparr>rk_transcript := transcript_next C (rk_transcript s2) rec\<rparr>"
    have k: "rk_pending s2 = None" "es_epoch (rk_current s2) = es_epoch (rk_current s)"
      using prems(1) seal_control_frame_keeps [OF prems(4)] by auto
    have "key_run C (rekey_view ?s3) [] (rekey_view s4)"
      by (rule stage_pending_run [OF prems(12)])
        (use prems(2,9) k in \<open>auto simp: check_next_epoch_ok epoch_keys_derive_wf\<close>)
    then have "key_run C (rekey_view s) [Sent rec] (rekey_view s4)"
      using key_run_quiet prems(5,6) by simp
    then show ?thesis
      by (intro refines_value [OF _ subseq_order.order_refl]) simp
  qed
  done

lemma promote_pending_run:
  assumes "rekey_view s1 = (rekey_view s)\<lparr>kv_pending := None\<rparr>" and "rk_pending s = Some pending"
    and "rk_current s1 = rk_current s"
  shows "key_run C (rekey_view s) [] (rekey_view (promote_pending s1 pending now))"
proof -
  have "kv_pending (rekey_view s) = Some (state_view (pe_state pending))"
    using assms(2) by (simp add: rekey_view_def)
  from key_run_one [OF move_promote [OF this], of C] show ?thesis
    using assms by (simp add: rekey_view_def promote_pending_def)
qed

lemma finish_update_refines:
  assumes "hash_sized C" and "rk_pending s = Some pending"
  shows "refines C (rekey_view s) (\<lambda>rec. [Sent rec]) (finish_update C s pending context key encoded e now)"
proof -
  let ?s1 = "s\<lparr>rk_transcript := transcript_next C (rk_transcript s) encoded, rk_pending := None\<rparr>"
  obtain t where t: "hmac_label C key ''server done'' context = Inr t"
    using hmac_bytes_ok [OF assms(1)] by (fastforce simp: hmac_label_def)
  have run: "key_run C (rekey_view s) [] (rekey_view (promote_pending ?s1 pending now))"
    by (rule promote_pending_run [OF _ assms(2)]) (simp_all add: rekey_view_def)
  show ?thesis unfolding finish_update_def Let_def t attempt_simps
    apply (rule refines_seal [OF run])
    apply (rule refines_attempt, assumption)
    apply (rule refines_value, simp, simp)
    done
qed

lemma accept_update_commit_refines:
  assumes "hash_sized C"
  shows "refines C (rekey_view s) (\<lambda>rec. [Sent rec]) (accept_update_commit C s encoded body now)"
  unfolding accept_update_commit_def Let_def
  by (intro refines_if refines_error [OF run_nil] refines_attempt [OF run_nil])
    (auto intro!: refines_if refines_error [OF run_nil] refines_attempt [OF run_nil] finish_update_refines [OF assms]
      split: pending_proof.split)

lemma accept_full_rekey_confirm_refines:
  assumes "hash_sized C"
  shows "refines C (rekey_view s) (\<lambda>rec. [Sent rec]) (accept_full_rekey_confirm C s encoded body now)"
  unfolding accept_full_rekey_confirm_def Let_def
  by (intro refines_if refines_error [OF run_nil] refines_attempt [OF run_nil])
    (auto intro!: refines_if refines_error [OF run_nil] refines_attempt [OF run_nil] finish_update_refines [OF assms]
      split: pending_proof.split)

lemma open_from_move:
  assumes "open_from C e k bs = (res, e')" and "view_layer pos v = Some (state_view e)"
    and "record_header_parse bs = Inr h"
  shows "key_run C v (case res of Inl _ \<Rightarrow> [] | Inr _ \<Rightarrow> [Opened h]) (view_set_layer pos (state_view e') v)"
proof -
  obtain x where x: "record_receiver_open C (layer_receiver k (es_records e)) bs = (res, x)"
    "e' = set_records (layer_set_receiver k x (es_records e)) e"
    using assms(1) by (cases k)
      (auto simp: open_from_def layer_receiver_def layer_set_receiver_def Let_def split: prod.splits)
  show ?thesis
    using key_run_one [OF move_open [OF _ x(1) assms(3)], of pos v "es_epoch e"] assms(2)
    by (simp add: x(2) state_view_def set_records_def)
qed

lemma refines_opened:
  assumes "key_run C v (case res of Inl _ \<Rightarrow> [] | Inr _ \<Rightarrow> [Opened h]) (rekey_view s1)"
    and "\<And>p. res = Inr p \<Longrightarrow> key_run C v [Opened h] (rekey_view s1) \<Longrightarrow> refines C v out (f p)"
  shows "refines C v out (attempt res s1 f)"
  using assms by (cases res) (auto intro: refines_error)

definition opened_out :: "opened_record \<Rightarrow> key_out list" where
  "opened_out r = [Opened (or_header r)]"

lemma rekey_open_previous_refines:
  assumes "record_header_parse bs = Inr h"
  shows "refines C (rekey_view s) opened_out (rekey_open_previous C s h bs now)"
proof (cases "rk_previous s")
  case None
  then show ?thesis by (simp add: rekey_open_previous_def refines_error [OF run_nil])
next
  case (Some pv)
  obtain res e where o: "open_from C (pv_state pv) (rh_kind h) bs = (res, e)" by fastforce
  have run: "key_run C (rekey_view s) (case res of Inl _ \<Rightarrow> [] | Inr _ \<Rightarrow> [Opened h])
      (rekey_view (s\<lparr>rk_previous := Some (pv\<lparr>pv_state := e\<rparr>)\<rparr>))"
    using open_from_move [OF o _ assms, of PreviousEpoch "rekey_view s"] Some by (simp add: rekey_view_def)
  have same: "rekey_view (s\<lparr>rk_previous := Some (pv\<lparr>pv_state := e, pv_remaining_records := n\<rparr>)\<rparr>) =
      rekey_view (s\<lparr>rk_previous := Some (pv\<lparr>pv_state := e\<rparr>)\<rparr>)" for n
    by (simp add: rekey_view_def)
  show ?thesis unfolding rekey_open_previous_def Some option.case Let_def o prod.case
    by (intro refines_if refines_error [OF run_nil] refines_opened [OF run] refines_exact)
      (simp_all add: same opened_out_def)
qed

lemma rekey_open_live_refines: "refines C (rekey_view s) opened_out (rekey_open_live C s bs now)"
  unfolding rekey_open_live_def
proof (rule refines_attempt [OF run_nil], rule refines_if, goal_cases)
  case (1 h)
  obtain res e where o: "open_from C (rk_current s) (rh_kind h) bs = (res, e)" by fastforce
  have run: "key_run C (rekey_view s) (case res of Inl _ \<Rightarrow> [] | Inr _ \<Rightarrow> [Opened h]) (rekey_view (s\<lparr>rk_current := e\<rparr>))"
    using open_from_move [OF o _ 1(1), of CurrentEpoch "rekey_view s"] by (simp add: rekey_view_def)
  show ?case unfolding o Let_def prod.case
  proof (rule refines_opened [OF run], goal_cases)
    case (1 p)
    obtain counted s2 where c: "(if rh_kind h = Data then count_data (s\<lparr>rk_current := e\<rparr>) (length p)
        else (Inr (), s\<lparr>rk_current := e\<rparr>)) = (counted, s2)" by fastforce
    have "rekey_view s2 = rekey_view (s\<lparr>rk_current := e\<rparr>)"
      using c count_data_view by (auto split: if_splits)
    then have run2: "key_run C (rekey_view s) [Opened h] (rekey_view s2)" using 1(2) by simp
    show ?case unfolding c prod.case
      by (rule refines_attempt [OF run2], rule refines_value [OF run2]) (simp add: opened_out_def)
  qed
next
  case (2 h)
  show ?case
  proof (cases "rk_pending s")
    case None
    then show ?thesis by (simp add: rekey_open_previous_refines [OF 2(1)])
  next
    case (Some pe)
    obtain res e where o: "open_from C (pe_state pe) (rh_kind h) bs = (res, e)" by fastforce
    have run: "key_run C (rekey_view s) (case res of Inl _ \<Rightarrow> [] | Inr _ \<Rightarrow> [Opened h])
        (rekey_view (s\<lparr>rk_pending := Some (pe\<lparr>pe_state := e\<rparr>)\<rparr>))"
      using open_from_move [OF o _ 2(1), of PendingEpoch "rekey_view s"] Some by (simp add: rekey_view_def)
    show ?thesis unfolding Some option.case o Let_def prod.case
      by (intro refines_if refines_error [OF run_nil] rekey_open_previous_refines [OF 2(1)] refines_opened [OF run]
          refines_exact) (simp_all add: opened_out_def)
  qed
qed

lemma rekey_open_refines: "refines C (rekey_view s) opened_out (rekey_open C s bs now)"
  using key_run_trans [OF expire_previous_run [of C s now]] rekey_open_live_refines [of C "expire_previous s now" bs now]
  unfolding refines_def rekey_open_def by fastforce

section \<open>Runs of a session\<close>

text \<open>The calls a session receives, in any order, with the arguments of the methods.\<close>

datatype rekey_event =
    SealData bytes bool
  | SealControl bytes bool
  | OpenRecord bytes instant
  | UpdateInit bytes bytes instant
  | UpdateCommit bytes bytes instant
  | FullRekeyInit bytes bytes bytes bytes bytes instant
  | FullRekeyConfirm bytes bytes instant
  | RequestUpdate instant
  | PathChallenge bytes bytes bytes
  | PathResponse bytes bytes bytes bytes

definition shown :: "('a \<Rightarrow> key_out list) \<Rightarrow> 'a result \<times> rekey_session \<Rightarrow> key_out list \<times> rekey_session" where
  "shown out p = ((case fst p of Inl _ \<Rightarrow> [] | Inr x \<Rightarrow> out x), snd p)"

fun rekey_step :: "crypto \<Rightarrow> rekey_session \<Rightarrow> rekey_event \<Rightarrow> key_out list \<times> rekey_session" where
  "rekey_step C s (SealData p padded) = shown (\<lambda>r. [Sent r]) (seal_data C s p padded)"
| "rekey_step C s (SealControl p padded) = shown (\<lambda>r. [Sent r]) (seal_control C s p padded)"
| "rekey_step C s (OpenRecord bs now) = shown opened_out (rekey_open C s bs now)"
| "rekey_step C s (UpdateInit bs body now) = shown (\<lambda>r. [Sent r]) (accept_update_init C s bs body now)"
| "rekey_step C s (UpdateCommit bs body now) = shown (\<lambda>r. [Sent r]) (accept_update_commit C s bs body now)"
| "rekey_step C s (FullRekeyInit bs body ck sk x now) =
     shown (\<lambda>r. [Sent r]) (accept_full_rekey_init C s bs body ck sk x now)"
| "rekey_step C s (FullRekeyConfirm bs body now) = shown (\<lambda>r. [Sent r]) (accept_full_rekey_confirm C s bs body now)"
| "rekey_step C s (RequestUpdate now) =
     shown (\<lambda>x. case x of None \<Rightarrow> [] | Some r \<Rightarrow> [Sent r]) (request_update_if_due C s now)"
| "rekey_step C s (PathChallenge m cid ch) = shown (\<lambda>(r, expected). [Sent r]) (path_challenge C s m cid ch)"
| "rekey_step C s (PathResponse bs body cid expected) = shown (\<lambda>_. []) (accept_path_response C s bs body cid expected)"

fun rekey_run :: "crypto \<Rightarrow> rekey_session \<Rightarrow> rekey_event list \<Rightarrow> key_out list \<times> rekey_session" where
  "rekey_run C s [] = ([], s)"
| "rekey_run C s (e # es) =
     (let (outs, s') = rekey_step C s e; (outs', t) = rekey_run C s' es in (outs @ outs', t))"

lemma refines_shown:
  assumes "refines C v out p"
  shows "\<exists>outs. key_run C v outs (rekey_view (snd (shown out p))) \<and> subseq (fst (shown out p)) outs"
  using assms by (auto simp: refines_def shown_def split: sum.splits)

lemma seal_refines:
  "refines C (rekey_view s) (\<lambda>r. [Sent r]) (seal_data C s p padded)"
  "refines C (rekey_view s) (\<lambda>r. [Sent r]) (seal_control C s p padded)"
proof -
  have "key_run C (rekey_view s) (sent (fst q)) (rekey_view (snd q)) \<Longrightarrow> refines C (rekey_view s) (\<lambda>r. [Sent r]) q" for q
    unfolding refines_def by (rule exI [of _ "sent (fst q)"]) (auto split: sum.split)
  then show "refines C (rekey_view s) (\<lambda>r. [Sent r]) (seal_data C s p padded)"
    "refines C (rekey_view s) (\<lambda>r. [Sent r]) (seal_control C s p padded)"
    using seal_data_run seal_control_run by (metis surjective_pairing)+
qed

lemma rekey_step_run:
  assumes "hash_sized C"
  shows "\<exists>outs. key_run C (rekey_view s) outs (rekey_view (snd (rekey_step C s e))) \<and>
    subseq (fst (rekey_step C s e)) outs"
  by (cases e) (simp_all add: refines_shown seal_refines rekey_open_refines accept_update_init_refines
      accept_update_commit_refines [OF assms] accept_full_rekey_init_refines
      accept_full_rekey_confirm_refines [OF assms] request_update_if_due_refines path_challenge_refines
      accept_path_response_refines)

lemma rekey_run_run:
  assumes "hash_sized C"
  shows "\<exists>outs. key_run C (rekey_view s) outs (rekey_view (snd (rekey_run C s es))) \<and>
    subseq (fst (rekey_run C s es)) outs"
proof (induction es arbitrary: s)
  case Nil
  then show ?case using run_nil by (intro exI [of _ "[]"]) simp
next
  case (Cons e es)
  obtain outs s' where st: "rekey_step C s e = (outs, s')" by fastforce
  obtain os1 where "key_run C (rekey_view s) os1 (rekey_view s')" "subseq outs os1"
    using rekey_step_run [OF assms, of s e] st by auto
  moreover obtain os2 where "key_run C (rekey_view s') os2 (rekey_view (snd (rekey_run C s' es)))"
    "subseq (fst (rekey_run C s' es)) os2" using Cons.IH by blast
  ultimately show ?case
    by (intro exI [of _ "os1 @ os2"]) (auto simp: st split_beta intro: key_run_trans list_emb_append_mono)
qed

lemma subseq_distinct: "subseq xs ys \<Longrightarrow> distinct ys \<Longrightarrow> distinct xs"
  by (induction rule: list_emb.induct) (auto dest: list_emb_set)

lemma sent_ids_subseq: "subseq xs ys \<Longrightarrow> subseq (sent_ids xs) (sent_ids ys)"
proof (induction rule: list_emb.induct)
  case (list_emb_Cons xs ys y)
  then show ?case by (cases y) (auto split: sum.splits)
next
  case (list_emb_Cons2 x y xs ys)
  then show ?case by (cases y) (auto split: sum.splits)
qed simp

lemma opened_ids_subseq: "subseq xs ys \<Longrightarrow> subseq (opened_ids xs) (opened_ids ys)"
proof (induction rule: list_emb.induct)
  case (list_emb_Cons xs ys y)
  then show ?case by (cases y) auto
next
  case (list_emb_Cons2 x y xs ys)
  then show ?case by (cases y) auto
qed simp

lemma rekey_session_new_inv:
  assumes "rekey_session_new C sid secret keys transcript now = Inr s" and "epoch_keys_wf keys" and "length sid = 16"
  shows "key_inv (rekey_view s) {} {}"
proof -
  obtain l where l: "session_record_layer_new sid 0 keys default_replay_window = Inr l"
    "rekey_view s = \<lparr>kv_session_id = sid, kv_current = (0, l), kv_pending = None, kv_previous = None\<rparr>"
    using assms(1) by (auto simp: rekey_session_new_def and_then_Inr_iff rekey_view_def state_view_def Let_def)
  then show ?thesis using session_record_layer_new_ok [OF l(1) assms(2,3), of "{}"] assms(3)
    by (simp add: key_inv_def)
qed

lemma rekey_run_inv:
  assumes "hash_sized C" and "rekey_session_new C sid secret keys transcript now = Inr s"
    and "epoch_keys_wf keys" and "length sid = 16"
  shows "\<exists>SS OS. key_inv (rekey_view (snd (rekey_run C s es))) SS OS \<and>
    distinct (sent_ids (fst (rekey_run C s es))) \<and> distinct (opened_ids (fst (rekey_run C s es)))"
proof -
  obtain outs where o: "key_run C (rekey_view s) outs (rekey_view (snd (rekey_run C s es)))"
    "subseq (fst (rekey_run C s es)) outs" using rekey_run_run [OF assms(1)] by blast
  note f = key_run_fresh [OF o(1) rekey_session_new_inv [OF assms(2-4)]]
  show ?thesis
    using f subseq_distinct [OF sent_ids_subseq [OF o(2)]] subseq_distinct [OF opened_ids_subseq [OF o(2)]]
    by blast
qed

lemma key_run_epoch_mono:
  assumes "key_run C v outs v'" and "key_inv v SS OS"
  shows "unat (fst (kv_current v)) \<le> unat (fst (kv_current v'))"
  using assms
proof (induction arbitrary: SS OS)
  case (run_step v outs w outs' x)
  have "unat (fst (kv_current v)) \<le> unat (fst (kv_current w))"
    using run_step.hyps(1)
  proof (cases rule: key_move.cases)
    case (move_open pos e l k bs res y h)
    then show ?thesis by (cases pos) auto
  next
    case (move_promote y)
    then show ?thesis using run_step.prems by (simp add: key_inv_def)
  qed auto
  moreover note run_step.IH key_move_inv [OF run_step.hyps(1) run_step.prems]
  ultimately show ?case using order_trans by blast
qed simp

section \<open>Deadlines and grace counters\<close>

definition rekey_flags_ok :: "rekey_session \<Rightarrow> bool" where
  "rekey_flags_ok s \<longleftrightarrow> (rk_pending s \<noteq> None \<longrightarrow> rk_update_deadline s \<noteq> None) \<and>
     (rk_update_requested s \<longleftrightarrow> rk_update_deadline s \<noteq> None) \<and>
     (\<forall>pv. rk_previous s = Some pv \<longrightarrow> pv_remaining_records pv \<le> old_epoch_records)"

lemma flags_attempt:
  assumes "rekey_flags_ok s" and "\<And>x. r = Inr x \<Longrightarrow> rekey_flags_ok (snd (f x))"
  shows "rekey_flags_ok (snd (attempt r s f))"
  using assms by (cases r) auto

lemma flags_if:
  assumes "c \<Longrightarrow> rekey_flags_ok (snd p)" and "\<not> c \<Longrightarrow> rekey_flags_ok (snd q)"
  shows "rekey_flags_ok (snd (if c then p else q))"
  using assms by simp

lemma flags_seal:
  assumes "rekey_flags_ok s" and "\<And>res s'. seal_control_frame C s ft body = (res, s') \<Longrightarrow> rekey_flags_ok s' \<Longrightarrow>
    rekey_flags_ok (snd (g res s'))"
  shows "rekey_flags_ok (snd (case seal_control_frame C s ft body of (res, s') \<Rightarrow> g res s'))"
proof -
  obtain res s' where p: "seal_control_frame C s ft body = (res, s')" by fastforce
  have "rekey_flags_ok s'" using assms(1) seal_control_frame_keeps [OF p] by (simp add: rekey_flags_ok_def)
  then show ?thesis using assms(2) [OF p] p by simp
qed

lemma flags_simps [simp]:
  "rekey_flags_ok (s\<lparr>rk_transcript := t\<rparr>) = rekey_flags_ok s"
  "rekey_flags_ok (s\<lparr>rk_current := e\<rparr>) = rekey_flags_ok s"
  "rekey_flags_ok (s\<lparr>rk_data_records := n\<rparr>) = rekey_flags_ok s"
  "rekey_flags_ok (s\<lparr>rk_plaintext_bytes := n\<rparr>) = rekey_flags_ok s"
  by (simp_all add: rekey_flags_ok_def)

lemma flags_count_data: "rekey_flags_ok s \<Longrightarrow> rekey_flags_ok (snd (count_data s n))"
  by (simp add: count_data_def Let_def)

lemma flags_expire: "rekey_flags_ok s \<Longrightarrow> rekey_flags_ok (expire_previous s now)"
  by (simp add: expire_previous_def rekey_flags_ok_def split: option.split)

lemma flags_seal_data:
  assumes "rekey_flags_ok s"
  shows "rekey_flags_ok (snd (seal_data C s p padded))" and "rekey_flags_ok (snd (seal_control C s p padded))"
proof -
  have "rekey_flags_ok (snd (count_data s (length p)))" using flags_count_data [OF assms] .
  then show "rekey_flags_ok (snd (seal_data C s p padded))"
    by (auto simp: seal_data_def Let_def split_beta intro!: flags_attempt)
  show "rekey_flags_ok (snd (seal_control C s p padded))"
    using assms by (simp add: seal_control_def Let_def split_beta)
qed

lemma flags_open_previous:
  assumes "rekey_flags_ok s"
  shows "rekey_flags_ok (snd (rekey_open_previous C s h bs now))"
proof (cases "rk_previous s")
  case None
  then show ?thesis using assms by (simp add: rekey_open_previous_def)
next
  case (Some pv)
  then have "pv_remaining_records pv \<le> old_epoch_records" using assms by (simp add: rekey_flags_ok_def)
  then have "rekey_flags_ok (s\<lparr>rk_previous := Some (pv\<lparr>pv_state := e\<rparr>)\<rparr>)"
    "rekey_flags_ok (s\<lparr>rk_previous := Some (pv\<lparr>pv_state := e, pv_remaining_records := pv_remaining_records pv - 1\<rparr>)\<rparr>)" for e
    using assms by (simp_all add: rekey_flags_ok_def)
  then show ?thesis using assms unfolding rekey_open_previous_def Some option.case Let_def split_beta
    by (intro flags_if flags_attempt) simp_all
qed

lemma flags_open:
  assumes "rekey_flags_ok s0"
  shows "rekey_flags_ok (snd (rekey_open C s0 bs now))"
proof -
  define s where "s = expire_previous s0 now"
  have s: "rekey_flags_ok s" using flags_expire [OF assms] by (simp add: s_def)
  have pend: "rekey_flags_ok (s\<lparr>rk_pending := Some y\<rparr>)" if "rk_pending s = Some x" for x y
    using s that by (simp add: rekey_flags_ok_def)
  have cnt: "rekey_flags_ok (snd (if b then count_data (s\<lparr>rk_current := e\<rparr>) n else (Inr (), s\<lparr>rk_current := e\<rparr>)))" for b e n
    using s by (simp add: flags_count_data)
  have "rekey_flags_ok (snd (rekey_open_live C s bs now))"
    unfolding rekey_open_live_def Let_def split_beta
    by (cases "rk_pending s")
      (auto intro!: flags_if flags_attempt simp del: if_split simp: s cnt pend flags_open_previous flags_count_data)
  then show ?thesis by (simp add: rekey_open_def s_def)
qed

lemma stage_pending_flags:
  assumes "stage_pending s n secret keys prf = Inr s'" and "rekey_flags_ok s"
  shows "rekey_flags_ok (s'\<lparr>rk_update_requested := True, rk_update_deadline := Some d\<rparr>)"
  using assms by (auto simp: stage_pending_def and_then_Inr_iff rekey_flags_ok_def)

lemma flags_update_init:
  assumes "rekey_flags_ok s"
  shows "rekey_flags_ok (snd (accept_update_init C s bs body now))"
    and "rekey_flags_ok (snd (accept_full_rekey_init C s bs body ck sk x now))"
  using assms unfolding accept_update_init_def accept_full_rekey_init_def Let_def
  by (intro flags_if flags_attempt flags_seal; simp add: flags_expire stage_pending_flags)+

lemma flags_finish:
  assumes "rekey_flags_ok s" and "rk_pending s = Some pending"
  shows "rekey_flags_ok (snd (finish_update C s pending context key bs e now))"
proof -
  have "rekey_flags_ok (s\<lparr>rk_transcript := t, rk_pending := None\<rparr>)" for t
    using assms by (simp add: rekey_flags_ok_def)
  moreover from this have "rekey_flags_ok (promote_pending (s\<lparr>rk_transcript := t, rk_pending := None\<rparr>) pending now)" for t
    by (simp add: rekey_flags_ok_def promote_pending_def)
  moreover have "rekey_flags_ok (reset_update r now)" if "rekey_flags_ok r" "rk_pending r = None" for r
    using that by (simp add: rekey_flags_ok_def reset_update_def)
  ultimately show ?thesis unfolding finish_update_def Let_def
    by (intro flags_attempt flags_seal) (auto dest: seal_control_frame_keeps simp: promote_pending_def)
qed

lemma flags_commit:
  assumes "rekey_flags_ok s"
  shows "rekey_flags_ok (snd (accept_update_commit C s bs body now))"
    and "rekey_flags_ok (snd (accept_full_rekey_confirm C s bs body now))"
  using assms unfolding accept_update_commit_def accept_full_rekey_confirm_def Let_def
  by (intro flags_if flags_attempt; auto split: pending_proof.split intro!: flags_if flags_attempt simp: flags_finish)+

lemma flags_request:
  assumes "rekey_flags_ok s"
  shows "rekey_flags_ok (snd (request_update_if_due C s now))" and "rekey_flags_ok (snd (path_challenge C s m cid ch))"
    and "rekey_flags_ok (snd (accept_path_response C s bs body cid expected))"
proof -
  have "rekey_flags_ok (r\<lparr>rk_transcript := t, rk_update_requested := True, rk_update_deadline := Some d\<rparr>)"
    if "rekey_flags_ok r" for r t d using that by (simp add: rekey_flags_ok_def)
  then show "rekey_flags_ok (snd (request_update_if_due C s now))"
    using assms unfolding request_update_if_due_def Let_def by (intro flags_if flags_attempt flags_seal) simp_all
  show "rekey_flags_ok (snd (path_challenge C s m cid ch))"
    using assms unfolding path_challenge_def Let_def by (intro flags_if flags_attempt flags_seal) simp_all
  show "rekey_flags_ok (snd (accept_path_response C s bs body cid expected))"
    using assms by (simp add: accept_path_response_def)
qed

interpretation rekey: event_machine "\<lambda>s e. snd (rekey_step C s e)" rekey_flags_ok for C
proof
  fix s e
  assume "rekey_flags_ok s"
  then show "rekey_flags_ok (snd (rekey_step C s e))"
    by (cases e) (simp_all add: shown_def flags_seal_data flags_open flags_update_init flags_commit flags_request)
qed

section \<open>What the handlers require and achieve\<close>

lemma seal_control_frame_ok:
  assumes "aead_correct C" and "record_sender_wf (sl_s2c_control (es_records (rk_current s)))"
    and "rs_next_number (sl_s2c_control (es_records (rk_current s))) < max_records_per_epoch" and "length body \<le> 4076"
  shows "\<exists>rec s'. seal_control_frame C s ft body = (Inr rec, s')"
proof -
  let ?s = "sl_s2c_control (es_records (rk_current s))"
  let ?p = "frame_bytes \<lparr>fr_type = ft, fr_flags = 0, fr_body = body\<rparr>"
  let ?a = "record_header_encode (sender_header ?s (rs_next_number ?s) (length ?p) False)"
  obtain ct where "aead_encrypt C (tk_key (rs_key ?s)) (nonce (tk_iv (rs_key ?s)) (rs_next_number ?s)) ?a ?p = Some ct"
    using aead_correctD [OF assms(1), of "tk_key (rs_key ?s)" "nonce (tk_iv (rs_key ?s)) (rs_next_number ?s)" ?p ?a] assms(2,4)
    by (auto simp: record_sender_wf_def traffic_key_wf_def length_nonce)
  then have "fst (record_sender_seal C ?s ?p False) = Inr (?a @ ct)"
    using assms(3,4) by (simp add: record_sender_seal_def traffic_key_seal_def Let_def not_le)
  moreover have "frame_encode \<lparr>fr_type = ft, fr_flags = 0, fr_body = body\<rparr> = Inr ?p"
    using assms(4) by (simp add: frame_encode_Inr frame_wf_def)
  ultimately have "fst (seal_control_frame C s ft body) = Inr (?a @ ct)"
    by (simp add: seal_control_frame_def seal_control_def Let_def split_beta)
  then show ?thesis by (metis surjective_pairing)
qed

lemma accept_update_init_success:
  assumes "accept_update_init C s encoded body now = (Inr ack, s')"
  shows "\<exists>update_nonce next_secret keys confirm_key records.
    let e = es_epoch (rk_current s);
        input = update_input (rk_session_id s) e (e + 1) update_nonce (rk_transcript s) in
    rk_pending s = None \<and> unat e + 1 < 2 ^ 32 \<and> length update_nonce = 32 \<and>
    (\<exists>tag. hmac_bytes C (es_secret (rk_current s)) input = Inr tag \<and>
       body = be32 e @ be32 (e + 1) @ update_nonce @ tag) \<and>
    hmac_bytes C (es_secret (rk_current s)) (sha256 C input) = Inr next_secret \<and>
    epoch_keys_derive C next_secret (rk_session_id s) (e + 1) = Inr keys \<and>
    confirmation_key C next_secret (rk_session_id s) (e + 1) = Inr confirm_key \<and>
    session_record_layer_new (rk_session_id s) (e + 1) keys default_replay_window = Inr records \<and>
    rk_pending s' = Some \<lparr>pe_state = \<lparr>es_epoch = e + 1, es_secret = next_secret, es_records = records\<rparr>,
      pe_proof = Routine (sha256 C input) confirm_key\<rparr> \<and>
    es_epoch (rk_current s') = e \<and> es_secret (rk_current s') = es_secret (rk_current s) \<and>
    rk_session_id s' = rk_session_id s \<and>
    rk_update_requested s' \<and> rk_update_deadline s' = Some (now + int update_timeout)"
proof -
  define e n u tag where "e = (from_be (subrange 0 4 body) :: u32)" and "n = (from_be (subrange 4 8 body) :: u32)"
    and "u = subrange 8 40 body" and "tag = subrange 40 72 body"
  define input where "input = update_input (rk_session_id s) e n u (rk_transcript s)"
  have len: "length body = 72" and pend: "rk_pending s = None"
    using assms by (auto simp: accept_update_init_def split: if_splits)
  have body: "body = be32 e @ be32 n @ u @ tag" and u: "length u = 32"
    using len take_subrange [of 0 4 body] take_subrange [of 4 8 body] take_subrange [of 8 40 body] take_subrange [of 40 72 body]
    by (simp_all add: e_def n_def u_def tag_def be_encode codec_simps)
      (metis append_assoc append_self_conv2 take_all_iff order_refl)
  obtain next_secret keys confirm_key ack_tag s2 s4 where
    chk: "check_next_epoch s e n ''invalid key update epoch'' = Inr ()"
    and t: "hmac_bytes C (es_secret (rk_current s)) input = Inr tag"
    and ns: "hmac_bytes C (es_secret (rk_current s)) (sha256 C input) = Inr next_secret"
    and keys: "epoch_keys_derive C next_secret (rk_session_id s) n = Inr keys"
    and ck: "confirmation_key C next_secret (rk_session_id s) n = Inr confirm_key"
    and seal: "seal_control_frame C (s\<lparr>rk_transcript := transcript_next C (rk_transcript s) encoded\<rparr>) 0x06
      (be32 n @ ack_tag) = (Inr ack, s2)"
    and stage: "stage_pending (s2\<lparr>rk_transcript := transcript_next C (rk_transcript s2) ack\<rparr>) n next_secret keys
      (Routine (sha256 C input) confirm_key) = Inr s4"
    and s': "s' = expire_previous (s4\<lparr>rk_update_requested := True, rk_update_deadline := Some (now + int update_timeout)\<rparr>) now"
    using assms len pend unfolding accept_update_init_def Let_def
    unfolding e_def [symmetric] n_def [symmetric] u_def [symmetric] tag_def [symmetric] input_def [symmetric]
    by (auto simp: attempt_Inr_iff case_prod_eq_iff split: if_splits)
  have ex: "rk_pending (expire_previous r now) = rk_pending r" "rk_current (expire_previous r now) = rk_current r"
    "rk_session_id (expire_previous r now) = rk_session_id r" "rk_update_requested (expire_previous r now) = rk_update_requested r"
    "rk_update_deadline (expire_previous r now) = rk_update_deadline r" for r
    by (simp_all add: expire_previous_def split: option.split)
  have "e = es_epoch (rk_current s)" "n = e + 1" "unat e + 1 < 2 ^ 32" using chk by (auto simp: check_next_epoch_ok)
  then show ?thesis
    using pend body u t ns keys ck stage seal_control_frame_keeps [OF seal]
    by (intro exI [of _ u] exI [of _ next_secret] exI [of _ keys] exI [of _ confirm_key])
      (auto simp: Let_def input_def s' ex stage_pending_def and_then_Inr_iff)
qed

lemma finish_update_success:
  assumes "finish_update C s pending context key encoded n now = (Inr rec, s')"
  shows "es_epoch (rk_current s') = es_epoch (pe_state pending) \<and>
    es_secret (rk_current s') = es_secret (pe_state pending) \<and> rk_pending s' = None \<and>
    rk_previous s' = Some \<lparr>pv_state = rk_current s, pv_expires_at = now + int old_epoch_grace,
      pv_remaining_records = old_epoch_records\<rparr> \<and>
    rk_epoch_started s' = now \<and> rk_data_records s' = 0 \<and> rk_plaintext_bytes s' = 0 \<and>
    \<not> rk_update_requested s' \<and> rk_update_deadline s' = None"
  using assms
  by (auto simp: finish_update_def Let_def attempt_Inr_iff case_prod_eq_iff reset_update_def promote_pending_def
      dest!: seal_control_frame_keeps)

lemma commit_body:
  assumes "length body = 36"
  shows "body = be32 (from_be (subrange 0 4 body)) @ subrange 4 36 body"
  using assms take_subrange [of 0 4 body] take_subrange [of 4 36 body]
  by (simp add: be_encode codec_simps)

lemma accept_update_commit_success:
  assumes "accept_update_commit C s encoded body now = (Inr rec, s')"
  shows "\<exists>pending context key tag. rk_pending s = Some pending \<and> pe_proof pending = Routine context key \<and>
    hmac_label C key ''client commit'' context = Inr tag \<and> body = be32 (es_epoch (pe_state pending)) @ tag \<and>
    finish_update C s pending context key encoded (es_epoch (pe_state pending)) now = (Inr rec, s')"
proof -
  have len: "length body = 36" using assms by (auto simp: accept_update_commit_def split: if_splits)
  show ?thesis using assms len commit_body [OF len]
    by (auto simp: accept_update_commit_def Let_def attempt_Inr_iff split: if_splits pending_proof.splits)
qed

lemma accept_update_init_complete:
  assumes "aead_correct C" and "hkdf_total C" and "hash_sized C" and "rk_pending s = None"
    and "length (rk_session_id s) = 16" and "e = es_epoch (rk_current s)" and "unat e + 1 < 2 ^ 32"
    and "record_sender_wf (sl_s2c_control (es_records (rk_current s)))"
    and "rs_next_number (sl_s2c_control (es_records (rk_current s))) < max_records_per_epoch"
    and "length update_nonce = 32"
    and "hmac_bytes C (es_secret (rk_current s))
      (update_input (rk_session_id s) e (e + 1) update_nonce (rk_transcript s)) = Inr tag"
  shows "\<exists>ack s'. accept_update_init C s encoded (be32 e @ be32 (e + 1) @ update_nonce @ tag) now = (Inr ack, s')"
proof -
  let ?input = "update_input (rk_session_id s) e (e + 1) update_nonce (rk_transcript s)"
  let ?body = "be32 e @ be32 (e + 1) @ update_nonce @ tag"
  let ?s1 = "s\<lparr>rk_transcript := transcript_next C (rk_transcript s) encoded\<rparr>"
  have tag: "length tag = 32" using hmac_bytes_ok [OF assms(3), of "es_secret (rk_current s)" ?input] assms(11) by simp
  have fields: "length ?body = 72" "from_be (subrange 0 4 ?body) = e" "from_be (subrange 4 8 ?body) = e + 1"
    "subrange 8 40 ?body = update_nonce" "subrange 40 72 ?body = tag"
    using assms(10) tag by (simp_all add: codec_simps)
  obtain ns where ns: "hmac_bytes C (es_secret (rk_current s)) (sha256 C ?input) = Inr ns" "length ns = 32"
    using hmac_bytes_ok [OF assms(3)] by blast
  obtain keys where keys: "epoch_keys_derive C ns (rk_session_id s) (e + 1) = Inr keys"
    using epoch_keys_derive_ok [OF assms(2) ns(2) assms(5)] by blast
  obtain kdf where kdf: "hkdf_from_prk C ns = Some kdf" using hkdf_total_prk [OF assms(2) ns(2)] by blast
  have "label_ok ''epoch confirmation'' (rk_session_id s @ be32 (e + 1)) 32" using assms(5) by (simp add: label_ok_def)
  then obtain ck where ck: "confirmation_key C ns (rk_session_id s) (e + 1) = Inr ck"
    using rekey_expand_label_ok [OF assms(2), of "''epoch confirmation''" "rk_session_id s @ be32 (e + 1)" 32 kdf] kdf
    by (auto simp: confirmation_key_def)
  obtain at where at: "hmac_label C ck ''server ack'' (sha256 C ?input) = Inr at" "length at = 32"
    using hmac_bytes_ok [OF assms(3)] unfolding hmac_label_def by blast
  have "\<exists>ack s2. seal_control_frame C ?s1 0x06 (be32 (e + 1) @ at) = (Inr ack, s2)"
    by (rule seal_control_frame_ok [OF assms(1)]) (use assms(8,9) at(2) in simp_all)
  then obtain ack s2 where seal: "seal_control_frame C ?s1 0x06 (be32 (e + 1) @ at) = (Inr ack, s2)" by blast
  obtain r where "replay_new default_replay_window = Inr r"
    using replay_new_ok [of default_replay_window] by (auto simp: default_replay_window_def)
  then have st: "\<exists>s4. stage_pending t n sec keys pr = Inr s4" for t n sec and pr :: pending_proof
    by (simp add: stage_pending_def session_record_layer_new_def record_receiver_new_def)
  obtain s4 where "stage_pending (s2\<lparr>rk_transcript := transcript_next C (rk_transcript s2) ack\<rparr>) (e + 1) ns keys
      (Routine (sha256 C ?input) ck) = Inr s4" using st by blast
  moreover have "check_next_epoch s e (e + 1) ''invalid key update epoch'' = Inr ()"
    using assms(6,7) by (simp add: check_next_epoch_ok)
  ultimately show ?thesis using assms(4,11) ns keys ck at seal
    unfolding accept_update_init_def Let_def fields by simp
qed

text \<open>The two halves of a routine update, driven by the values the client computes.\<close>

lemma accept_update_commit_complete:
  assumes "aead_correct C" and "hash_sized C" and "rk_pending s = Some pending"
    and "pe_proof pending = Routine context key" and "hmac_label C key ''client commit'' context = Inr tag"
    and "record_sender_wf (sl_s2c_control (es_records (pe_state pending)))"
    and "rs_next_number (sl_s2c_control (es_records (pe_state pending))) < max_records_per_epoch"
  shows "\<exists>rec s'. accept_update_commit C s encoded (be32 (es_epoch (pe_state pending)) @ tag) now = (Inr rec, s')"
proof -
  let ?s2 = "promote_pending (s\<lparr>rk_transcript := transcript_next C (rk_transcript s) encoded, rk_pending := None\<rparr>) pending now"
  have tag: "length tag = 32" using hmac_bytes_ok [OF assms(2), of key "ascii ''client commit'' @ context"] assms(5)
    by (simp add: hmac_label_def)
  obtain d where d: "hmac_label C key ''server done'' context = Inr d" "length d = 32"
    using hmac_bytes_ok [OF assms(2)] unfolding hmac_label_def by blast
  have "\<exists>rec s3. seal_control_frame C ?s2 0x08 (be32 (es_epoch (pe_state pending)) @ d) = (Inr rec, s3)"
    by (rule seal_control_frame_ok [OF assms(1)]) (use assms(6,7) d(2) in \<open>simp_all add: promote_pending_def\<close>)
  then obtain rec s3 where "seal_control_frame C ?s2 0x08 (be32 (es_epoch (pe_state pending)) @ d) = (Inr rec, s3)" by blast
  then show ?thesis using assms(3-5) tag d
    by (simp add: accept_update_commit_def finish_update_def codec_simps Let_def)
qed

lemma staged_sender:
  assumes "session_record_layer_new sid e keys default_replay_window = Inr l" and "epoch_keys_wf keys" and "length sid = 16"
  shows "record_sender_wf (sl_s2c_control l) \<and> rs_next_number (sl_s2c_control l) < max_records_per_epoch"
  using assms by (auto simp: session_record_layer_new_def and_then_Inr_iff record_sender_new_def record_sender_wf_def
      epoch_keys_wf_def max_records_per_epoch_def)

lemma accept_full_rekey_init_complete:
  assumes "aead_correct C" and "hkdf_total C" and "hash_sized C" and "rk_pending s = None"
    and "length (rk_session_id s) = 16" and "length body = 120"
    and "from_be (subrange 0 4 body) = es_epoch (rk_current s)"
    and "from_be (subrange 4 8 body) = es_epoch (rk_current s) + 1" and "unat (es_epoch (rk_current s)) + 1 < 2 ^ 32"
    and "record_sender_wf (sl_s2c_control (es_records (rk_current s)))"
    and "rs_next_number (sl_s2c_control (es_records (rk_current s))) < max_records_per_epoch"
    and "ed25519_verify C client_key (hash_parts C [ascii ''RekaSerdoba/1 full rekey client'', rk_session_id s,
      be32 (es_epoch (rk_current s)), be32 (es_epoch (rk_current s) + 1), subrange 8 24 body, subrange 24 56 body,
      rk_transcript s]) (subrange 56 120 body)"
    and "x25519 C server_secret (subrange 24 56 body) \<noteq> replicate 32 0"
    and "length (x25519_public C server_secret) = 32" and "\<And>m. length (ed25519_sign C server_key m) = 64"
  shows "\<exists>reply s'. accept_full_rekey_init C s encoded body client_key server_key server_secret now = (Inr reply, s')"
proof -
  let ?e = "es_epoch (rk_current s)"
  let ?s1 = "s\<lparr>rk_transcript := transcript_next C (rk_transcript s) encoded\<rparr>"
  define si where "si = hash_parts C [ascii ''RekaSerdoba/1 full rekey server'', rk_session_id s, be32 ?e, be32 (?e + 1),
    subrange 8 24 body, subrange 24 56 body, x25519_public C server_secret, rk_transcript ?s1]"
  define rb where "rb = be32 ?e @ be32 (?e + 1) @ subrange 8 24 body @ x25519_public C server_secret @ ed25519_sign C server_key si"
  have "length rb = 120" using assms(6,14,15) by (simp add: rb_def codec_simps)
  have "\<exists>reply s2. seal_control_frame C ?s1 0x0A rb = (Inr reply, s2)"
    by (rule seal_control_frame_ok [OF assms(1)]) (use assms(10,11) \<open>length rb = 120\<close> in simp_all)
  then obtain reply s2 where seal: "seal_control_frame C ?s1 0x0A rb = (Inr reply, s2)" by blast
  let ?s3 = "s2\<lparr>rk_transcript := transcript_next C (rk_transcript s2) reply\<rparr>"
  define cx where "cx = hash_parts C [ascii ''RekaSerdoba/1 full rekey'', rk_session_id s, be32 ?e, be32 (?e + 1),
    subrange 8 24 body, subrange 24 56 body, x25519_public C server_secret, subrange 56 120 body,
    ed25519_sign C server_key si, transcript_next C (rk_transcript s2) reply]"
  obtain ns where ns: "hmac_bytes C (es_secret (rk_current ?s3)) (x25519 C server_secret (subrange 24 56 body) @ cx) = Inr ns"
    "length ns = 32" using hmac_bytes_ok [OF assms(3)] by blast
  obtain keys' where keys: "epoch_keys_derive C ns (rk_session_id s) (?e + 1) = Inr keys'"
    using epoch_keys_derive_ok [OF assms(2) ns(2) assms(5)] by blast
  obtain kdf where kdf: "hkdf_from_prk C ns = Some kdf" using hkdf_total_prk [OF assms(2) ns(2)] by blast
  have "label_ok ''full rekey confirm'' cx 32" using length_hash_parts [OF assms(3)] by (simp add: label_ok_def cx_def)
  then obtain ck where ck: "rekey_expand_label C kdf ''full rekey confirm'' cx 32 = Inr ck" "length ck = 32"
    using rekey_expand_label_ok [OF assms(2), of "''full rekey confirm''" cx 32 kdf] by auto
  obtain r where r: "replay_new default_replay_window = Inr r"
    using replay_new_ok [of default_replay_window] by (auto simp: default_replay_window_def)
  have chk: "check_next_epoch s ?e (?e + 1) ''invalid full rekey epoch'' = Inr ()"
    using assms(9) by (simp add: check_next_epoch_ok)
  show ?thesis
    using assms(4,6,12,13) chk seal ns(1) keys kdf ck r
    unfolding accept_full_rekey_init_def Let_def assms(7,8) si_def [symmetric] rb_def [symmetric]
    by (simp flip: cx_def add: fixed_def stage_pending_def session_record_layer_new_def record_receiver_new_def)
qed

text \<open>The positions of the records opened by a sequence of \<open>open\<close> calls.\<close>

fun open_positions :: "crypto \<Rightarrow> rekey_session \<Rightarrow> (bytes \<times> instant) list \<Rightarrow> epoch_position list" where
  "open_positions C s [] = []"
| "open_positions C s ((bs, now) # rest) =
     (let (res, s') = rekey_open C s bs now
      in (case res of Inl _ \<Rightarrow> [] | Inr r \<Rightarrow> [or_position r]) @ open_positions C s' rest)"

definition grace_left :: "rekey_session \<Rightarrow> nat" where
  "grace_left s = (case rk_previous s of None \<Rightarrow> 0 | Some pv \<Rightarrow> pv_remaining_records pv)"

lemma open_previous_position:
  assumes "rekey_open_previous C s h bs now = (res, s')"
  shows "grace_left s' + (case res of Inr r \<Rightarrow> of_bool (or_position r = PreviousEpoch) | Inl _ \<Rightarrow> 0) \<le> grace_left s \<and>
    (case res of Inl _ \<Rightarrow> True | Inr r \<Rightarrow> \<exists>pv. rk_previous s = Some pv \<and> now < pv_expires_at pv)"
  using assms
  by (auto simp: rekey_open_previous_def grace_left_def attempt_def Let_def
      split: option.splits if_splits sum.splits prod.splits)

lemma open_live_position:
  assumes "rekey_open_live C s bs now = (res, s')"
  shows "grace_left s' + (case res of Inr r \<Rightarrow> of_bool (or_position r = PreviousEpoch) | Inl _ \<Rightarrow> 0) \<le> grace_left s \<and>
    (case res of Inl _ \<Rightarrow> True | Inr r \<Rightarrow> or_position r = PreviousEpoch \<longrightarrow> (\<exists>pv. rk_previous s = Some pv \<and> now < pv_expires_at pv))"
proof (cases "record_header_parse bs")
  case (Inl e)
  then show ?thesis using assms by (auto simp: rekey_open_live_def)
next
  case (Inr h)
  have count: "count_data r n = (x, r') \<Longrightarrow> rk_previous r' = rk_previous r" for r n x r'
    by (auto simp: count_data_def Let_def split: if_splits)
  consider (cur) "rh_epoch h = es_epoch (rk_current s)"
    | (pend) pe where "rh_epoch h \<noteq> es_epoch (rk_current s)" "rk_pending s = Some pe" "rh_epoch h = es_epoch (pe_state pe)"
    | (prev) "rh_epoch h \<noteq> es_epoch (rk_current s)"
      "\<And>pe. rk_pending s = Some pe \<Longrightarrow> rh_epoch h \<noteq> es_epoch (pe_state pe)"
    by blast
  then show ?thesis
  proof cases
    case cur
    obtain x e where o: "open_from C (rk_current s) (rh_kind h) bs = (x, e)" by fastforce
    show ?thesis
    proof (cases x)
      case (Inl err)
      then show ?thesis using assms cur by (auto simp: rekey_open_live_def \<open>record_header_parse bs = Inr h\<close> o grace_left_def)
    next
      case x: (Inr p)
      obtain c s2 where c: "(if rh_kind h = Data then count_data (s\<lparr>rk_current := e\<rparr>) (length p)
          else (Inr (), s\<lparr>rk_current := e\<rparr>)) = (c, s2)" by fastforce
      have "rk_previous s2 = rk_previous s" using c count by (auto split: if_splits)
      moreover have "attempt c s2 (\<lambda>_. (Inr \<lparr>or_header = h, or_plaintext = p, or_position = CurrentEpoch\<rparr>, s2)) = (res, s')"
        using assms cur unfolding rekey_open_live_def Inr attempt_simps Let_def o prod.case x c by simp
      ultimately show ?thesis by (cases c) (auto simp: grace_left_def)
    qed
  next
    case pend
    obtain x e where o: "open_from C (pe_state pe) Control bs = (x, e)" by fastforce
    show ?thesis using assms pend unfolding rekey_open_live_def Inr attempt_simps Let_def
      by (cases x) (auto simp: grace_left_def o split: if_splits)
  next
    case prev
    then have "rekey_open_live C s bs now = rekey_open_previous C s h bs now"
      by (simp add: rekey_open_live_def Inr split: option.split)
    then show ?thesis using assms open_previous_position [of C s h bs now res s'] by (auto split: sum.splits)
  qed
qed

lemma expire_grace: "grace_left (expire_previous s now) \<le> grace_left s"
  by (auto simp: grace_left_def expire_previous_def split: option.splits)

lemma open_positions_grace:
  "length (filter (\<lambda>p. p = PreviousEpoch) (open_positions C s es)) \<le> grace_left s"
proof (induction es arbitrary: s)
  case (Cons e es)
  obtain bs now where e: "e = (bs, now)" by fastforce
  obtain res s' where o: "rekey_open_live C (expire_previous s now) bs now = (res, s')" by fastforce
  note p = open_live_position [OF o] expire_grace [of s now] Cons.IH [of s']
  show ?case using p by (cases res) (auto simp: e rekey_open_def o)
qed simp

section \<open>Properties\<close>

text \<open>Over a whole session, whatever calls arrive in whatever order and however often the keys are
  changed, no two sealed records carry the same kind, epoch and number, and no two opened records do.
  So no AEAD nonce is used twice under a key, and no record is accepted twice.\<close>

theorem session_records_unique:
  assumes "hash_sized C" and "rekey_session_new C sid secret keys transcript start = Inr s"
    and "epoch_keys_wf keys" and "length sid = 16"
  shows "distinct (sent_ids (fst (rekey_run C s es))) \<and> distinct (opened_ids (fst (rekey_run C s es)))"
  using rekey_run_inv [OF assms] by blast

theorem session_records_unique_witness:
  "\<exists>keys s. epoch_keys_derive clear_crypto (replicate 32 9) (replicate 16 7) 0 = Inr keys \<and>
     rekey_session_new clear_crypto (replicate 16 7) (replicate 32 9) keys (replicate 32 3) 0 = Inr s \<and>
     distinct (sent_ids (fst (rekey_run clear_crypto s [SealData [1] False, SealControl [2] False, SealData [3] True]))) \<and>
     distinct (opened_ids (fst (rekey_run clear_crypto s [SealData [1] False, SealControl [2] False, SealData [3] True])))"
proof -
  obtain keys where k: "epoch_keys_derive clear_crypto (replicate 32 9) (replicate 16 7) 0 = Inr keys" "epoch_keys_wf keys"
    using epoch_keys_derive_ok [OF clear_crypto_ok(2), of "replicate 32 9" "replicate 16 7" 0] by auto
  obtain s where s: "rekey_session_new clear_crypto (replicate 16 7) (replicate 32 9) keys (replicate 32 3) 0 = Inr s"
    by (auto simp: rekey_session_new_def session_record_layer_new_def record_receiver_new_def replay_new_def
        default_replay_window_def)
  have "distinct (sent_ids (fst (rekey_run clear_crypto s [SealData [1] False, SealControl [2] False, SealData [3] True]))) \<and>
      distinct (opened_ids (fst (rekey_run clear_crypto s [SealData [1] False, SealControl [2] False, SealData [3] True])))"
    by (rule session_records_unique [OF clear_crypto_ok(3) s k(2)]) simp
  then show ?thesis using k(1) s by blast
qed

text \<open>The epochs of a session are always consecutive and only move forward: the pending epoch is
  the successor of the current one, the previous one its predecessor, and no call lowers the current
  epoch.\<close>

theorem session_epochs_consecutive:
  assumes "hash_sized C" and "rekey_session_new C sid secret keys transcript start = Inr s"
    and "epoch_keys_wf keys" and "length sid = 16" and "rekey_run C s es = (outs, t)"
  shows "(\<forall>p. rk_pending t = Some p \<longrightarrow> unat (es_epoch (pe_state p)) = unat (es_epoch (rk_current t)) + 1) \<and>
    (\<forall>p. rk_previous t = Some p \<longrightarrow> unat (es_epoch (pv_state p)) + 1 = unat (es_epoch (rk_current t))) \<and>
    unat (es_epoch (rk_current t)) \<le> unat (es_epoch (rk_current (snd (rekey_step C t e))))"
proof -
  obtain SS OS where inv: "key_inv (rekey_view t) SS OS" using rekey_run_inv [OF assms(1-4), of es] assms(5) by auto
  obtain outs' where "key_run C (rekey_view t) outs' (rekey_view (snd (rekey_step C t e)))"
    using rekey_step_run [OF assms(1)] by blast
  from key_run_epoch_mono [OF this inv] show ?thesis using inv
    by (auto simp: key_inv_def rekey_view_def state_view_def)
qed

theorem session_epochs_consecutive_witness:
  "\<exists>keys s. epoch_keys_derive clear_crypto (replicate 32 9) (replicate 16 7) 0 = Inr keys \<and>
     rekey_session_new clear_crypto (replicate 16 7) (replicate 32 9) keys (replicate 32 3) 0 = Inr s \<and>
     unat (es_epoch (rk_current s)) \<le> unat (es_epoch (rk_current (snd (rekey_step clear_crypto s (RequestUpdate 5)))))"
proof -
  obtain keys where k: "epoch_keys_derive clear_crypto (replicate 32 9) (replicate 16 7) 0 = Inr keys" "epoch_keys_wf keys"
    using epoch_keys_derive_ok [OF clear_crypto_ok(2), of "replicate 32 9" "replicate 16 7" 0] by auto
  obtain s where s: "rekey_session_new clear_crypto (replicate 16 7) (replicate 32 9) keys (replicate 32 3) 0 = Inr s"
    by (auto simp: rekey_session_new_def session_record_layer_new_def record_receiver_new_def replay_new_def
        default_replay_window_def)
  have "rekey_run clear_crypto s [] = ([], s)" by simp
  from session_epochs_consecutive [OF clear_crypto_ok(3) s k(2) _ this, of "RequestUpdate 5"] show ?thesis using k(1) s by auto
qed

text \<open>A routine key update is staged only for a request authenticated under the current epoch
  secret and bound to the transcript: the body names this epoch and the next one and ends with the HMAC
  of exactly these values. Staging leaves the current epoch in place, derives the next secret from it,
  and arms the ten second deadline.\<close>

theorem update_init_authenticated:
  assumes "accept_update_init C s encoded body now = (Inr ack, s')"
  shows "\<exists>update_nonce tag pending.
    hmac_bytes C (es_secret (rk_current s)) (update_input (rk_session_id s) (es_epoch (rk_current s))
      (es_epoch (rk_current s) + 1) update_nonce (rk_transcript s)) = Inr tag \<and>
    body = be32 (es_epoch (rk_current s)) @ be32 (es_epoch (rk_current s) + 1) @ update_nonce @ tag \<and>
    rk_pending s = None \<and> rk_pending s' = Some pending \<and>
    es_epoch (pe_state pending) = es_epoch (rk_current s) + 1 \<and>
    unat (es_epoch (rk_current s)) + 1 < 2 ^ 32 \<and>
    hmac_bytes C (es_secret (rk_current s)) (sha256 C (update_input (rk_session_id s) (es_epoch (rk_current s))
      (es_epoch (rk_current s) + 1) update_nonce (rk_transcript s))) = Inr (es_secret (pe_state pending)) \<and>
    es_epoch (rk_current s') = es_epoch (rk_current s) \<and> es_secret (rk_current s') = es_secret (rk_current s) \<and>
    rk_update_deadline s' = Some (now + int update_timeout)"
  using accept_update_init_success [OF assms] unfolding Let_def
  by (elim exE conjE) (rule exI, rule exI, rule exI, intro conjI, assumption+, simp_all)

theorem update_init_authenticated_witness:
  "\<exists>keys s ack s'. rekey_session_new clear_crypto (replicate 16 7) (replicate 32 9) keys (replicate 32 3) 0 = Inr s \<and>
     accept_update_init clear_crypto s [1, 2] (be32 0 @ be32 1 @ replicate 32 5 @ pad32
       (rev (update_input (replicate 16 7) 0 1 (replicate 32 5) (rk_transcript s)) @ replicate 32 9)) 11 = (Inr ack, s') \<and>
     rk_update_deadline s' = Some (11 + int update_timeout)"
proof -
  obtain keys where k: "epoch_keys_derive clear_crypto (replicate 32 9) (replicate 16 7) 0 = Inr keys" "epoch_keys_wf keys"
    using epoch_keys_derive_ok [OF clear_crypto_ok(2), of "replicate 32 9" "replicate 16 7" 0] by auto
  obtain s where s: "rekey_session_new clear_crypto (replicate 16 7) (replicate 32 9) keys (replicate 32 3) 0 = Inr s"
    by (auto simp: rekey_session_new_def session_record_layer_new_def record_receiver_new_def replay_new_def
        default_replay_window_def)
  have f: "rk_pending s = None" "rk_session_id s = replicate 16 7" "es_epoch (rk_current s) = 0"
    "es_secret (rk_current s) = replicate 32 9"
    "sl_s2c_control (es_records (rk_current s)) = record_sender_new Control (replicate 16 7) 0 (ek_s2c_control keys)"
    using s by (auto simp: rekey_session_new_def session_record_layer_new_def and_then_Inr_iff Let_def)
  have "\<exists>ack s'. accept_update_init clear_crypto s [1, 2] (be32 0 @ be32 (0 + 1) @ replicate 32 5 @ pad32
       (rev (update_input (replicate 16 7) 0 1 (replicate 32 5) (rk_transcript s)) @ replicate 32 9)) 11 = (Inr ack, s')"
    by (rule accept_update_init_complete [OF clear_crypto_ok])
      (use k(2) in \<open>auto simp: f record_sender_new_def record_sender_wf_def epoch_keys_wf_def max_records_per_epoch_def
        hmac_bytes_def clear_crypto_def\<close>)
  then obtain ack s' where a: "accept_update_init clear_crypto s [1, 2] (be32 0 @ be32 1 @ replicate 32 5 @ pad32
       (rev (update_input (replicate 16 7) 0 1 (replicate 32 5) (rk_transcript s)) @ replicate 32 9)) 11 = (Inr ack, s')"
    by auto
  show ?thesis using update_init_authenticated [OF a] a s by blast
qed

text \<open>C13. A commit is accepted only for a pending routine update, for its epoch and with the HMAC of
  the confirmation key over the update context. Then the pending epoch becomes current, the old one is
  kept for three seconds and 128 records, and all counters and the deadline are reset.\<close>

theorem update_commit_authenticated:
  assumes "accept_update_commit C s encoded body now = (Inr rec, s')"
  shows "\<exists>pending context key tag. rk_pending s = Some pending \<and> pe_proof pending = Routine context key \<and>
    hmac_label C key ''client commit'' context = Inr tag \<and> body = be32 (es_epoch (pe_state pending)) @ tag \<and>
    es_epoch (rk_current s') = es_epoch (pe_state pending) \<and>
    es_secret (rk_current s') = es_secret (pe_state pending) \<and> rk_pending s' = None \<and>
    rk_previous s' = Some \<lparr>pv_state = rk_current s, pv_expires_at = now + int old_epoch_grace,
      pv_remaining_records = old_epoch_records\<rparr> \<and>
    rk_epoch_started s' = now \<and> rk_data_records s' = 0 \<and> rk_plaintext_bytes s' = 0 \<and>
    \<not> rk_update_requested s' \<and> rk_update_deadline s' = None"
  using accept_update_commit_success [OF assms] finish_update_success by fastforce

theorem update_commit_authenticated_witness:
  "\<exists>s pending rec s'. rk_pending s = Some pending \<and> pe_proof pending = Routine [1] [2] \<and>
     accept_update_commit clear_crypto s [9] (be32 1 @ pad32 (rev (ascii ''client commit'' @ [1]) @ [2])) 5 = (Inr rec, s') \<and>
     es_epoch (rk_current s') = 1 \<and> rk_pending s' = None"
proof -
  obtain keys where k: "epoch_keys_derive clear_crypto (replicate 32 9) (replicate 16 7) 0 = Inr keys" "epoch_keys_wf keys"
    using epoch_keys_derive_ok [OF clear_crypto_ok(2), of "replicate 32 9" "replicate 16 7" 0] by auto
  obtain l where l: "session_record_layer_new (replicate 16 7) 1 keys default_replay_window = Inr l"
    by (auto simp: session_record_layer_new_def record_receiver_new_def replay_new_def default_replay_window_def)
  obtain s0 where s0: "rekey_session_new clear_crypto (replicate 16 7) (replicate 32 9) keys (replicate 32 3) 0 = Inr s0"
    by (auto simp: rekey_session_new_def session_record_layer_new_def record_receiver_new_def replay_new_def
        default_replay_window_def)
  define pending where "pending = \<lparr>pe_state = \<lparr>es_epoch = 1, es_secret = [], es_records = l\<rparr>, pe_proof = Routine [1] [2]\<rparr>"
  define s where "s = s0\<lparr>rk_pending := Some pending\<rparr>"
  have p: "rk_pending s = Some pending" "pe_proof pending = Routine [1] [2]" "es_epoch (pe_state pending) = 1"
    by (simp_all add: s_def pending_def)
  have "\<exists>rec s'. accept_update_commit clear_crypto s [9]
      (be32 (es_epoch (pe_state pending)) @ pad32 (rev (ascii ''client commit'' @ [1]) @ [2])) 5 = (Inr rec, s')"
    by (rule accept_update_commit_complete [OF clear_crypto_ok(1,3) p(1,2)])
      (use staged_sender [OF l k(2)] in \<open>simp_all add: pending_def hmac_label_def hmac_bytes_def clear_crypto_def\<close>)
  then obtain rec s' where a: "accept_update_commit clear_crypto s [9]
      (be32 1 @ pad32 (rev (ascii ''client commit'' @ [1]) @ [2])) 5 = (Inr rec, s')" using p(3) by auto
  show ?thesis using update_commit_authenticated [OF a] a p by auto
qed



text \<open>C15. A full rekey is staged only when the client's Ed25519 key signed this session, both epochs,
  the rekey identifier, its ephemeral key and the current transcript, and when the Diffie-Hellman result
  is not all zero. The next secret is the HMAC of the current secret over that result.\<close>

theorem full_rekey_authenticated:
  assumes "accept_full_rekey_init C s encoded body client_key server_key server_secret now = (Inr reply, s')"
  shows "ed25519_verify C client_key (hash_parts C [ascii ''RekaSerdoba/1 full rekey client'', rk_session_id s,
      be32 (es_epoch (rk_current s)), be32 (es_epoch (rk_current s) + 1), subrange 8 24 body, subrange 24 56 body,
      rk_transcript s]) (subrange 56 120 body) \<and>
    length body = 120 \<and> take 8 body = be32 (es_epoch (rk_current s)) @ be32 (es_epoch (rk_current s) + 1) \<and>
    x25519 C server_secret (subrange 24 56 body) \<noteq> replicate 32 0 \<and>
    (\<exists>pending cx key. rk_pending s = None \<and> rk_pending s' = Some pending \<and> pe_proof pending = Full cx key \<and>
       es_epoch (pe_state pending) = es_epoch (rk_current s) + 1 \<and> es_epoch (rk_current s') = es_epoch (rk_current s) \<and>
       hmac_bytes C (es_secret (rk_current s)) (x25519 C server_secret (subrange 24 56 body) @ cx) =
         Inr (es_secret (pe_state pending)) \<and>
       rk_update_deadline s' = Some (now + int update_timeout))"
proof -
  define e n where "e = (from_be (subrange 0 4 body) :: u32)" and "n = (from_be (subrange 4 8 body) :: u32)"
  have len: "length body = 120" and pend: "rk_pending s = None"
    using assms by (auto simp: accept_full_rekey_init_def split: if_splits)
  have chk: "check_next_epoch s e n ''invalid full rekey epoch'' = Inr ()"
    using assms len pend unfolding accept_full_rekey_init_def Let_def
    unfolding e_def [symmetric] n_def [symmetric] by (auto simp: attempt_Inr_iff split: if_splits)
  then have en: "e = es_epoch (rk_current s)" "n = e + 1" by (auto simp: check_next_epoch_ok)
  have "take 8 body = be32 e @ be32 n"
    using len take_subrange [of 0 4 body] take_subrange [of 4 8 body] by (simp add: e_def n_def be_encode codec_simps)
  then show ?thesis
    using assms len pend chk unfolding accept_full_rekey_init_def Let_def
    unfolding e_def [symmetric] n_def [symmetric]
    by (auto simp: attempt_Inr_iff case_prod_eq_iff en stage_pending_def and_then_Inr_iff
        dest!: seal_control_frame_keeps split: if_splits)
qed

theorem full_rekey_authenticated_witness:
  "\<exists>s body reply s'. accept_full_rekey_init clear_crypto s [1] body (replicate 32 4) (replicate 32 6) (replicate 32 8) 7 =
       (Inr reply, s') \<and> length body = 120 \<and> x25519 clear_crypto (replicate 32 8) (subrange 24 56 body) \<noteq> replicate 32 0 \<and>
     rk_update_deadline s' = Some (7 + int update_timeout)"
proof -
  obtain keys where k: "epoch_keys_wf keys"
    using epoch_keys_derive_ok [OF clear_crypto_ok(2), of "replicate 32 9" "replicate 16 7" 0] by auto
  obtain s where s: "rekey_session_new clear_crypto (replicate 16 7) (replicate 32 9) keys (replicate 32 3) 0 = Inr s"
    by (auto simp: rekey_session_new_def session_record_layer_new_def record_receiver_new_def replay_new_def
        default_replay_window_def)
  have f: "rk_pending s = None" "rk_session_id s = replicate 16 7" "es_epoch (rk_current s) = 0"
    "sl_s2c_control (es_records (rk_current s)) = record_sender_new Control (replicate 16 7) 0 (ek_s2c_control keys)"
    using s by (auto simp: rekey_session_new_def session_record_layer_new_def and_then_Inr_iff Let_def)
  define sig where "sig = ed25519_sign clear_crypto (replicate 32 4) (hash_parts clear_crypto
    [ascii ''RekaSerdoba/1 full rekey client'', rk_session_id s, be32 0, be32 1, replicate 16 2, replicate 32 5, rk_transcript s])"
  define body where "body = be32 0 @ be32 1 @ replicate 16 2 @ replicate 32 5 @ sig"
  have sig: "length sig = 64" by (simp add: sig_def clear_crypto_def)
  have fields: "length body = 120" "from_be (subrange 0 4 body) = (0 :: u32)" "from_be (subrange 4 8 body) = (1 :: u32)"
    "subrange 8 24 body = replicate 16 2" "subrange 24 56 body = replicate 32 5" "subrange 56 120 body = sig"
    using sig by (simp_all add: body_def codec_simps)
  have ver: "ed25519_verify clear_crypto pk m (ed25519_sign clear_crypto pk m)" for pk m by (simp add: clear_crypto_def)
  have "x25519 clear_crypto (replicate 32 8) (replicate 32 5) = replicate 32 (8 XOR 5)"
    by (simp add: clear_crypto_def pad32_def zip_replicate)
  then have dh: "x25519 clear_crypto (replicate 32 8) (replicate 32 5) \<noteq> replicate 32 0" by simp
  have sender: "record_sender_wf (sl_s2c_control (es_records (rk_current s)))"
    "rs_next_number (sl_s2c_control (es_records (rk_current s))) < max_records_per_epoch"
    using k by (simp_all add: f record_sender_new_def record_sender_wf_def epoch_keys_wf_def max_records_per_epoch_def)
  have sizes: "length (x25519_public clear_crypto x) = 32" "length (ed25519_sign clear_crypto x m) = 64" for x m
    by (simp_all add: clear_crypto_def)
  have "\<exists>reply s'. accept_full_rekey_init clear_crypto s [1] body (replicate 32 4) (replicate 32 6) (replicate 32 8) 7 = (Inr reply, s')"
    by (rule accept_full_rekey_init_complete [OF clear_crypto_ok f(1) _ fields(1) _ _ _ sender])
      (use ver dh in \<open>simp_all add: f(2,3) fields sizes sig_def\<close>)
  then show ?thesis using full_rekey_authenticated by blast
qed



text \<open>A key update cannot hang: in every reachable state in which an epoch is pending or an update
  was requested, a deadline is armed, it is the next time the session is checked, and from then on the
  check ends the session with an error.\<close>

theorem update_deadline_enforced:
  assumes "rekey_session_new C sid secret keys transcript start = Inr s"
    and "t = foldl (\<lambda>s e. snd (rekey_step C s e)) s es" and "rk_pending t \<noteq> None \<or> rk_update_requested t"
  shows "\<exists>deadline. rk_update_deadline t = Some deadline \<and> next_update_check t now = deadline \<and>
    (deadline \<le> now \<longrightarrow> request_update_if_due C t now = (Inl (Bail ''key update timed out''), t)) \<and>
    (now < deadline \<longrightarrow> request_update_if_due C t now = (Inr None, t))"
proof -
  have "rekey_flags_ok s" using assms(1) by (auto simp: rekey_session_new_def and_then_Inr_iff rekey_flags_ok_def Let_def)
  then have "rekey_flags_ok t" unfolding assms(2) by (rule rekey.run_invar)
  then obtain deadline where "rk_update_deadline t = Some deadline" using assms(3) by (auto simp: rekey_flags_ok_def)
  then show ?thesis using assms(3) by (auto simp: next_update_check_def request_update_if_due_def)
qed

theorem update_deadline_enforced_witness:
  "\<exists>keys s t. rekey_session_new clear_crypto (replicate 16 7) (replicate 32 9) keys (replicate 32 3) 0 = Inr s \<and>
     t = foldl (\<lambda>s e. snd (rekey_step clear_crypto s e)) s [RequestUpdate 600000000000] \<and>
     request_update_if_due clear_crypto t 610000000000 = (Inl (Bail ''key update timed out''), t)"
proof -
  obtain keys where k: "epoch_keys_wf keys"
    using epoch_keys_derive_ok [OF clear_crypto_ok(2), of "replicate 32 9" "replicate 16 7" 0] by auto
  obtain s where s: "rekey_session_new clear_crypto (replicate 16 7) (replicate 32 9) keys (replicate 32 3) 0 = Inr s"
    by (auto simp: rekey_session_new_def session_record_layer_new_def record_receiver_new_def replay_new_def
        default_replay_window_def)
  have f: "rk_pending s = None" "\<not> rk_update_requested s" "rk_update_deadline s = None" "rk_epoch_started s = 0"
    "sl_s2c_control (es_records (rk_current s)) = record_sender_new Control (replicate 16 7) 0 (ek_s2c_control keys)"
    using s by (auto simp: rekey_session_new_def session_record_layer_new_def and_then_Inr_iff Let_def)
  have "\<exists>rec s'. seal_control_frame clear_crypto s 0x04 (be32 (es_epoch (rk_current s))) = (Inr rec, s')"
    by (rule seal_control_frame_ok [OF clear_crypto_ok(1)])
      (use k in \<open>simp_all add: f record_sender_new_def record_sender_wf_def epoch_keys_wf_def max_records_per_epoch_def\<close>)
  then obtain rec s' where "seal_control_frame clear_crypto s 0x04 (be32 (es_epoch (rk_current s))) = (Inr rec, s')" by blast
  then have t: "rk_update_requested (snd (request_update_if_due clear_crypto s 600000000000))"
    "rk_update_deadline (snd (request_update_if_due clear_crypto s 600000000000)) = Some 610000000000"
    by (simp_all add: request_update_if_due_def f update_interval_def update_timeout_def)
  define t' where "t' = foldl (\<lambda>s e. snd (rekey_step clear_crypto s e)) s [RequestUpdate 600000000000]"
  have "t' = snd (request_update_if_due clear_crypto s 600000000000)" by (simp add: t'_def shown_def)
  then have "request_update_if_due clear_crypto t' 610000000000 = (Inl (Bail ''key update timed out''), t')"
    using update_deadline_enforced [OF s t'_def, of 610000000000] t by auto
  then show ?thesis using s t'_def by blast
qed

end
