(* ===== verification/Reka_Batch.thy ===== *)
theory Reka_Batch
  imports Reka_Fragment
begin

text \<open>
  Packing of outgoing packets into record plaintexts (\<open>packet_batch.rs\<close>): a packet becomes one IPv4
  frame when it fits a record and a series of fragment frames otherwise, and frames are batched into
  records of at most \<open>capacity\<close> bytes. The random identifier of a fragmented packet is an argument.
  The properties: every record fits, the server's own capacity never fails, and a receiver that parses
  the records and reassembles fragments gets the packets back in order.
\<close>

section \<open>Model\<close>

text \<open>\<open>slice::chunks\<close>, for a positive chunk size.\<close>

function chunks :: "nat \<Rightarrow> 'a list \<Rightarrow> 'a list list" where
  "chunks n xs = (if n = 0 \<or> xs = [] then [] else take n xs # chunks n (drop n xs))"
  by pat_completeness auto
termination
  by (relation "measure (\<lambda>(n, xs). length xs)") auto

declare chunks.simps [simp del]

definition usize_checked_mul :: "nat \<Rightarrow> nat \<Rightarrow> nat option" where
  "usize_checked_mul a b = (if a * b < 2 ^ 64 then Some (a * b) else None)"

fun encode_chunks :: "u32 \<Rightarrow> u16 \<Rightarrow> nat \<Rightarrow> nat \<Rightarrow> bytes list \<Rightarrow> bytes list result" where
  "encode_chunks packet_id tlen chunk_size index [] = Inr []"
| "encode_chunks packet_id tlen chunk_size index (chunk # rest) =
     and_then (ok_or (usize_checked_mul index chunk_size) (Bail ''fragment offset overflow'')) (\<lambda>offset.
     and_then (u16_try_from offset) (\<lambda>offset16.
     and_then (u16_try_from (length chunk)) (\<lambda>len16.
     and_then (frame_encode \<lparr>fr_type = 0x03, fr_flags = 0,
         fr_body = be32 packet_id @ be16 tlen @ be16 offset16 @ be16 len16 @ chunk\<rparr>) (\<lambda>frame.
     and_then (encode_chunks packet_id tlen chunk_size (index + 1) rest) (\<lambda>frames.
       Inr (frame # frames))))))"

definition encode_packet :: "u32 \<Rightarrow> bytes \<Rightarrow> nat \<Rightarrow> bytes list result" where
  "encode_packet packet_id packet capacity =
     (if length packet + 4 \<le> capacity
      then and_then (frame_encode \<lparr>fr_type = 0x01, fr_flags = 0, fr_body = packet\<rparr>) (\<lambda>frame. Inr [frame])
      else
        and_then (ok_or (checked_sub capacity 14) (Bail ''record capacity too small'')) (\<lambda>chunk_size.
        and_then (case u16_try_from (length packet) of
            Inl _ \<Rightarrow> Inl (Bail ''packet exceeds fragment limit'') | Inr tlen \<Rightarrow> Inr tlen) (\<lambda>tlen.
        if chunk_size = 0 then Inl (Panic ''chunk size must be non-zero'')
        else encode_chunks packet_id tlen chunk_size 0 (chunks chunk_size packet))))"

text \<open>The inner loop over the frames of a packet; the state is the finished records and the open one.\<close>

definition batch_frame :: "nat \<Rightarrow> bytes list \<times> bytes \<Rightarrow> bytes \<Rightarrow> bytes list \<times> bytes" where
  "batch_frame capacity st frame =
     (case st of (records, plaintext) \<Rightarrow>
        if plaintext \<noteq> [] \<and> length plaintext + length frame > capacity
        then (records @ [plaintext], frame)
        else (records, plaintext @ frame))"

fun batch_loop :: "nat \<Rightarrow> bytes list \<times> bytes \<Rightarrow> (u32 \<times> bytes) list \<Rightarrow> (bytes list \<times> bytes) result" where
  "batch_loop capacity st [] = Inr st"
| "batch_loop capacity st ((packet_id, packet) # packets) =
     and_then (encode_packet packet_id packet capacity) (\<lambda>frames.
       batch_loop capacity (foldl (batch_frame capacity) st frames) packets)"

definition batch_packets :: "(u32 \<times> bytes) list \<Rightarrow> nat \<Rightarrow> bytes list result" where
  "batch_packets packets capacity =
     and_then (batch_loop capacity ([], []) packets) (\<lambda>(records, plaintext).
       Inr (if plaintext \<noteq> [] then records @ [plaintext] else records))"

section \<open>Specification\<close>

text \<open>The frames of a packet, and those of its fragments.\<close>

definition fragment_frame :: "u32 \<Rightarrow> nat \<Rightarrow> nat \<times> bytes \<Rightarrow> frame" where
  "fragment_frame i tlen f = \<lparr>fr_type = 0x03, fr_flags = 0, fr_body = fragment_body i tlen (fst f) (snd f)\<rparr>"

fun chunk_offsets :: "nat \<Rightarrow> nat \<Rightarrow> bytes list \<Rightarrow> (nat \<times> bytes) list" where
  "chunk_offsets n index [] = []"
| "chunk_offsets n index (c # cs) = (index * n, c) # chunk_offsets n (index + 1) cs"

definition packet_frames :: "nat \<Rightarrow> u32 \<times> bytes \<Rightarrow> frame list" where
  "packet_frames capacity p =
     (if length (snd p) + 4 \<le> capacity then [\<lparr>fr_type = 0x01, fr_flags = 0, fr_body = snd p\<rparr>]
      else map (fragment_frame (fst p) (length (snd p)))
             (chunk_offsets (capacity - 14) 0 (chunks (capacity - 14) (snd p))))"

text \<open>
  What a receiver does with the frames of data records: an IPv4 frame is a packet, a fragment frame
  goes through the reassembler.
\<close>

fun deliver :: "fragment_reassembler \<Rightarrow> (frame \<times> instant) list \<Rightarrow> bytes list" where
  "deliver ra [] = []"
| "deliver ra ((f, now) # fs) =
     (if fr_type f = 0x01 then fr_body f # deliver ra fs
      else if fr_type f = 0x03 then
        (let (res, ra') = reassembler_push ra (fr_body f) now
         in (case res of Inr (Some packet) \<Rightarrow> [packet] | _ \<Rightarrow> []) @ deliver ra' fs)
      else deliver ra fs)"

section \<open>Chunks\<close>

lemma chunks_Nil [simp]: "chunks n [] = []"
  by (simp add: chunks.simps)

text \<open>Both recursions of one step: the last chunk, or a full chunk and the rest.\<close>

lemma chunks_cases:
  assumes "0 < n" and "xs \<noteq> []"
  obtains "length xs \<le> n" "chunks n xs = [xs]"
  | ys zs where "xs = ys @ zs" "length ys = n" "zs \<noteq> []" "chunks n xs = ys # chunks n zs"
proof (cases "length xs \<le> n")
  case True
  then have "chunks n xs = [xs]" using assms by (subst chunks.simps) simp
  then show ?thesis using that True by blast
next
  case False
  then have "xs = take n xs @ drop n xs" "length (take n xs) = n" "drop n xs \<noteq> []"
    "chunks n xs = take n xs # chunks n (drop n xs)"
    using assms by (simp_all add: chunks.simps [of n xs])
  then show ?thesis using that by blast
qed

lemma chunks_induct [consumes 1, case_names Nil last more]:
  assumes "0 < n" and "P []" and "\<And>xs. xs \<noteq> [] \<Longrightarrow> length xs \<le> n \<Longrightarrow> chunks n xs = [xs] \<Longrightarrow> P xs"
    and "\<And>ys zs. length ys = n \<Longrightarrow> zs \<noteq> [] \<Longrightarrow> chunks n (ys @ zs) = ys # chunks n zs \<Longrightarrow> P zs \<Longrightarrow> P (ys @ zs)"
  shows "P xs"
proof (induction "length xs" arbitrary: xs rule: less_induct)
  case less
  show ?case
  proof (cases "xs = []")
    case False
    from chunks_cases [OF assms(1) False] show ?thesis
    proof cases
      case 1
      then show ?thesis using assms(3) False by blast
    next
      case (2 ys zs)
      then have "P zs" using less assms(1) by simp
      then show ?thesis using 2 assms(4) [of ys zs] by simp
    qed
  qed (simp add: assms(2))
qed

lemma chunk_offsets_ok:
  assumes "0 < n"
  shows "fragments_ok (k * n) (k * n + length xs) (chunk_offsets n k (chunks n xs)) \<and>
    fragments_size (chunk_offsets n k (chunks n xs)) = length xs \<and>
    (length pre = k * n \<longrightarrow> fragments_of (pre @ xs) (chunk_offsets n k (chunks n xs))) \<and>
    list_all (\<lambda>c. length c \<le> n) (chunks n xs)"
  using assms
proof (induction xs arbitrary: k pre rule: chunks_induct)
  case Nil
  then show ?case by (simp add: fragments_size_def fragments_of_def)
next
  case (last xs)
  then show ?case by (simp add: fragments_size_def fragments_of_def subrange_def)
next
  case (more ys zs)
  have "ys \<noteq> []" using more assms by auto
  moreover have "k * n + n = Suc k * n" "k * n + length (ys @ zs) = Suc k * n + length zs" using more by simp_all
  moreover note more.IH [of "Suc k" "pre @ ys"]
  ultimately show ?case using more.hyps
    by (simp add: fragments_size_def fragments_of_def subrange_def ac_simps)
qed

lemma fragments_ok_apart:
  assumes "fragments_ok lo tlen fs"
  shows "sorted_wrt fragments_apart fs \<and>
    (\<forall>(offset, data)\<in>set fs. lo \<le> offset \<and> data \<noteq> [] \<and> offset + length data \<le> tlen)"
  using assms
proof (induction fs arbitrary: lo)
  case (Cons f fs)
  obtain o' d where f: "f = (o', d)" by fastforce
  have "o' + length d \<le> tlen" using Cons.prems fragments_ok_le [of "o' + length d" tlen fs] by (simp add: f)
  then show ?case using Cons.IH [of "o' + length d"] Cons.prems
    by (force simp: f fragments_apart_def)
qed simp

lemma chunks_tile:
  assumes "0 < n" and "length packet \<le> 65535"
  shows "tiles packet (chunk_offsets n 0 (chunks n packet))"
  using chunk_offsets_ok [OF assms(1), of 0 packet "[]"] assms(2)
    fragments_ok_apart [of 0 "length packet" "chunk_offsets n 0 (chunks n packet)"]
  by (auto simp: tiles_def fragment_fits_def)

section \<open>Encoding a packet\<close>

lemma u16_try_from_ok: "n \<le> 65535 \<Longrightarrow> u16_try_from n = Inr (of_nat n)"
  by (simp add: u16_try_from_def)

lemma encode_chunks_eq:
  assumes "list_all (\<lambda>(offset, d). offset \<le> 65535 \<and> length d \<le> 65525) (chunk_offsets n k cs)"
  shows "encode_chunks i (of_nat tlen) n k cs = Inr (map (frame_bytes \<circ> fragment_frame i tlen) (chunk_offsets n k cs))"
  using assms
proof (induction cs arbitrary: k)
  case (Cons c cs)
  have b: "k * n \<le> 65535" "length c \<le> 65525" using Cons.prems by simp_all
  then have "usize_checked_mul k n = Some (k * n)" by (simp add: usize_checked_mul_def)
  moreover have "frame_encode (fragment_frame i tlen (k * n, c)) = Inr (frame_bytes (fragment_frame i tlen (k * n, c)))"
    using b by (simp add: frame_encode_Inr frame_wf_def fragment_frame_def fragment_body_def)
  ultimately show ?case using Cons b
    by (simp add: u16_try_from_ok fragment_frame_def fragment_body_def)
qed simp

lemma list_all_chunk_offsets:
  assumes "0 < n" and "length packet \<le> 65535" and "n \<le> 65525"
  shows "list_all (\<lambda>(offset, d). offset \<le> 65535 \<and> length d \<le> 65525 \<and> length d \<le> n)
    (chunk_offsets n 0 (chunks n packet))"
proof -
  have "list_all (\<lambda>c. length c \<le> n) cs \<Longrightarrow> list_all (\<lambda>(offset, d). length d \<le> n) (chunk_offsets n k cs)" for k cs
    by (induction cs arbitrary: k) auto
  then have "list_all (\<lambda>(offset, d). length d \<le> n) (chunk_offsets n 0 (chunks n packet))"
    using chunk_offsets_ok [OF assms(1), of 0 packet "[]"] by blast
  moreover have "\<forall>(offset, d)\<in>set (chunk_offsets n 0 (chunks n packet)). offset + length d \<le> length packet"
    using chunks_tile [OF assms(1,2)] by (auto simp: tiles_def fragment_fits_def)
  ultimately show ?thesis using assms by (fastforce simp: list_all_iff)
qed

lemma encode_packet_eq:
  assumes "15 \<le> capacity" and "capacity \<le> 65539" and "length packet \<le> 65535"
  shows "encode_packet i packet capacity = Inr (map frame_bytes (packet_frames capacity (i, packet))) \<and>
    list_all (\<lambda>f. frame_wf f \<and> fr_type f \<in> {0x01, 0x03} \<and> length (frame_bytes f) \<le> capacity)
      (packet_frames capacity (i, packet))"
proof (cases "length packet + 4 \<le> capacity")
  case True
  then show ?thesis using assms
    by (simp add: encode_packet_def packet_frames_def frame_encode_def frame_bytes_def frame_wf_def)
next
  case False
  have n: "0 < capacity - 14" "capacity - 14 \<le> 65525" using assms by simp_all
  note offs = list_all_chunk_offsets [OF n(1) assms(3) n(2)]
  have "encode_chunks i (of_nat (length packet)) (capacity - 14) 0 (chunks (capacity - 14) packet) =
      Inr (map frame_bytes (packet_frames capacity (i, packet)))"
    using encode_chunks_eq [of "capacity - 14" 0 "chunks (capacity - 14) packet"] offs False
    by (simp add: packet_frames_def list_all_iff split_beta)
  moreover have "list_all (\<lambda>f. frame_wf f \<and> fr_type f \<in> {0x01, 0x03} \<and> length (frame_bytes f) \<le> capacity)
      (packet_frames capacity (i, packet))"
    using offs False assms(1)
    by (fastforce simp: packet_frames_def list_all_iff fragment_frame_def fragment_body_def frame_wf_def)
  ultimately show ?thesis using False assms
    by (simp add: encode_packet_def checked_sub_def u16_try_from_ok)
qed

text \<open>Every frame of a successful encoding fits the record, whatever the capacity.\<close>

lemma encode_chunks_fit:
  assumes "encode_chunks i tlen n k cs = Inr frames" and "list_all (\<lambda>c. length c \<le> n) cs"
  shows "list_all (\<lambda>f. f \<noteq> [] \<and> length f \<le> n + 14) frames"
  using assms
  by (induction cs arbitrary: k frames)
    (auto simp: and_then_Inr_iff frame_encode_Inr frame_bytes_def)

lemma encode_packet_fit:
  assumes "encode_packet i packet capacity = Inr frames"
  shows "list_all (\<lambda>f. f \<noteq> [] \<and> length f \<le> capacity) frames"
proof (cases "length packet + 4 \<le> capacity")
  case True
  then show ?thesis using assms
    by (auto simp: encode_packet_def and_then_Inr_iff frame_encode_Inr frame_bytes_def)
next
  case False
  then obtain n tlen where n: "14 \<le> capacity" "n = capacity - 14" "n \<noteq> 0"
    "encode_chunks i tlen n 0 (chunks n packet) = Inr frames"
    using assms by (auto simp: encode_packet_def and_then_Inr_iff checked_sub_Some split: if_splits)
  then show ?thesis using encode_chunks_fit [OF n(4)] chunk_offsets_ok [of n 0 packet "[]"] by simp
qed

section \<open>Batching\<close>

definition batch_ok :: "nat \<Rightarrow> bytes list \<times> bytes \<Rightarrow> bool" where
  "batch_ok capacity st \<longleftrightarrow> list_all (\<lambda>r. r \<noteq> [] \<and> length r \<le> capacity) (fst st) \<and> length (snd st) \<le> capacity"

lemma batch_frames_ok:
  assumes "batch_ok capacity st" and "list_all (\<lambda>f. f \<noteq> [] \<and> length f \<le> capacity) frames"
  shows "batch_ok capacity (foldl (batch_frame capacity) st frames)"
  using assms
proof (induction frames arbitrary: st)
  case (Cons f fs)
  have "batch_ok capacity (batch_frame capacity st f)"
    using Cons.prems by (auto simp: batch_ok_def batch_frame_def split: prod.splits)
  then show ?case using Cons by simp
qed simp

lemma batch_loop_ok:
  assumes "batch_loop capacity st packets = Inr st'" and "batch_ok capacity st"
  shows "batch_ok capacity st'"
  using assms
proof (induction packets arbitrary: st)
  case (Cons p packets)
  obtain i packet where p: "p = (i, packet)" by fastforce
  obtain frames where "encode_packet i packet capacity = Inr frames"
    "batch_loop capacity (foldl (batch_frame capacity) st frames) packets = Inr st'"
    using Cons.prems(1) by (auto simp: p and_then_Inr_iff)
  then show ?case using Cons.IH batch_frames_ok [OF Cons.prems(2)] encode_packet_fit by blast
qed simp

text \<open>Records are made of whole frames, in order.\<close>

abbreviation frames_bytes :: "frame list \<Rightarrow> bytes" where
  "frames_bytes fs \<equiv> concat (map frame_bytes fs)"

lemma batch_frames_groups:
  "\<exists>gs' os'. foldl (batch_frame capacity) (map frames_bytes gs, frames_bytes os) (map frame_bytes fs) =
      (map frames_bytes gs', frames_bytes os') \<and> concat gs' @ os' = concat gs @ os @ fs"
proof (induction fs arbitrary: gs os)
  case (Cons f fs)
  have "\<exists>gs1 os1. batch_frame capacity (map frames_bytes gs, frames_bytes os) (frame_bytes f) =
      (map frames_bytes gs1, frames_bytes os1) \<and> concat gs1 @ os1 = concat gs @ os @ [f]"
    using exI [of _ "gs @ [os]"] by (fastforce simp: batch_frame_def)
  then obtain gs1 os1 where step: "batch_frame capacity (map frames_bytes gs, frames_bytes os) (frame_bytes f) =
      (map frames_bytes gs1, frames_bytes os1)" and eq: "concat gs1 @ os1 = concat gs @ os @ [f]" by blast
  obtain gs' os' where run: "foldl (batch_frame capacity) (map frames_bytes gs1, frames_bytes os1) (map frame_bytes fs) =
      (map frames_bytes gs', frames_bytes os')" and all: "concat gs' @ os' = (concat gs1 @ os1) @ fs"
    using Cons.IH [of gs1 os1] by auto
  have "concat gs' @ os' = concat gs @ os @ f # fs" using all [unfolded eq] by simp
  then show ?case using step run by (intro exI [of _ gs'] exI [of _ os']) simp
qed auto

lemma batch_loop_groups:
  assumes "15 \<le> capacity" and "capacity \<le> 65539" and "list_all (\<lambda>p. length (snd p) \<le> 65535) packets"
  shows "\<exists>gs' os'. batch_loop capacity (map frames_bytes gs, frames_bytes os) packets =
      Inr (map frames_bytes gs', frames_bytes os') \<and>
    concat gs' @ os' = concat gs @ os @ concat (map (packet_frames capacity) packets)"
  using assms(3)
proof (induction packets arbitrary: gs os)
  case (Cons p packets)
  obtain i packet where p: "p = (i, packet)" by fastforce
  have enc: "encode_packet i packet capacity = Inr (map frame_bytes (packet_frames capacity p))"
    using encode_packet_eq [OF assms(1,2), of packet i] Cons.prems by (simp add: p)
  obtain gs1 os1 where step: "foldl (batch_frame capacity) (map frames_bytes gs, frames_bytes os)
      (map frame_bytes (packet_frames capacity p)) = (map frames_bytes gs1, frames_bytes os1)"
    and eq: "concat gs1 @ os1 = concat gs @ os @ packet_frames capacity p"
    using batch_frames_groups by meson
  obtain gs' os' where run: "batch_loop capacity (map frames_bytes gs1, frames_bytes os1) packets =
      Inr (map frames_bytes gs', frames_bytes os')"
    and all: "concat gs' @ os' = (concat gs1 @ os1) @ concat (map (packet_frames capacity) packets)"
    using Cons.IH [of gs1 os1] Cons.prems by auto
  have "concat gs' @ os' = concat gs @ os @ packet_frames capacity p @ concat (map (packet_frames capacity) packets)"
    using all [unfolded eq] by simp
  then show ?case using step run enc by (intro exI [of _ gs'] exI [of _ os']) (simp add: p)
qed auto

lemma batch_packets_groups:
  assumes "15 \<le> capacity" and "capacity \<le> 65539" and "list_all (\<lambda>p. length (snd p) \<le> 65535) packets"
  shows "\<exists>gs. batch_packets packets capacity = Inr (map frames_bytes gs) \<and>
    concat gs = concat (map (packet_frames capacity) packets)"
proof -
  obtain gs os where b: "batch_loop capacity ([], []) packets = Inr (map frames_bytes gs, frames_bytes os)"
    "concat gs @ os = concat (map (packet_frames capacity) packets)"
    using batch_loop_groups [OF assms, of "[]" "[]"] by auto
  have "frames_bytes os = [] \<Longrightarrow> os = []" by (cases os) (auto simp: frame_bytes_def)
  then show ?thesis using b
    by (intro exI [of _ "if os = [] then gs else gs @ [os]"]) (auto simp: batch_packets_def)
qed

section \<open>Delivery\<close>

lemma deliver_append_fragments:
  "deliver ra (map (\<lambda>(b, now). (\<lparr>fr_type = 0x03, fr_flags = 0, fr_body = b\<rparr>, now)) es @ fs) =
     concat (map (\<lambda>r. case r of Inr (Some packet) \<Rightarrow> [packet] | _ \<Rightarrow> []) (fst (push_run ra es))) @
     deliver (snd (push_run ra es)) fs"
proof (induction es arbitrary: ra)
  case (Cons e es)
  obtain b now where e: "e = (b, now)" by fastforce
  obtain res ra' where "reassembler_push ra b now = (res, ra')" by fastforce
  then show ?case using Cons by (simp add: e split_beta)
qed simp

lemma push_run_dom:
  assumes "reassembler_wf ra" and "dom (map_of (ra_assemblies ra)) \<subseteq> {i}"
    and "map fst es = map (\<lambda>f. fragment_body i tlen (fst f) (snd f)) frags"
    and "\<forall>(offset, data)\<in>set frags. fragment_fits tlen offset data"
    and "fst (push_run ra es) = replicate m (Inr None) @ [Inr (Some packet)]"
  shows "reassembler_wf (snd (push_run ra es)) \<and> ra_assemblies (snd (push_run ra es)) = []"
  using assms
proof (induction frags arbitrary: ra es m)
  case (Cons f frags)
  obtain offset data where f: "f = (offset, data)" by fastforce
  obtain now es' where es: "es = (fragment_body i tlen offset data, now) # es'"
    "map fst es' = map (\<lambda>f. fragment_body i tlen (fst f) (snd f)) frags"
    using Cons.prems(3) by (cases es) (auto simp: f)
  obtain res ra' where p: "reassembler_push ra (fragment_body i tlen offset data) now = (res, ra')" by fastforce
  have parse: "parsed_fragment_parse (fragment_body i tlen offset data) =
      Inr \<lparr>pf_packet_id = i, pf_total_len = tlen, pf_offset = offset, pf_data = data\<rparr>"
    using Cons.prems(4) by (simp add: parsed_fragment_parse_iff f)
  have wf: "reassembler_wf ra'" and dom: "dom (map_of (ra_assemblies ra')) \<subseteq> {i}"
    using reassembler_push_wf [OF Cons.prems(1) p] reassembler_push_dom(1) [OF parse Cons.prems(1), of now] p Cons.prems(2)
    by auto
  show ?case
  proof (cases m)
    case 0
    then have "res = Inr (Some packet)" "fst (push_run ra' es') = []" using Cons.prems(5) p es by (auto simp: split_beta)
    moreover from this have "es' = []" by (cases es') (auto simp: split_beta)
    ultimately have "dom (map_of (ra_assemblies ra')) = {}"
      using reassembler_push_dom(2) [OF parse Cons.prems(1), of now packet] p dom by fastforce
    then have "ra_assemblies ra' = []" by (simp add: dom_map_of_conv_image_fst)
    then show ?thesis using wf p es \<open>es' = []\<close> by simp
  next
    case (Suc m')
    then have "fst (push_run ra' es') = replicate m' (Inr None) @ [Inr (Some packet)]"
      using Cons.prems(5) p es by (auto simp: split_beta)
    then show ?thesis using Cons.IH [OF wf dom es(2)] Cons.prems(4) p es by (simp add: split_beta)
  qed
qed simp

lemma deliver_packet:
  assumes "15 \<le> capacity" and "length packet \<le> 65535" and "reassembler_wf ra" and "ra_assemblies ra = []"
    and "map fst evs = packet_frames capacity (i, packet)"
    and "\<forall>now\<in>snd ` set evs. t \<le> now \<and> now < t + int reassembly_timeout"
  shows "\<exists>ra'. reassembler_wf ra' \<and> ra_assemblies ra' = [] \<and> deliver ra (evs @ rest) = packet # deliver ra' rest"
proof (cases "length packet + 4 \<le> capacity")
  case True
  then obtain now where "evs = [(\<lparr>fr_type = 0x01, fr_flags = 0, fr_body = packet\<rparr>, now)]"
    using assms(5) by (cases evs) (auto simp: packet_frames_def)
  then show ?thesis using assms(3,4) by auto
next
  case False
  define n where "n = capacity - 14"
  define frags where "frags = chunk_offsets n 0 (chunks n packet)"
  define es where "es = map (\<lambda>(f, now). (fr_body f, now)) evs"
  have n: "0 < n" using assms(1) by (simp add: n_def)
  have tile: "tiles packet frags" using chunks_tile [OF n assms(2)] by (simp add: frags_def)
  have "packet \<noteq> []" using False assms(1) by auto
  then have ne: "frags \<noteq> []" using tile by (auto simp: tiles_def fragments_size_def)
  have fst_evs: "map fst evs = map (fragment_frame i (length packet)) frags"
    using assms(5) False by (simp add: packet_frames_def frags_def n_def)
  have es: "map fst es = map (\<lambda>(offset, data). fragment_body i (length packet) offset data) frags"
    using arg_cong [OF fst_evs, of "map fr_body"]
    by (simp add: es_def fragment_frame_def o_def split_beta)
  have "evs = map (\<lambda>(b, now). (\<lparr>fr_type = 0x03, fr_flags = 0, fr_body = b\<rparr>, now)) es"
  proof -
    have "\<forall>e\<in>set evs. fst e \<in> set (map (fragment_frame i (length packet)) frags)"
      unfolding fst_evs [symmetric] by simp
    then have "\<forall>e\<in>set evs. fst e = \<lparr>fr_type = 0x03, fr_flags = 0, fr_body = fr_body (fst e)\<rparr>"
      by (auto simp: fragment_frame_def)
    then show ?thesis by (simp add: es_def split_beta map_idI prod_eq_iff)
  qed
  then have dv: "deliver ra (evs @ rest) =
      concat (map (\<lambda>r. case r of Inr (Some packet) \<Rightarrow> [packet] | _ \<Rightarrow> []) (fst (push_run ra es))) @
      deliver (snd (push_run ra es)) rest"
    using deliver_append_fragments by metis
  have "es \<noteq> []" using es ne by auto
  then have "\<forall>now\<in>snd ` set es. now < snd (hd es) + int reassembly_timeout"
    using assms(6) by (cases es) (force simp: es_def split_beta)+
  then have run: "fst (push_run ra es) = replicate (length frags - 1) (Inr None) @ [Inr (Some packet)]"
    using reassembly_any_order_frags [OF assms(3) _ _ tile ne es] assms(4) by (simp add: max_reassemblies_def)
  have "reassembler_wf (snd (push_run ra es)) \<and> ra_assemblies (snd (push_run ra es)) = []"
    using push_run_dom [OF assms(3) _ _ _ run, of i "length packet" frags] assms(4) es tile
    by (simp add: tiles_def split_beta)
  moreover have "concat (map (\<lambda>r. case r of Inr (Some packet) \<Rightarrow> [packet] | _ \<Rightarrow> []) (fst (push_run ra es))) = [packet]"
    unfolding run by simp
  ultimately show ?thesis using dv by auto
qed

lemma deliver_packets:
  assumes "15 \<le> capacity" and "list_all (\<lambda>p. length (snd p) \<le> 65535) packets"
    and "reassembler_wf ra" and "ra_assemblies ra = []"
    and "map fst evs = concat (map (packet_frames capacity) packets)"
    and "\<forall>now\<in>snd ` set evs. t \<le> now \<and> now < t + int reassembly_timeout"
  shows "deliver ra evs = map snd packets"
  using assms(2-)
proof (induction packets arbitrary: ra evs)
  case (Cons p packets)
  obtain i packet where p: "p = (i, packet)" by fastforce
  obtain evs1 evs2 where evs: "evs = evs1 @ evs2" "map fst evs1 = packet_frames capacity (i, packet)"
    "map fst evs2 = concat (map (packet_frames capacity) packets)"
    using Cons.prems(4) by (auto simp: p map_eq_append_conv)
  obtain ra' where ra': "reassembler_wf ra'" "ra_assemblies ra' = []" "deliver ra evs = packet # deliver ra' evs2"
    using deliver_packet [OF assms(1) _ Cons.prems(2,3) evs(2), of t evs2] Cons.prems(1,5) by (auto simp: p evs(1))
  show ?case using Cons.IH [OF _ ra'(1,2) evs(3)] Cons.prems(1,5) ra'(3) by (simp add: p evs(1))
qed simp

lemma batch_fit:
  assumes "batch_packets packets capacity = Inr records"
  shows "list_all (\<lambda>r. r \<noteq> [] \<and> length r \<le> capacity) records"
proof -
  obtain st where st: "batch_loop capacity ([], []) packets = Inr st"
    "records = (if snd st \<noteq> [] then fst st @ [snd st] else fst st)"
    using assms by (auto simp: batch_packets_def and_then_Inr_iff split_beta)
  then have "batch_ok capacity st" using batch_loop_ok [OF st(1)] by (simp add: batch_ok_def)
  then show ?thesis by (simp add: st(2) batch_ok_def)
qed

section \<open>Properties\<close>

text \<open>Every record that \<open>batch_packets\<close> returns is non-empty and within the capacity, for every
  capacity and all packets.\<close>

theorem batch_records_fit:
  assumes "batch_packets packets capacity = Inr records"
  shows "list_all (\<lambda>r. r \<noteq> [] \<and> length r \<le> capacity) records"
  by (rule batch_fit [OF assms])

theorem batch_records_fit_witness:
  "\<exists>records. batch_packets [(1, replicate 20 7), (2, [1, 2])] 16 = Inr records \<and>
     list_all (\<lambda>r. r \<noteq> [] \<and> length r \<le> 16) records"
proof -
  obtain records where "batch_packets [(1, replicate 20 7), (2, [1, 2])] 16 = Inr records"
    using batch_packets_groups [of 16 "[(1, replicate 20 7), (2, [1, 2])]"] by auto
  then show ?thesis using batch_records_fit by blast
qed

text \<open>C33. With the record capacity of the server, packets of up to 65535 bytes never make batching
  fail, every record can be sealed as one record plaintext, and a receiver that parses the records and
  reassembles the fragments within three seconds gets exactly the packets, in order, even when the
  random identifiers of fragmented packets collide.\<close>

theorem batch_delivers_packets:
  assumes "list_all (\<lambda>p. length (snd p) \<le> 65535) packets"
  shows "\<exists>records frames. batch_packets packets 4080 = Inr records \<and>
    list_all (\<lambda>r. length r + 16 \<le> 4096) records \<and>
    map (\<lambda>r. parse_frames r Data) records = map Inr frames \<and>
    (\<forall>evs t. map fst evs = concat frames \<and> (\<forall>now\<in>snd ` set evs. t \<le> now \<and> now < t + int reassembly_timeout) \<longrightarrow>
       deliver reassembler_new evs = map snd packets)"
proof -
  obtain gs where gs: "batch_packets packets 4080 = Inr (map frames_bytes gs)"
    "concat gs = concat (map (packet_frames 4080) packets)"
    using batch_packets_groups [of 4080 packets] assms by auto
  have fit: "list_all (\<lambda>r. r \<noteq> [] \<and> length r \<le> 4080) (map frames_bytes gs)"
    using batch_fit [OF gs(1)] .
  have known: "frame_wf f \<and> fr_type f \<in> {0x01, 0x03}" if "f \<in> set g" "g \<in> set gs" for f g
  proof -
    have "f \<in> set (concat (map (packet_frames 4080) packets))" using that unfolding gs(2) [symmetric] by auto
    then obtain p where "p \<in> set packets" "f \<in> set (packet_frames 4080 p)" by auto
    then show ?thesis using encode_packet_eq [of 4080 "snd p" "fst p"] assms
      by (simp add: list_all_iff)
  qed
  have "parse_frames (frames_bytes g) Data = Inr g" if "g \<in> set gs" for g
  proof -
    have k: "frame_wf f \<and> frame_known Data (fr_type f)" if "f \<in> set g" for f
      using known [OF that \<open>g \<in> set gs\<close>] by (auto simp: frame_known_def)
    then have "list_all frame_wf g" "\<not> list_ex (frame_critical Data) g" "filter (\<lambda>f. frame_known Data (fr_type f)) g = g"
      by (auto simp: list_all_iff list_ex_iff frame_critical_def intro!: filter_True)
    moreover have "length (frames_bytes g) < 2 ^ 64" using fit that by (auto simp: list_all_iff)
    ultimately show ?thesis using parse_frames_concat [of g Data] by simp
  qed
  then have "map (\<lambda>r. parse_frames r Data) (map frames_bytes gs) = map Inr gs" by simp
  moreover have "\<forall>evs t. map fst evs = concat gs \<and> (\<forall>now\<in>snd ` set evs. t \<le> now \<and> now < t + int reassembly_timeout) \<longrightarrow>
       deliver reassembler_new evs = map snd packets"
    using deliver_packets [of 4080 packets reassembler_new] assms reassembler_new_wf
    by (auto simp: gs(2) reassembler_new_def)
  ultimately show ?thesis using gs(1) fit
    by (intro exI [of _ "map frames_bytes gs"] exI [of _ gs]) (auto simp: list_all_iff)
qed

theorem batch_delivers_packets_witness:
  "\<exists>records frames. batch_packets [(1, replicate 9000 7), (1, [1, 2])] 4080 = Inr records \<and>
    list_all (\<lambda>r. length r + 16 \<le> 4096) records \<and>
    map (\<lambda>r. parse_frames r Data) records = map Inr frames \<and>
    deliver reassembler_new (map (\<lambda>f. (f, 5)) (concat frames)) = [replicate 9000 7, [1, 2]]"
proof -
  have "list_all (\<lambda>p. length (snd p) \<le> 65535) [(1, replicate 9000 7), (1, [1, 2])]" by simp
  from batch_delivers_packets [OF this] obtain records frames where
    r: "batch_packets [(1, replicate 9000 7), (1, [1, 2])] 4080 = Inr records"
      "list_all (\<lambda>r. length r + 16 \<le> 4096) records"
      "map (\<lambda>r. parse_frames r Data) records = map Inr frames"
    and d: "\<And>evs t. map fst evs = concat frames \<and>
        (\<forall>now\<in>snd ` set evs. t \<le> now \<and> now < t + int reassembly_timeout) \<Longrightarrow>
        deliver reassembler_new evs = map snd [(1 :: u32, replicate 9000 7), (1, [1, 2])]"
    by blast
  have "deliver reassembler_new (map (\<lambda>f. (f, 5)) (concat frames)) = [replicate 9000 7, [1, 2]]"
    using d [of "map (\<lambda>f. (f, 5)) (concat frames)" 5] by (auto simp: reassembly_timeout_def o_def)
  then show ?thesis using r by blast
qed

end
