(* ===== verification/Reka_Session.thy ===== *)
theory Reka_Session
  imports Reka_Admission Reka_Epochs Reka_Batch
begin

text \<open>
  An established session: \<open>process_record\<close>, \<open>shape_traffic\<close>, \<open>send_outbound_packets\<close>,
  \<open>validate_migration_path\<close>, the event loop \<open>run_established_session\<close>, and \<open>serve_session\<close> around them
  (\<open>main.rs\<close>). The loop is a sequence of the events that \<open>select!\<close> chooses. What the code reads from outside
  (the clock, random bytes, the outcome of a write to the kernel) is indexed by a counter of such readings in
  the state. The records given to a carrier, the records opened and the packets given to the kernel are kept in
  the state so that the theorems can speak of them.
\<close>

section \<open>Model\<close>

text \<open>The counters of \<open>Metrics\<close> that a session changes.\<close>

record session_metrics =
  sm_sessions_total :: u64
  sm_wss_sessions_total :: u64
  sm_h2_sessions_total :: u64
  sm_h3_sessions_total :: u64
  sm_sessions_active :: u64
  sm_handshake_attempts_total :: u64
  sm_handshake_failed :: u64
  sm_handshake_duration_micros_total :: u64
  sm_overloaded_total :: u64
  sm_rekey_failed_total :: u64
  sm_routine_rekeys_total :: u64
  sm_full_rekeys_total :: u64
  sm_shaping_delay_micros_total :: u64
  sm_migrations_total :: u64
  sm_migration_failed_total :: u64
  sm_disconnects_expected_total :: u64
  sm_disconnects_error_total :: u64

record session_io =
  io_now :: "nat \<Rightarrow> instant"
  io_random :: "nat \<Rightarrow> nat \<Rightarrow> bytes"
  io_helper :: bool
  io_kernel :: "nat \<Rightarrow> io_outcome \<times> bool \<times> io_outcome"
  io_patience :: "nat \<Rightarrow> nat"

record session_ctx =
  cx_carrier :: carrier
  cx_network :: network
  cx_session :: established_session
  cx_metrics :: session_metrics
  cx_sent :: "bytes list"
  cx_opened :: "record_header list"
  cx_kernel :: "bytes list"
  cx_tick :: nat

text \<open>Sequencing with \<open>?\<close>: an error ends the function with the state reached so far.\<close>

definition then_in :: "'a result \<times> 's \<Rightarrow> ('a \<Rightarrow> 's \<Rightarrow> 'b result \<times> 's) \<Rightarrow> 'b result \<times> 's" where
  "then_in p f = (case p of (Inl e, s) \<Rightarrow> (Inl e, s) | (Inr x, s) \<Rightarrow> f x s)"

definition cx_now :: "session_io \<Rightarrow> session_ctx \<Rightarrow> instant" where
  "cx_now io cx = io_now io (cx_tick cx)"

definition ticked :: "session_ctx \<Rightarrow> session_ctx" where
  "ticked cx = cx\<lparr>cx_tick := cx_tick cx + 1\<rparr>"

text \<open>A call on \<open>session.crypto\<close>, on \<open>session.fragments\<close> and on \<open>carrier\<close>.\<close>

definition on_crypto :: "(rekey_session \<Rightarrow> 'a result \<times> rekey_session) \<Rightarrow> session_ctx \<Rightarrow> 'a result \<times> session_ctx" where
  "on_crypto f cx =
     (let (r, k) = f (est_crypto (cx_session cx)) in (r, cx\<lparr>cx_session := (cx_session cx)\<lparr>est_crypto := k\<rparr>\<rparr>))"

definition open_record :: "crypto \<Rightarrow> session_io \<Rightarrow> bytes \<Rightarrow> session_ctx \<Rightarrow> opened_record result \<times> session_ctx" where
  "open_record C io encoded cx =
     (let (r, cx1) = on_crypto (\<lambda>s. rekey_open C s encoded (cx_now io cx)) (ticked cx)
      in (r, case r of Inl _ \<Rightarrow> cx1 | Inr opened \<Rightarrow> cx1\<lparr>cx_opened := cx_opened cx1 @ [or_header opened]\<rparr>))"

definition push_fragment :: "session_io \<Rightarrow> bytes \<Rightarrow> session_ctx \<Rightarrow> bytes option result \<times> session_ctx" where
  "push_fragment io body cx =
     (let (r, ra) = reassembler_push (est_fragments (cx_session cx)) body (cx_now io cx)
      in (r, ticked (cx\<lparr>cx_session := (cx_session cx)\<lparr>est_fragments := ra\<rparr>\<rparr>)))"

definition send_record :: "bytes \<Rightarrow> session_ctx \<Rightarrow> unit result \<times> session_ctx" where
  "send_record rec cx =
     (let (r, c) = carrier_send_binary (cx_carrier cx) rec in (r, cx\<lparr>cx_carrier := c, cx_sent := cx_sent cx @ [rec]\<rparr>))"

definition send_pong :: "bytes \<Rightarrow> session_ctx \<Rightarrow> unit result \<times> session_ctx" where
  "send_pong payload cx = (let (r, c) = carrier_send_pong (cx_carrier cx) payload in (r, cx\<lparr>cx_carrier := c\<rparr>))"

definition to_kernel :: "session_io \<Rightarrow> bytes \<Rightarrow> session_ctx \<Rightarrow> unit result \<times> session_ctx" where
  "to_kernel io packet cx =
     (let (first, reconnected, second) = io_kernel io (cx_tick cx);
          (r, n) = send_to_kernel (cx_network cx) (io_helper io) packet first reconnected second
      in (r, ticked (cx\<lparr>cx_network := n, cx_kernel := cx_kernel cx @ [packet]\<rparr>)))"

definition shape_traffic :: "session_io \<Rightarrow> nat \<Rightarrow> session_ctx \<Rightarrow> unit result \<times> session_ctx" where
  "shape_traffic io bytes cx =
     (let (r, policy) = session_policy_reserve (est_policy (cx_session cx)) bytes (cx_now io cx);
          cx1 = ticked (cx\<lparr>cx_session := (cx_session cx)\<lparr>est_policy := policy\<rparr>\<rparr>)
      in attempt r cx1 (\<lambda>delay.
           if delay = 0 then (Inr (), cx1)
           else (Inr (), cx1\<lparr>cx_metrics := (cx_metrics cx1)\<lparr>sm_shaping_delay_micros_total :=
                   sm_shaping_delay_micros_total (cx_metrics cx1) + of_nat (min (delay div 1000) u64_max)\<rparr>\<rparr>)))"

text \<open>The body of \<open>process_record\<close> for one frame of a data record, and the loop.\<close>

definition process_fragment :: "session_io \<Rightarrow> client \<Rightarrow> frame \<Rightarrow> session_ctx \<Rightarrow> unit result \<times> session_ctx" where
  "process_fragment io client frame cx =
     then_in (push_fragment io (fr_body frame) cx) (\<lambda>reassembled cx1.
       case reassembled of
         None \<Rightarrow> (Inr (), cx1)
       | Some packet \<Rightarrow>
           attempt (validate_ipv4_packet packet (cl_tunnel_ipv4 client)) cx1 (\<lambda>_.
           then_in (shape_traffic io (length packet) cx1) (\<lambda>_ cx2. to_kernel io packet cx2)))"

definition process_whole_frame :: "crypto \<Rightarrow> session_io \<Rightarrow> client \<Rightarrow> frame \<Rightarrow> session_ctx \<Rightarrow> unit result \<times> session_ctx" where
  "process_whole_frame C io client frame cx =
     attempt (validate_data_frame frame (cl_tunnel_ipv4 client)) cx (\<lambda>reply.
     then_in (case reply of
         None \<Rightarrow> (Inr (), cx)
       | Some response \<Rightarrow>
           attempt (frame_encode response) cx (\<lambda>plaintext.
           then_in (on_crypto (\<lambda>s. seal_data C s plaintext False) cx) send_record)) (\<lambda>_ cx1.
     if fr_type frame = 0x01
     then then_in (shape_traffic io (length (fr_body frame)) cx1) (\<lambda>_ cx2. to_kernel io (fr_body frame) cx2)
     else (Inr (), cx1)))"

fun process_data_frames :: "crypto \<Rightarrow> session_io \<Rightarrow> client \<Rightarrow> frame list \<Rightarrow> session_ctx \<Rightarrow> bool result \<times> session_ctx" where
  "process_data_frames C io client [] cx = (Inr True, cx)"
| "process_data_frames C io client (frame # frames) cx =
     then_in (if fr_type frame = 0x03 then process_fragment io client frame cx else process_whole_frame C io client frame cx)
       (\<lambda>_. process_data_frames C io client frames)"

text \<open>A step of a key update: its failure is counted, its reply is sent.\<close>

definition rekey_reply ::
    "(rekey_session \<Rightarrow> bytes result \<times> rekey_session) \<Rightarrow> (session_metrics \<Rightarrow> session_metrics) \<Rightarrow> session_ctx \<Rightarrow> unit result \<times> session_ctx" where
  "rekey_reply f done cx =
     (let (r, cx1) = on_crypto f cx in
      case r of
        Inl e \<Rightarrow> (Inl e, ticked (cx1\<lparr>cx_metrics := (cx_metrics cx1)\<lparr>sm_rekey_failed_total := sm_rekey_failed_total (cx_metrics cx1) + 1\<rparr>\<rparr>))
      | Inr rec \<Rightarrow> send_record rec (ticked (cx1\<lparr>cx_metrics := done (cx_metrics cx1)\<rparr>)))"

definition process_control_frame ::
    "crypto \<Rightarrow> session_io \<Rightarrow> runtime_config \<Rightarrow> client \<Rightarrow> bytes \<Rightarrow> epoch_position \<Rightarrow> frame \<Rightarrow> session_ctx \<Rightarrow> unit result \<times> session_ctx" where
  "process_control_frame C io rt client encoded position frame cx =
     (if fr_type frame = 0x02 then
        attempt (frame_encode \<lparr>fr_type = 0x03, fr_flags = 0, fr_body = fr_body frame\<rparr>) cx (\<lambda>response.
        then_in (on_crypto (\<lambda>s. seal_control C s response False) cx) send_record)
      else if fr_type frame = 0x05 then
        (if position \<noteq> CurrentEpoch \<or> fr_flags frame \<noteq> 0 then (Inl (Bail ''invalid key update init epoch or flags''), cx)
         else rekey_reply (\<lambda>s. accept_update_init C s encoded (fr_body frame) (cx_now io cx)) (\<lambda>m. m) cx)
      else if fr_type frame = 0x07 then
        (if position \<noteq> PendingEpoch \<or> fr_flags frame \<noteq> 0 then (Inl (Bail ''invalid key update commit epoch or flags''), cx)
         else rekey_reply (\<lambda>s. accept_update_commit C s encoded (fr_body frame) (cx_now io cx))
                (\<lambda>m. m\<lparr>sm_routine_rekeys_total := sm_routine_rekeys_total m + 1\<rparr>) cx)
      else if fr_type frame = 0x09 then
        (if position \<noteq> CurrentEpoch \<or> fr_flags frame \<noteq> 0 then (Inl (Bail ''invalid full rekey init epoch or flags''), cx)
         else rekey_reply (\<lambda>s. accept_full_rekey_init C s encoded (fr_body frame) (cl_public_key client) (rt_server_seed rt)
                  (io_random io (cx_tick cx) 32) (cx_now io cx)) (\<lambda>m. m) cx)
      else if fr_type frame = 0x0B then
        (if position \<noteq> PendingEpoch \<or> fr_flags frame \<noteq> 0
         then (Inl (Bail ''invalid full rekey confirmation epoch or flags''), cx)
         else rekey_reply (\<lambda>s. accept_full_rekey_confirm C s encoded (fr_body frame) (cx_now io cx))
                (\<lambda>m. m\<lparr>sm_full_rekeys_total := sm_full_rekeys_total m + 1\<rparr>) cx)
      else (Inr (), cx))"

text \<open>A frame of type 0x12 ends the session.\<close>

fun process_control_frames ::
    "crypto \<Rightarrow> session_io \<Rightarrow> runtime_config \<Rightarrow> client \<Rightarrow> bytes \<Rightarrow> epoch_position \<Rightarrow> frame list \<Rightarrow> session_ctx \<Rightarrow> bool result \<times> session_ctx" where
  "process_control_frames C io rt client encoded position [] cx = (Inr True, cx)"
| "process_control_frames C io rt client encoded position (frame # frames) cx =
     (if fr_type frame = 0x12 then (Inr False, cx)
      else then_in (process_control_frame C io rt client encoded position frame cx)
             (\<lambda>_. process_control_frames C io rt client encoded position frames))"

definition process_record ::
    "crypto \<Rightarrow> session_io \<Rightarrow> runtime_config \<Rightarrow> client \<Rightarrow> bytes \<Rightarrow> session_ctx \<Rightarrow> bool result \<times> session_ctx" where
  "process_record C io rt client encoded cx =
     then_in (open_record C io encoded cx) (\<lambda>opened cx1.
       case rh_kind (or_header opened) of
         Data \<Rightarrow>
           attempt (parse_frames (or_plaintext opened) Data) cx1 (\<lambda>frames. process_data_frames C io client frames cx1)
       | Control \<Rightarrow>
           attempt (parse_frames (or_plaintext opened) Control) cx1 (\<lambda>frames.
             if length frames \<noteq> 1 \<and> list_ex (\<lambda>frame. 0x04 \<le> fr_type frame \<and> fr_type frame \<le> 0x11) frames
             then (Inl (Bail ''security-critical control record must contain one frame''), cx1)
             else process_control_frames C io rt client encoded (or_position opened) frames cx1))"

text \<open>The outbound direction.\<close>

definition max_ciphertext_len :: nat where "max_ciphertext_len = 4096"

definition send_outbound_record :: "crypto \<Rightarrow> bytes \<Rightarrow> session_ctx \<Rightarrow> unit result \<times> session_ctx" where
  "send_outbound_record C plaintext cx = then_in (on_crypto (\<lambda>s. seal_data C s plaintext False) cx) send_record"

fun send_outbound_records :: "crypto \<Rightarrow> bytes list \<Rightarrow> session_ctx \<Rightarrow> unit result \<times> session_ctx" where
  "send_outbound_records C [] cx = (Inr (), cx)"
| "send_outbound_records C (plaintext # rest) cx =
     then_in (send_outbound_record C plaintext cx) (\<lambda>_. send_outbound_records C rest)"

definition send_outbound_packets :: "crypto \<Rightarrow> session_io \<Rightarrow> bytes list \<Rightarrow> session_ctx \<Rightarrow> unit result \<times> session_ctx" where
  "send_outbound_packets C io packets cx =
     attempt (batch_packets (map (\<lambda>(i, packet). (from_be (io_random io (cx_tick cx + i) 4), packet)) (enumerate 0 packets))
               (max_ciphertext_len - 16)) (ticked cx) (\<lambda>records.
       send_outbound_records C records (cx\<lparr>cx_tick := cx_tick cx + length packets\<rparr>))"

text \<open>The check of a new carrier; \<open>cx_carrier\<close> is the candidate. The five seconds of patience are the number of
  carrier events that arrive within them.\<close>

fun await_response :: "nat \<Rightarrow> session_ctx \<Rightarrow> bytes result \<times> session_ctx" where
  "await_response 0 cx = (Inl (Bail ''migration path response timeout''), cx)"
| "await_response (Suc n) cx =
     (let (r, c) = carrier_recv (cx_carrier cx); cx1 = cx\<lparr>cx_carrier := c\<rparr> in
      attempt r cx1 (\<lambda>event.
        case event of
          BinaryEvent encoded \<Rightarrow> (Inr encoded, cx1)
        | PingEvent payload \<Rightarrow> then_in (send_pong payload cx1) (\<lambda>_. await_response n)
        | CloseEvent \<Rightarrow> (Inl (Bail ''migration carrier closed''), cx1)
        | IgnoreEvent \<Rightarrow> await_response n cx1))"

definition validate_migration_path :: "crypto \<Rightarrow> session_io \<Rightarrow> session_ctx \<Rightarrow> unit result \<times> session_ctx" where
  "validate_migration_path C io cx =
     (let carrier_id = io_random io (cx_tick cx) 16;
          challenge = io_random io (cx_tick cx + 1) 32
      in
      then_in (on_crypto (\<lambda>s. path_challenge C s (est_migration_secret (cx_session cx)) carrier_id challenge)
          (cx\<lparr>cx_tick := cx_tick cx + 2\<rparr>)) (\<lambda>(rec, expected) cx1.
      then_in (send_record rec cx1) (\<lambda>_ cx2.
      then_in (await_response (io_patience io (cx_tick cx2)) cx2) (\<lambda>encoded cx3.
      then_in (open_record C io encoded cx3) (\<lambda>opened cx4.
      if rh_kind (or_header opened) \<noteq> Control \<or> or_position opened \<noteq> CurrentEpoch
      then (Inl (Bail ''invalid migration response record''), cx4)
      else
      attempt (parse_frames (or_plaintext opened) Control) cx4 (\<lambda>frames.
      if length frames \<noteq> 1 \<or> fr_type (hd frames) \<noteq> 0x0D \<or> fr_flags (hd frames) \<noteq> 0
      then (Inl (Bail ''invalid migration response frame''), cx4)
      else on_crypto (\<lambda>s. accept_path_response C s encoded (fr_body (hd frames)) carrier_id expected) cx4))))))"

text \<open>The state of the loop: the session with its current carrier, the carrier it migrated away from with the
  end of its grace time, the timer of the next key update check, and the closed carriers.\<close>

record tunnel =
  tn_cx :: session_ctx
  tn_draining :: "(carrier \<times> instant) option"
  tn_update_check :: instant
  tn_lease :: session_lease
  tn_closed :: "carrier list"

text \<open>What \<open>select!\<close> can find ready. A timer that has not expired is not ready, and \<open>SwitchEvent\<close> is the reader
  task of the network at work.\<close>

datatype tunnel_event =
    LifetimeExpired
  | UpdateTimer
  | CarrierMessage
  | DrainingMessage
  | DrainingExpired
  | PacketsReady
  | MigrationOffered carrier
  | MigrationsClosed
  | SwitchEvent reader_event

text \<open>How a branch ends: \<open>Proceed\<close> to the code after \<open>select!\<close>, \<open>Skip\<close> it (\<open>continue\<close>, or the branch was not ready),
  or \<open>Return\<close>.\<close>

datatype flow = Proceed | Skip | Return

definition in_cx :: "tunnel \<Rightarrow> 'a result \<times> session_ctx \<Rightarrow> ('a \<Rightarrow> flow) \<Rightarrow> flow result \<times> tunnel" where
  "in_cx t p f = (case p of (r, cx) \<Rightarrow> (map_sum id f r, t\<lparr>tn_cx := cx\<rparr>))"

definition carrier_event_step ::
    "crypto \<Rightarrow> session_io \<Rightarrow> runtime_config \<Rightarrow> client \<Rightarrow> carrier_event \<Rightarrow> session_ctx \<Rightarrow> flow result \<times> session_ctx" where
  "carrier_event_step C io rt client event cx =
     (case event of
        BinaryEvent encoded \<Rightarrow>
          (let (r, cx1) = process_record C io rt client encoded cx in (map_sum id (\<lambda>alive. if alive then Proceed else Return) r, cx1))
      | PingEvent payload \<Rightarrow> (let (r, cx1) = send_pong payload cx in (map_sum id (\<lambda>_. Proceed) r, cx1))
      | CloseEvent \<Rightarrow> (Inr Return, cx)
      | IgnoreEvent \<Rightarrow> (Inr Proceed, cx))"

definition close_draining :: "tunnel \<Rightarrow> tunnel" where
  "close_draining t =
     (case tn_draining t of
        None \<Rightarrow> t
      | Some (old, _) \<Rightarrow> t\<lparr>tn_draining := None, tn_closed := tn_closed t @ [carrier_close old]\<rparr>)"

text \<open>The message of a draining carrier is handled with that carrier in the place of the current one.\<close>

definition draining_step :: "crypto \<Rightarrow> session_io \<Rightarrow> runtime_config \<Rightarrow> client \<Rightarrow> carrier \<Rightarrow> instant \<Rightarrow> tunnel \<Rightarrow> flow result \<times> tunnel" where
  "draining_step C io rt client old deadline t =
     (let (r, old1) = carrier_recv old; t1 = t\<lparr>tn_draining := Some (old1, deadline)\<rparr> in
      attempt r t1 (\<lambda>event.
        if event = CloseEvent then (Inr Proceed, close_draining t1)
        else
          let (r2, cx) = carrier_event_step C io rt client event ((tn_cx t)\<lparr>cx_carrier := old1\<rparr>)
          in (r2, t1\<lparr>tn_cx := cx\<lparr>cx_carrier := cx_carrier (tn_cx t)\<rparr>, tn_draining := Some (cx_carrier cx, deadline)\<rparr>)))"

fun take_packets :: "nat \<Rightarrow> network \<Rightarrow> session_lease \<Rightarrow> bytes list \<times> network" where
  "take_packets 0 n lease = ([], n)"
| "take_packets (Suc k) n lease =
     (case take_outbound n lease of
        (None, n1) \<Rightarrow> ([], n1)
      | (Some packet, n1) \<Rightarrow> (let (packets, n2) = take_packets k n1 lease in (packet # packets, n2)))"

definition outbound_step :: "crypto \<Rightarrow> session_io \<Rightarrow> tunnel \<Rightarrow> flow result \<times> tunnel" where
  "outbound_step C io t =
     (let cx = tn_cx t; (packets, n) = take_packets 32 (cx_network cx) (tn_lease t); cx1 = cx\<lparr>cx_network := n\<rparr> in
      if packets = [] then
        (case nw_sessions (cx_network cx) (lease_ip (tn_lease t)) of
           Some session \<Rightarrow> (Inr (if rg_id session = lease_id (tn_lease t) then Skip else Return), t)
         | None \<Rightarrow> (Inr Return, t))
      else
        in_cx t (then_in (shape_traffic io (sum_list (map length packets)) cx1) (\<lambda>_. send_outbound_packets C io packets))
          (\<lambda>_. Proceed))"

definition migration_step :: "crypto \<Rightarrow> session_io \<Rightarrow> carrier \<Rightarrow> tunnel \<Rightarrow> flow result \<times> tunnel" where
  "migration_step C io candidate t =
     (let current = cx_carrier (tn_cx t);
          (r, cx) = validate_migration_path C io ((tn_cx t)\<lparr>cx_carrier := candidate\<rparr>)
      in case r of
        Inr _ \<Rightarrow>
          let t1 = close_draining t;
              m = cx_metrics cx
          in (Inr Proceed,
              t1\<lparr>tn_cx := ticked (cx\<lparr>cx_carrier := mark_application_ready (cx_carrier cx),
                                     cx_metrics := m\<lparr>sm_migrations_total := sm_migrations_total m + 1\<rparr>\<rparr>),
                 tn_draining := Some (current, cx_now io cx + 3 * 1000000000)\<rparr>)
      | Inl _ \<Rightarrow>
          let m = cx_metrics cx
          in (Inr Proceed,
              t\<lparr>tn_cx := cx\<lparr>cx_carrier := current, cx_metrics := m\<lparr>sm_migration_failed_total := sm_migration_failed_total m + 1\<rparr>\<rparr>,
                 tn_closed := tn_closed t @ [carrier_close (cx_carrier cx)]\<rparr>))"

fun select_branch ::
    "crypto \<Rightarrow> session_io \<Rightarrow> runtime_config \<Rightarrow> client \<Rightarrow> tunnel \<Rightarrow> tunnel_event \<Rightarrow> flow result \<times> tunnel" where
  "select_branch C io rt client t LifetimeExpired =
     (if cx_now io (tn_cx t) < sp_deadline (est_policy (cx_session (tn_cx t))) then (Inr Skip, t)
      else (Inl (Bail ''session lifetime expired''), t))"
| "select_branch C io rt client t UpdateTimer =
     (if cx_now io (tn_cx t) < tn_update_check t then (Inr Skip, t) else (Inr Proceed, t))"
| "select_branch C io rt client t CarrierMessage =
     (let (r, c) = carrier_recv (cx_carrier (tn_cx t)); cx1 = (tn_cx t)\<lparr>cx_carrier := c\<rparr> in
      attempt r (t\<lparr>tn_cx := cx1\<rparr>) (\<lambda>event. in_cx t (carrier_event_step C io rt client event cx1) id))"
| "select_branch C io rt client t DrainingMessage =
     (case tn_draining t of None \<Rightarrow> (Inr Skip, t) | Some (old, deadline) \<Rightarrow> draining_step C io rt client old deadline t)"
| "select_branch C io rt client t DrainingExpired =
     (case tn_draining t of
        None \<Rightarrow> (Inr Skip, t)
      | Some (old, deadline) \<Rightarrow> if cx_now io (tn_cx t) < deadline then (Inr Skip, t) else (Inr Proceed, close_draining t))"
| "select_branch C io rt client t PacketsReady = outbound_step C io t"
| "select_branch C io rt client t (MigrationOffered candidate) = migration_step C io candidate t"
| "select_branch C io rt client t MigrationsClosed = (Inr Skip, t)"
| "select_branch C io rt client t (SwitchEvent e) =
     (Inr Skip, t\<lparr>tn_cx := (tn_cx t)\<lparr>cx_network := reader_step (cx_network (tn_cx t)) e\<rparr>\<rparr>)"

definition after_select :: "crypto \<Rightarrow> session_io \<Rightarrow> tunnel \<Rightarrow> unit result \<times> tunnel" where
  "after_select C io t =
     (let (r, cx) = then_in (on_crypto (\<lambda>s. request_update_if_due C s (cx_now io (tn_cx t))) (ticked (tn_cx t)))
            (\<lambda>update cx. case update of None \<Rightarrow> (Inr (), cx) | Some rec \<Rightarrow> send_record rec cx)
      in attempt r (t\<lparr>tn_cx := cx\<rparr>) (\<lambda>_.
           (Inr (), t\<lparr>tn_cx := ticked cx, tn_update_check := next_update_check (est_crypto (cx_session cx)) (cx_now io cx)\<rparr>)))"

text \<open>One turn of the loop; \<open>True\<close> to go on.\<close>

definition tunnel_step ::
    "crypto \<Rightarrow> session_io \<Rightarrow> runtime_config \<Rightarrow> client \<Rightarrow> tunnel \<Rightarrow> tunnel_event \<Rightarrow> bool result \<times> tunnel" where
  "tunnel_step C io rt client t e =
     then_in (select_branch C io rt client t e) (\<lambda>flow t1.
       case flow of
         Proceed \<Rightarrow> then_in (after_select C io t1) (\<lambda>_ t2. (Inr True, t2))
       | Skip \<Rightarrow> (Inr True, t1)
       | Return \<Rightarrow> (Inr False, t1))"

text \<open>\<open>None\<close> while the loop still runs.\<close>

fun tunnel_run ::
    "crypto \<Rightarrow> session_io \<Rightarrow> runtime_config \<Rightarrow> client \<Rightarrow> tunnel \<Rightarrow> tunnel_event list \<Rightarrow> unit result option \<times> tunnel" where
  "tunnel_run C io rt client t [] = (None, t)"
| "tunnel_run C io rt client t (e # es) =
     (case tunnel_step C io rt client t e of
        (Inl error, t1) \<Rightarrow> (Some (Inl error), t1)
      | (Inr alive, t1) \<Rightarrow> if alive then tunnel_run C io rt client t1 es else (Some (Inr ()), t1))"

definition run_established_session ::
    "crypto \<Rightarrow> session_io \<Rightarrow> runtime_config \<Rightarrow> client \<Rightarrow> session_ctx \<Rightarrow> tunnel_event list \<Rightarrow> unit result option \<times> session_ctx" where
  "run_established_session C io rt client cx events =
     (case network_register (cx_network cx) (cl_tunnel_ipv4 client) of
        (Inl e, n) \<Rightarrow> (Some (Inl e), cx\<lparr>cx_network := n\<rparr>)
      | (Inr lease, n) \<Rightarrow>
          (case tunnel_run C io rt client
              \<lparr>tn_cx = ticked (cx\<lparr>cx_network := n\<rparr>), tn_draining = None,
               tn_update_check = next_update_check (est_crypto (cx_session cx)) (cx_now io cx),
               tn_lease = lease, tn_closed = []\<rparr> events of
             (None, t) \<Rightarrow> (None, tn_cx t)
           | (Some r, t) \<Rightarrow> (Some r, (tn_cx t)\<lparr>cx_network := lease_drop (cx_network (tn_cx t)) lease\<rparr>)))"

text \<open>The class of an error: its code, and whether it is an expected end of a session.\<close>

fun contains :: "string \<Rightarrow> string \<Rightarrow> bool" where
  "contains sub [] \<longleftrightarrow> sub = []"
| "contains sub (c # cs) \<longleftrightarrow> take (length sub) (c # cs) = sub \<or> contains sub cs"

definition to_ascii_lowercase :: "string \<Rightarrow> string" where
  "to_ascii_lowercase s = map (\<lambda>c. if 65 \<le> (of_char c :: nat) \<and> (of_char c :: nat) \<le> 90 then char_of ((of_char c :: nat) + 32) else c) s"

fun failure_text :: "failure \<Rightarrow> string" where
  "failure_text (Bail message) = message"
| "failure_text (Panic message) = message"

definition disconnect_reason :: "failure \<Rightarrow> string \<times> bool" where
  "disconnect_reason error =
     (let reason = to_ascii_lowercase (failure_text error) in
      if contains ''lifetime expired'' reason then (''session_lifetime'', True)
      else if contains ''quota exceeded'' reason then (''session_quota'', True)
      else if contains ''carrier closed'' reason \<or> contains ''connection reset'' reason \<or> contains ''broken pipe'' reason \<or>
              contains ''error reading a body from connection'' reason then (''peer_closed'', True)
      else if contains ''already has an active session'' reason then (''duplicate_session'', True)
      else if contains ''timed out'' reason \<or> contains ''timeout'' reason then (''transport_timeout'', True)
      else (''protocol_error'', False))"

text \<open>The shared state that a session starts from, with the free permits for carriers.\<close>

record server =
  sv_admission :: admission_state
  sv_network :: network
  sv_metrics :: session_metrics
  sv_permits :: nat

text \<open>The timed handshake: \<open>timed_out\<close> is the carrier as the abandoned handshake leaves it.\<close>

definition timed_handshake ::
    "crypto \<Rightarrow> runtime_config \<Rightarrow> client \<Rightarrow> handshake_inputs \<Rightarrow> carrier option \<Rightarrow> carrier \<Rightarrow> established_session result option \<times> carrier" where
  "timed_handshake C rt client hi timed_out carrier =
     (case timed_out of
        Some c \<Rightarrow> (None, c)
      | None \<Rightarrow> (let (r, c) = inner_handshake C rt client hi carrier in (Some r, c)))"

definition count_session :: "string \<Rightarrow> session_metrics \<Rightarrow> session_metrics" where
  "count_session kind m =
     (let m1 = m\<lparr>sm_sessions_total := sm_sessions_total m + 1, sm_sessions_active := sm_sessions_active m + 1\<rparr> in
      if kind = ''wss'' then m1\<lparr>sm_wss_sessions_total := sm_wss_sessions_total m1 + 1\<rparr>
      else if kind = ''h2'' then m1\<lparr>sm_h2_sessions_total := sm_h2_sessions_total m1 + 1\<rparr>
      else m1\<lparr>sm_h3_sessions_total := sm_h3_sessions_total m1 + 1\<rparr>)"

definition count_disconnect :: "unit result \<Rightarrow> session_metrics \<Rightarrow> session_metrics" where
  "count_disconnect r m =
     (case r of
        Inr _ \<Rightarrow> m
      | Inl error \<Rightarrow>
          if snd (disconnect_reason error) then m\<lparr>sm_disconnects_expected_total := sm_disconnects_expected_total m + 1\<rparr>
          else m\<lparr>sm_disconnects_error_total := sm_disconnects_error_total m + 1\<rparr>)"

definition session_inactive :: "session_metrics \<Rightarrow> session_metrics" where
  "session_inactive m = m\<lparr>sm_sessions_active := sm_sessions_active m - 1\<rparr>"

text \<open>A session that the handshake has established, until its loop returns.\<close>

definition serve_established ::
    "crypto \<Rightarrow> session_io \<Rightarrow> runtime_config \<Rightarrow> client \<Rightarrow> established_session \<Rightarrow> tunnel_event list \<Rightarrow> carrier \<Rightarrow> server \<Rightarrow> (carrier \<times> server) option" where
  "serve_established C io rt client est events carrier sv =
     (let m = count_session (carrier_kind carrier) (sv_metrics sv);
          (registered, ad) = register_migration (sv_admission sv) (est_session_id est) (est_migration_secret est)
      in case registered of
        Inl _ \<Rightarrow> Some (carrier_close carrier, sv\<lparr>sv_admission := ad, sv_metrics := session_inactive m\<rparr>)
      | Inr _ \<Rightarrow>
          (case run_established_session C io rt client
              \<lparr>cx_carrier = mark_application_ready carrier, cx_network = sv_network sv, cx_session = est, cx_metrics = m,
               cx_sent = [], cx_opened = [], cx_kernel = [], cx_tick = 0\<rparr> events of
             (None, _) \<Rightarrow> None
           | (Some r, cx) \<Rightarrow>
               Some (carrier_close (cx_carrier cx),
                 sv\<lparr>sv_admission := migration_registration_drop ad (est_session_id est), sv_network := cx_network cx,
                    sv_metrics := session_inactive (count_disconnect r (cx_metrics cx))\<rparr>)))"

text \<open>\<open>serve_session\<close>, until it returns: the carrier and the shared state afterwards, the permit given back.\<close>

definition serve_session ::
    "crypto \<Rightarrow> session_io \<Rightarrow> runtime_config \<Rightarrow> client \<Rightarrow> handshake_inputs \<Rightarrow> carrier option \<Rightarrow> nat \<Rightarrow> tunnel_event list \<Rightarrow> carrier \<Rightarrow>
     server \<Rightarrow> (carrier \<times> server) option" where
  "serve_session C io rt client hi timed_out micros events carrier sv =
     (if sv_permits sv = 0 then
        Some (carrier_close carrier, sv\<lparr>sv_metrics := (sv_metrics sv)\<lparr>sm_overloaded_total := sm_overloaded_total (sv_metrics sv) + 1\<rparr>\<rparr>)
      else if ad_draining (sv_admission sv) then Some (carrier_close carrier, sv)
      else
        let (outcome, c) = timed_handshake C rt client hi timed_out carrier;
            m = (sv_metrics sv)\<lparr>sm_handshake_attempts_total := sm_handshake_attempts_total (sv_metrics sv) + 1,
                  sm_handshake_duration_micros_total :=
                    sm_handshake_duration_micros_total (sv_metrics sv) + of_nat (min micros u64_max)\<rparr>;
            failed = m\<lparr>sm_handshake_failed := sm_handshake_failed m + 1\<rparr>
        in case outcome of
          None \<Rightarrow> Some (carrier_close c, sv\<lparr>sv_metrics := failed\<rparr>)
        | Some (Inl _) \<Rightarrow> Some (carrier_close c, sv\<lparr>sv_metrics := failed\<rparr>)
        | Some (Inr est) \<Rightarrow>
            map_option (\<lambda>(c', sv'). (c', sv'\<lparr>sv_permits := sv_permits sv' + 1\<rparr>))
              (serve_established C io rt client est events c (sv\<lparr>sv_metrics := m, sv_permits := sv_permits sv - 1\<rparr>)))"

section \<open>How a session evolves\<close>

text \<open>A relation that every step of a function keeps holds from its start to its end, whether it fails or not.\<close>

locale evolution =
  fixes rel :: "'s \<Rightarrow> 's \<Rightarrow> bool"
  assumes rel_refl: "rel s s"
    and rel_trans: "rel s t \<Longrightarrow> rel t u \<Longrightarrow> rel s u"
begin

lemma then_in_rel:
  assumes "rel s (snd p)" and "\<And>x t. p = (Inr x, t) \<Longrightarrow> rel t (snd (f x t))"
  shows "rel s (snd (then_in p f))"
  using assms rel_trans by (cases p; cases "fst p") (force simp: then_in_def)+

lemma attempt_rel:
  assumes "rel s t" and "\<And>x. r = Inr x \<Longrightarrow> rel s (snd (f x))"
  shows "rel s (snd (attempt r t f))"
  using assms by (cases r) auto

end

definition total_bytes :: "bytes list \<Rightarrow> nat" where
  "total_bytes ps = sum_list (map length ps)"

abbreviation cx_crypto :: "session_ctx \<Rightarrow> rekey_session" where "cx_crypto cx \<equiv> est_crypto (cx_session cx)"
abbreviation cx_policy :: "session_ctx \<Rightarrow> session_policy" where "cx_policy cx \<equiv> est_policy (cx_session cx)"

text \<open>The key schedule runs; the new records on the carriers are records it sealed, each sent at most once, and the
  new records processed are records it opened.\<close>

definition crypto_rel :: "crypto \<Rightarrow> session_ctx \<Rightarrow> session_ctx \<Rightarrow> bool" where
  "crypto_rel C cx cx' \<longleftrightarrow> (\<exists>es outs new opened. rekey_run C (cx_crypto cx) es = (outs, cx_crypto cx') \<and>
     cx_sent cx' = cx_sent cx @ new \<and> subseq (map Sent new) outs \<and>
     cx_opened cx' = cx_opened cx @ opened \<and> subseq (map Opened opened) outs)"

text \<open>The packets for the kernel are valid packets of the client, and they are counted before they are
  written.\<close>

definition kernel_rel :: "client \<Rightarrow> session_ctx \<Rightarrow> session_ctx \<Rightarrow> bool" where
  "kernel_rel client cx cx' \<longleftrightarrow> (\<exists>ps. cx_kernel cx' = cx_kernel cx @ ps \<and>
     list_all (\<lambda>p. validate_ipv4_packet p (cl_tunnel_ipv4 client) = Inr ()) ps \<and>
     sp_transferred (cx_policy cx) + total_bytes ps \<le> sp_transferred (cx_policy cx')) \<and>
   sp_quota (cx_policy cx') = sp_quota (cx_policy cx) \<and> sp_deadline (cx_policy cx') = sp_deadline (cx_policy cx) \<and>
   (policy_wf (cx_policy cx) \<longrightarrow> policy_wf (cx_policy cx'))"

text \<open>The registrations in the network and the number of active sessions stay.\<close>

definition registrations :: "network \<Rightarrow> bytes \<Rightarrow> u64 option" where
  "registrations n ip = map_option rg_id (nw_sessions n ip)"

definition frame_rel :: "session_ctx \<Rightarrow> session_ctx \<Rightarrow> bool" where
  "frame_rel cx cx' \<longleftrightarrow> registrations (cx_network cx') = registrations (cx_network cx) \<and>
     nw_poisoned (cx_network cx') = nw_poisoned (cx_network cx) \<and>
     sm_sessions_active (cx_metrics cx') = sm_sessions_active (cx_metrics cx) \<and>
     est_migration_secret (cx_session cx') = est_migration_secret (cx_session cx)"

definition session_rel :: "crypto \<Rightarrow> client \<Rightarrow> session_ctx \<Rightarrow> session_ctx \<Rightarrow> bool" where
  "session_rel C client cx cx' \<longleftrightarrow> crypto_rel C cx cx' \<and> kernel_rel client cx cx' \<and> frame_rel cx cx'"

lemma rekey_run_append:
  "rekey_run C s es = (outs, t) \<Longrightarrow> rekey_run C t es' = (outs', u) \<Longrightarrow> rekey_run C s (es @ es') = (outs @ outs', u)"
  by (induction es arbitrary: s outs) (auto simp: Let_def split: prod.splits)

lemma crypto_rel_trans: "crypto_rel C s t \<Longrightarrow> crypto_rel C t u \<Longrightarrow> crypto_rel C s u"
  unfolding crypto_rel_def
proof (elim exE conjE)
  fix es outs new opened es' outs' new' opened'
  assume "rekey_run C (cx_crypto s) es = (outs, cx_crypto t)" "cx_sent t = cx_sent s @ new" "subseq (map Sent new) outs"
    "cx_opened t = cx_opened s @ opened" "subseq (map Opened opened) outs"
    "rekey_run C (cx_crypto t) es' = (outs', cx_crypto u)" "cx_sent u = cx_sent t @ new'" "subseq (map Sent new') outs'"
    "cx_opened u = cx_opened t @ opened'" "subseq (map Opened opened') outs'"
  then show "\<exists>es outs new opened. rekey_run C (cx_crypto s) es = (outs, cx_crypto u) \<and> cx_sent u = cx_sent s @ new \<and>
      subseq (map Sent new) outs \<and> cx_opened u = cx_opened s @ opened \<and> subseq (map Opened opened) outs"
    by (intro exI [of _ "es @ es'"] exI [of _ "outs @ outs'"] exI [of _ "new @ new'"] exI [of _ "opened @ opened'"])
      (simp add: rekey_run_append list_emb_append_mono)
qed

lemma kernel_rel_trans: "kernel_rel client s t \<Longrightarrow> kernel_rel client t u \<Longrightarrow> kernel_rel client s u"
  unfolding kernel_rel_def
proof (elim exE conjE, intro conjI)
  fix ps ps'
  assume "cx_kernel t = cx_kernel s @ ps" "list_all (\<lambda>p. validate_ipv4_packet p (cl_tunnel_ipv4 client) = Inr ()) ps"
    "sp_transferred (cx_policy s) + total_bytes ps \<le> sp_transferred (cx_policy t)"
    "cx_kernel u = cx_kernel t @ ps'" "list_all (\<lambda>p. validate_ipv4_packet p (cl_tunnel_ipv4 client) = Inr ()) ps'"
    "sp_transferred (cx_policy t) + total_bytes ps' \<le> sp_transferred (cx_policy u)"
  then show "\<exists>ps. cx_kernel u = cx_kernel s @ ps \<and> list_all (\<lambda>p. validate_ipv4_packet p (cl_tunnel_ipv4 client) = Inr ()) ps \<and>
      sp_transferred (cx_policy s) + total_bytes ps \<le> sp_transferred (cx_policy u)"
    by (intro exI [of _ "ps @ ps'"]) (simp add: total_bytes_def)
qed simp_all

interpretation session: evolution "session_rel C client" for C client
proof
  show "session_rel C client s s" for s
    by (auto simp: session_rel_def crypto_rel_def kernel_rel_def frame_rel_def total_bytes_def
        intro!: exI [of _ "[]"])
  show "session_rel C client s u" if "session_rel C client s t" "session_rel C client t u" for s t u
    using that crypto_rel_trans kernel_rel_trans unfolding session_rel_def frame_rel_def by metis
qed

text \<open>A change of anything else.\<close>

lemma crypto_rel_same:
  "cx_crypto cx' = cx_crypto cx \<Longrightarrow> cx_sent cx' = cx_sent cx \<Longrightarrow> cx_opened cx' = cx_opened cx \<Longrightarrow> crypto_rel C cx cx'"
  using session.rel_refl [of C _ cx] by (simp add: session_rel_def crypto_rel_def)

lemma session_rel_same:
  assumes "cx_crypto cx' = cx_crypto cx" and "cx_sent cx' = cx_sent cx" and "cx_opened cx' = cx_opened cx" and "cx_kernel cx' = cx_kernel cx"
    and "cx_policy cx' = cx_policy cx" and "registrations (cx_network cx') = registrations (cx_network cx)"
    and "nw_poisoned (cx_network cx') = nw_poisoned (cx_network cx)"
    and "sm_sessions_active (cx_metrics cx') = sm_sessions_active (cx_metrics cx)"
    and "est_migration_secret (cx_session cx') = est_migration_secret (cx_session cx)"
  shows "session_rel C client cx cx'"
  using session.rel_refl [of C client cx] assms by (simp add: session_rel_def crypto_rel_def kernel_rel_def frame_rel_def)

lemma ticked_same [simp]:
  "cx_session (ticked cx) = cx_session cx" "cx_sent (ticked cx) = cx_sent cx" "cx_opened (ticked cx) = cx_opened cx"
  "cx_kernel (ticked cx) = cx_kernel cx" "cx_network (ticked cx) = cx_network cx" "cx_metrics (ticked cx) = cx_metrics cx"
  "cx_carrier (ticked cx) = cx_carrier cx"
  by (simp_all add: ticked_def)

text \<open>A call on the key schedule, and a call whose record is sent.\<close>

definition seals :: "crypto \<Rightarrow> (rekey_session \<Rightarrow> bytes result \<times> rekey_session) \<Rightarrow> bool" where
  "seals C f \<longleftrightarrow> (\<forall>s. \<exists>e. rekey_step C s e = shown (\<lambda>r. [Sent r]) (f s))"

lemma seals_ops [simp]:
  "seals C (\<lambda>s. seal_data C s p padded)" "seals C (\<lambda>s. seal_control C s p padded)"
  "seals C (\<lambda>s. accept_update_init C s bs body now)" "seals C (\<lambda>s. accept_update_commit C s bs body now)"
  "seals C (\<lambda>s. accept_full_rekey_init C s bs body ck sk x now)" "seals C (\<lambda>s. accept_full_rekey_confirm C s bs body now)"
  by (simp_all only: seals_def rekey_step.simps(1) [symmetric] rekey_step.simps(2) [symmetric] rekey_step.simps(4) [symmetric]
      rekey_step.simps(5) [symmetric] rekey_step.simps(6) [symmetric] rekey_step.simps(7) [symmetric]) blast+

lemma crypto_rel_step:
  assumes "rekey_step C (cx_crypto cx) e = (outs, cx_crypto cx')" and "cx_sent cx' = cx_sent cx @ new" and "subseq (map Sent new) outs"
    and "cx_opened cx' = cx_opened cx @ opened" and "subseq (map Opened opened) outs"
  shows "crypto_rel C cx cx'"
  unfolding crypto_rel_def using assms
  by (intro exI [of _ "[e]"] exI [of _ outs] exI [of _ new] exI [of _ opened]) simp

lemma session_rel_step:
  assumes "rekey_step C (cx_crypto cx) e = (outs, cx_crypto cx')" and "cx_sent cx' = cx_sent cx @ new" and "subseq (map Sent new) outs"
    and "cx_opened cx' = cx_opened cx @ opened" and "subseq (map Opened opened) outs" and "cx_kernel cx' = cx_kernel cx"
    and "cx_policy cx' = cx_policy cx" and "registrations (cx_network cx') = registrations (cx_network cx)"
    and "nw_poisoned (cx_network cx') = nw_poisoned (cx_network cx)"
    and "sm_sessions_active (cx_metrics cx') = sm_sessions_active (cx_metrics cx)"
    and "est_migration_secret (cx_session cx') = est_migration_secret (cx_session cx)"
  shows "session_rel C client cx cx'"
  using crypto_rel_step [OF assms(1-5)] assms(6-) by (simp add: session_rel_def kernel_rel_def frame_rel_def total_bytes_def)

lemma on_crypto_rel:
  assumes "\<And>s. \<exists>e outs. rekey_step C s e = (outs, snd (f s))"
  shows "session_rel C client cx (snd (on_crypto f cx))"
proof -
  obtain e outs where "rekey_step C (cx_crypto cx) e = (outs, snd (f (cx_crypto cx)))" using assms by blast
  then show ?thesis by (intro session_rel_step [of C cx e outs _ "[]" "[]"]) (auto simp: on_crypto_def split: prod.split)
qed

lemma sealed_send_rel:
  assumes "seals C f"
  shows "session_rel C client cx (snd (then_in (on_crypto f cx) send_record))"
proof -
  obtain e where e: "rekey_step C (cx_crypto cx) e = shown (\<lambda>r. [Sent r]) (f (cx_crypto cx))" using assms seals_def by blast
  obtain r k where f: "f (cx_crypto cx) = (r, k)" by fastforce
  show ?thesis
    by (rule session_rel_step [of C cx e "sent r" _ "case r of Inl _ \<Rightarrow> [] | Inr rec \<Rightarrow> [rec]" "[]"])
      (use e in \<open>auto simp: f shown_def sent_def then_in_def on_crypto_def send_record_def split: sum.split prod.split\<close>)
qed

lemma rekey_reply_rel:
  assumes "seals C f" and "\<And>m. sm_sessions_active (done m) = sm_sessions_active m"
  shows "session_rel C client cx (snd (rekey_reply f done cx))"
proof -
  obtain e where e: "rekey_step C (cx_crypto cx) e = shown (\<lambda>r. [Sent r]) (f (cx_crypto cx))" using assms seals_def by blast
  obtain r k where f: "f (cx_crypto cx) = (r, k)" by fastforce
  show ?thesis
    by (rule session_rel_step [of C cx e "sent r" _ "case r of Inl _ \<Rightarrow> [] | Inr rec \<Rightarrow> [rec]" "[]"])
      (use e assms(2) in \<open>auto simp: f shown_def sent_def rekey_reply_def on_crypto_def send_record_def split: sum.split prod.split\<close>)
qed

lemma open_record_rel: "session_rel C client cx (snd (open_record C io encoded cx))"
proof -
  obtain r k where f: "rekey_open C (cx_crypto cx) encoded (cx_now io cx) = (r, k)" by fastforce
  show ?thesis
    by (rule session_rel_step [of C cx "OpenRecord encoded (cx_now io cx)" "case r of Inl _ \<Rightarrow> [] | Inr x \<Rightarrow> opened_out x" _ "[]"
          "case r of Inl _ \<Rightarrow> [] | Inr x \<Rightarrow> [or_header x]"])
      (auto simp: f shown_def opened_out_def open_record_def on_crypto_def split: sum.split)
qed

text \<open>Traffic is counted before it goes to the kernel.\<close>

lemma reserve_counts:
  assumes "session_policy_reserve p bytes now = (r, p')"
  shows "sp_quota p' = sp_quota p" "sp_deadline p' = sp_deadline p" "policy_wf p \<Longrightarrow> policy_wf p'"
    "sp_transferred p' = sp_transferred p + (case r of Inl _ \<Rightarrow> 0 | Inr _ \<Rightarrow> bytes)"
  using assms by (auto simp: session_policy_reserve_def policy_wf_def Let_def split: if_splits prod.splits option.splits)

lemma shape_traffic_effect:
  assumes "shape_traffic io bytes cx = (r, cx')"
  shows "cx_crypto cx' = cx_crypto cx \<and> cx_sent cx' = cx_sent cx \<and> cx_opened cx' = cx_opened cx \<and> cx_kernel cx' = cx_kernel cx \<and>
    cx_network cx' = cx_network cx \<and> sm_sessions_active (cx_metrics cx') = sm_sessions_active (cx_metrics cx) \<and>
    est_migration_secret (cx_session cx') = est_migration_secret (cx_session cx) \<and> cx_carrier cx' = cx_carrier cx \<and>
    sp_quota (cx_policy cx') = sp_quota (cx_policy cx) \<and> sp_deadline (cx_policy cx') = sp_deadline (cx_policy cx) \<and>
    (policy_wf (cx_policy cx) \<longrightarrow> policy_wf (cx_policy cx')) \<and>
    sp_transferred (cx_policy cx') = sp_transferred (cx_policy cx) + (case r of Inl _ \<Rightarrow> 0 | Inr _ \<Rightarrow> bytes)"
proof -
  obtain q p where q: "session_policy_reserve (cx_policy cx) bytes (cx_now io cx) = (q, p)" by fastforce
  note reserve_counts [OF q]
  then show ?thesis using assms by (cases q) (auto simp: shape_traffic_def q Let_def split: if_splits)
qed

lemma shape_traffic_rel: "session_rel C client cx (snd (shape_traffic io bytes cx))"
proof -
  obtain r cx' where s: "shape_traffic io bytes cx = (r, cx')" by fastforce
  note e = shape_traffic_effect [OF s]
  have "crypto_rel C cx cx'" by (rule crypto_rel_same) (use e in simp_all)
  then show ?thesis using e by (simp add: s session_rel_def kernel_rel_def frame_rel_def total_bytes_def)
qed

lemma registrations_ready [simp]: "registrations (n\<lparr>nw_ready := b\<rparr>) = registrations n"
  by (simp add: registrations_def fun_eq_iff)

lemma send_to_kernel_same:
  "send_to_kernel n helper packet first reconnected second = (r, n') \<Longrightarrow> registrations n' = registrations n \<and> nw_poisoned n' = nw_poisoned n"
  by (cases "helper \<and> first = Unavailable"; cases reconnected)
    (auto simp: send_to_kernel_def attempt_def Let_def split: sum.splits if_splits prod.splits)

lemma forward_packet_rel:
  assumes "validate_ipv4_packet packet (cl_tunnel_ipv4 client) = Inr ()"
  shows "session_rel C client cx (snd (then_in (shape_traffic io (length packet) cx) (\<lambda>_ cx2. to_kernel io packet cx2)))"
proof -
  obtain r cx1 where s: "shape_traffic io (length packet) cx = (r, cx1)" by fastforce
  note e = shape_traffic_effect [OF s]
  obtain a b c where k: "io_kernel io (cx_tick cx1) = (a, b, c)" by (metis prod_cases3)
  obtain r2 n where n: "send_to_kernel (cx_network cx1) (io_helper io) packet a b c = (r2, n)" by fastforce
  show ?thesis
  proof (cases r)
    case (Inl err)
    then show ?thesis using shape_traffic_rel [of C client cx io "length packet"] by (simp add: s then_in_def)
  next
    case (Inr u)
    define cx2 where "cx2 = ticked (cx1\<lparr>cx_network := n, cx_kernel := cx_kernel cx1 @ [packet]\<rparr>)"
    have to: "to_kernel io packet cx1 = (r2, cx2)" by (simp add: to_kernel_def k n cx2_def)
    have "crypto_rel C cx cx2" by (rule crypto_rel_same) (use e in \<open>simp_all add: cx2_def\<close>)
    moreover have "kernel_rel client cx cx2"
      using e assms Inr unfolding kernel_rel_def by (intro conjI exI [of _ "[packet]"]) (simp_all add: cx2_def total_bytes_def)
    moreover have "frame_rel cx cx2" using e send_to_kernel_same [OF n] by (simp add: frame_rel_def cx2_def)
    ultimately show ?thesis using Inr by (simp add: s to then_in_def session_rel_def)
  qed
qed

lemma local_changes_rel:
  "session_rel C client cx (ticked cx)" "session_rel C client cx (cx\<lparr>cx_carrier := c\<rparr>)" "session_rel C client cx (cx\<lparr>cx_tick := k\<rparr>)"
  "session_rel C client cx (snd (push_fragment io body cx))" "session_rel C client cx (snd (send_pong payload cx))"
  by (rule session_rel_same; simp add: push_fragment_def send_pong_def split: prod.split)+

section \<open>Every step of a session\<close>

lemma process_fragment_rel: "session_rel C client cx (snd (process_fragment io client frame cx))"
  unfolding process_fragment_def
proof (rule session.then_in_rel [OF local_changes_rel(4)])
  fix x t
  show "session_rel C client t (snd (case x of None \<Rightarrow> (Inr (), t) | Some packet \<Rightarrow>
      attempt (validate_ipv4_packet packet (cl_tunnel_ipv4 client)) t
        (\<lambda>_. then_in (shape_traffic io (length packet) t) (\<lambda>_ cx2. to_kernel io packet cx2))))"
    by (cases x) (auto intro!: session.attempt_rel session.rel_refl forward_packet_rel)
qed

lemma whole_frame_valid:
  "validate_data_frame frame ip = Inr reply \<Longrightarrow> fr_type frame = 0x01 \<Longrightarrow> validate_ipv4_packet (fr_body frame) ip = Inr ()"
  by (auto simp: validate_data_frame_def and_then_Inr_iff split: if_splits)

lemma process_whole_frame_rel: "session_rel C client cx (snd (process_whole_frame C io client frame cx))"
  unfolding process_whole_frame_def
proof (rule session.attempt_rel [OF session.rel_refl])
  fix reply
  assume v: "validate_data_frame frame (cl_tunnel_ipv4 client) = Inr reply"
  have reply: "session_rel C client cx (snd (case reply of None \<Rightarrow> (Inr (), cx) | Some response \<Rightarrow>
      attempt (frame_encode response) cx (\<lambda>plaintext. then_in (on_crypto (\<lambda>s. seal_data C s plaintext False) cx) send_record)))"
    by (cases reply) (auto intro!: session.attempt_rel session.rel_refl sealed_send_rel)
  show "session_rel C client cx (snd (then_in (case reply of None \<Rightarrow> (Inr (), cx) | Some response \<Rightarrow>
      attempt (frame_encode response) cx (\<lambda>plaintext. then_in (on_crypto (\<lambda>s. seal_data C s plaintext False) cx) send_record))
      (\<lambda>_ cx1. if fr_type frame = 0x01
         then then_in (shape_traffic io (length (fr_body frame)) cx1) (\<lambda>_ cx2. to_kernel io (fr_body frame) cx2) else (Inr (), cx1))))"
    by (rule session.then_in_rel [OF reply]) (use v in \<open>auto intro!: session.rel_refl forward_packet_rel whole_frame_valid\<close>)
qed

lemma process_data_frames_rel: "session_rel C client cx (snd (process_data_frames C io client frames cx))"
  by (induction frames arbitrary: cx)
    (auto intro!: session.then_in_rel session.rel_refl process_fragment_rel process_whole_frame_rel)

lemma process_control_frame_rel: "session_rel C client cx (snd (process_control_frame C io rt client encoded position frame cx))"
  unfolding process_control_frame_def
  by (auto intro!: session.attempt_rel session.rel_refl sealed_send_rel rekey_reply_rel)

lemma process_control_frames_rel:
  "session_rel C client cx (snd (process_control_frames C io rt client encoded position frames cx))"
  by (induction frames arbitrary: cx) (auto intro!: session.then_in_rel session.rel_refl process_control_frame_rel)

lemma process_record_rel: "session_rel C client cx (snd (process_record C io rt client encoded cx))"
  unfolding process_record_def
  by (rule session.then_in_rel [OF open_record_rel])
    (auto intro!: session.attempt_rel session.rel_refl process_data_frames_rel process_control_frames_rel split: record_kind.split)

lemma send_outbound_packets_rel: "session_rel C client cx (snd (send_outbound_packets C io packets cx))"
proof -
  have records: "session_rel C client cx (snd (send_outbound_records C ps cx))" for ps cx
    by (induction ps arbitrary: cx)
      (auto simp: send_outbound_record_def intro!: session.then_in_rel session.rel_refl sealed_send_rel)
  show ?thesis unfolding send_outbound_packets_def
    by (rule session.attempt_rel [OF local_changes_rel(1)])
      (rule session.rel_trans [OF local_changes_rel(3) records])
qed

lemma await_response_rel: "session_rel C client cx (snd (await_response n cx))"
proof (induction n arbitrary: cx)
  case (Suc n)
  obtain r c where recv: "carrier_recv (cx_carrier cx) = (r, c)" by fastforce
  have "session_rel C client (cx\<lparr>cx_carrier := c\<rparr>) (snd (case event of
      BinaryEvent encoded \<Rightarrow> (Inr encoded, cx\<lparr>cx_carrier := c\<rparr>)
    | PingEvent payload \<Rightarrow> then_in (send_pong payload (cx\<lparr>cx_carrier := c\<rparr>)) (\<lambda>_. await_response n)
    | CloseEvent \<Rightarrow> (Inl (Bail ''migration carrier closed''), cx\<lparr>cx_carrier := c\<rparr>)
    | IgnoreEvent \<Rightarrow> await_response n (cx\<lparr>cx_carrier := c\<rparr>)))" for event
    by (cases event) (auto intro!: session.then_in_rel session.rel_refl local_changes_rel(5) Suc.IH)
  then show ?case
    by (auto simp: recv Let_def intro!: session.attempt_rel local_changes_rel(2) intro: session.rel_trans [OF local_changes_rel(2)])
qed (simp add: session.rel_refl)

text \<open>The path challenge is the only call that seals a record together with another result.\<close>

lemma then_in_assoc: "then_in (then_in p f) g = then_in p (\<lambda>x s. then_in (f x s) g)"
  by (cases p; cases "fst p") (auto simp: then_in_def)

definition send_challenge :: "crypto \<Rightarrow> bytes \<Rightarrow> bytes \<Rightarrow> bytes \<Rightarrow> session_ctx \<Rightarrow> bytes result \<times> session_ctx" where
  "send_challenge C secret carrier_id challenge cx =
     then_in (on_crypto (\<lambda>s. path_challenge C s secret carrier_id challenge) cx) (\<lambda>(rec, expected) cx1.
     then_in (send_record rec cx1) (\<lambda>_ cx2. (Inr expected, cx2)))"

lemma send_challenge_rel: "session_rel C client cx (snd (send_challenge C secret carrier_id challenge cx))"
proof -
  obtain r k where f: "path_challenge C (cx_crypto cx) secret carrier_id challenge = (r, k)" by fastforce
  show ?thesis
    by (rule session_rel_step [of C cx "PathChallenge secret carrier_id challenge" "case r of Inl _ \<Rightarrow> [] | Inr (rec, _) \<Rightarrow> [Sent rec]" _
          "case r of Inl _ \<Rightarrow> [] | Inr (rec, _) \<Rightarrow> [rec]" "[]"])
      (auto simp: f shown_def send_challenge_def on_crypto_def send_record_def then_in_def split: sum.split prod.split)
qed

lemma validate_migration_path_eq:
  "validate_migration_path C io cx =
     then_in (send_challenge C (est_migration_secret (cx_session cx)) (io_random io (cx_tick cx) 16) (io_random io (cx_tick cx + 1) 32)
         (cx\<lparr>cx_tick := cx_tick cx + 2\<rparr>)) (\<lambda>expected cx2.
     then_in (await_response (io_patience io (cx_tick cx2)) cx2) (\<lambda>encoded cx3.
     then_in (open_record C io encoded cx3) (\<lambda>opened cx4.
     if rh_kind (or_header opened) \<noteq> Control \<or> or_position opened \<noteq> CurrentEpoch
     then (Inl (Bail ''invalid migration response record''), cx4)
     else attempt (parse_frames (or_plaintext opened) Control) cx4 (\<lambda>frames.
       if length frames \<noteq> 1 \<or> fr_type (hd frames) \<noteq> 0x0D \<or> fr_flags (hd frames) \<noteq> 0
       then (Inl (Bail ''invalid migration response frame''), cx4)
       else on_crypto (\<lambda>s. accept_path_response C s encoded (fr_body (hd frames)) (io_random io (cx_tick cx) 16) expected) cx4))))"
proof -
  have "then_in (Inr u, t) f = f u t" for u :: bytes and t :: session_ctx and f :: "bytes \<Rightarrow> session_ctx \<Rightarrow> unit result \<times> session_ctx"
    by (simp add: then_in_def)
  then show ?thesis unfolding validate_migration_path_def send_challenge_def then_in_assoc Let_def case_prod_beta by simp
qed

lemma path_response_rel:
  "session_rel C client cx (snd (on_crypto (\<lambda>s. accept_path_response C s encoded body carrier_id expected) cx))"
proof (rule on_crypto_rel)
  show "\<exists>e outs. rekey_step C s e = (outs, snd (accept_path_response C s encoded body carrier_id expected))" for s
    by (intro exI [of _ "PathResponse encoded body carrier_id expected"]) (simp add: shown_def)
qed

lemma validate_migration_path_rel: "session_rel C client cx (snd (validate_migration_path C io cx))"
  unfolding validate_migration_path_eq
  by (rule session.then_in_rel [OF session.rel_trans [OF local_changes_rel(3) send_challenge_rel]])
    (auto intro!: session.then_in_rel session.attempt_rel session.rel_refl await_response_rel open_record_rel path_response_rel)

text \<open>The steps of the loop.\<close>

definition tunnel_rel :: "crypto \<Rightarrow> client \<Rightarrow> tunnel \<Rightarrow> tunnel \<Rightarrow> bool" where
  "tunnel_rel C client t t' \<longleftrightarrow> session_rel C client (tn_cx t) (tn_cx t') \<and> tn_lease t' = tn_lease t"

interpretation tunnel: evolution "tunnel_rel C client" for C client
proof
  show "tunnel_rel C client t t" for t by (simp add: tunnel_rel_def session.rel_refl)
  show "tunnel_rel C client s u" if "tunnel_rel C client s t" "tunnel_rel C client t u" for s t u
    using that session.rel_trans by (fastforce simp: tunnel_rel_def)
qed

lemma in_cx_rel: "session_rel C client (tn_cx t) (snd p) \<Longrightarrow> tunnel_rel C client t (snd (in_cx t p f))"
  by (cases p) (simp add: in_cx_def tunnel_rel_def)

lemma carrier_event_step_rel: "session_rel C client cx (snd (carrier_event_step C io rt client event cx))"
  using process_record_rel local_changes_rel(5)
  by (cases event) (auto simp: carrier_event_step_def session.rel_refl case_prod_beta)

lemma close_draining_rel: "tunnel_rel C client t (close_draining t)"
  by (auto simp: close_draining_def tunnel_rel_def session.rel_refl split: option.split)

lemma draining_step_rel: "tunnel_rel C client t (snd (draining_step C io rt client old deadline t))"
proof -
  obtain r old1 where recv: "carrier_recv old = (r, old1)" by fastforce
  let ?t1 = "t\<lparr>tn_draining := Some (old1, deadline)\<rparr>"
  have t1: "tunnel_rel C client t ?t1" by (simp add: tunnel_rel_def session.rel_refl)
  have "session_rel C client (tn_cx t) (cx\<lparr>cx_carrier := c\<rparr>)"
    if "carrier_event_step C io rt client event ((tn_cx t)\<lparr>cx_carrier := old1\<rparr>) = (r2, cx)" for event r2 cx c
    using session.rel_trans [OF session.rel_trans [OF local_changes_rel(2) carrier_event_step_rel] local_changes_rel(2)] that
    by (metis snd_conv)
  then show ?thesis unfolding draining_step_def recv Let_def prod.case
    by (intro tunnel.attempt_rel [OF t1])
      (auto simp: tunnel_rel_def split: prod.split intro: tunnel.rel_trans [OF t1 close_draining_rel, unfolded tunnel_rel_def, THEN conjunct1]
        tunnel.rel_trans [OF t1 close_draining_rel, unfolded tunnel_rel_def, THEN conjunct2])
qed

lemma take_outbound_same:
  "take_outbound n lease = (p, n') \<Longrightarrow> registrations n' = registrations n \<and> nw_poisoned n' = nw_poisoned n"
  by (auto simp: take_outbound_def registrations_def fun_eq_iff split: option.split_asm if_split_asm list.split_asm)

lemma take_packets_same:
  "take_packets k n lease = (ps, n') \<Longrightarrow> registrations n' = registrations n \<and> nw_poisoned n' = nw_poisoned n"
proof (induction k arbitrary: n ps)
  case (Suc k)
  obtain p n1 where t: "take_outbound n lease = (p, n1)" by fastforce
  show ?case using Suc.prems Suc.IH [of n1] take_outbound_same [OF t] by (cases p) (auto simp: t split: prod.split_asm)
qed simp

lemma outbound_step_rel: "tunnel_rel C client t (snd (outbound_step C io t))"
proof -
  obtain ps n where p: "take_packets 32 (cx_network (tn_cx t)) (tn_lease t) = (ps, n)" by fastforce
  have "session_rel C client (tn_cx t) ((tn_cx t)\<lparr>cx_network := n\<rparr>)"
    by (rule session_rel_same) (use take_packets_same [OF p] in simp_all)
  then have "session_rel C client (tn_cx t) (snd (then_in (shape_traffic io (sum_list (map length ps)) ((tn_cx t)\<lparr>cx_network := n\<rparr>))
      (\<lambda>_. send_outbound_packets C io ps)))"
    by (rule session.rel_trans) (rule session.then_in_rel [OF shape_traffic_rel send_outbound_packets_rel])
  then show ?thesis by (auto simp: outbound_step_def p Let_def tunnel.rel_refl split: option.split intro!: in_cx_rel)
qed

lemma migration_step_rel: "tunnel_rel C client t (snd (migration_step C io candidate t))"
proof -
  obtain r cx where v: "validate_migration_path C io ((tn_cx t)\<lparr>cx_carrier := candidate\<rparr>) = (r, cx)" by fastforce
  have base: "session_rel C client (tn_cx t) cx"
    using session.rel_trans [OF local_changes_rel(2) validate_migration_path_rel] v by (metis snd_conv)
  have "session_rel C client cx (cx\<lparr>cx_carrier := c, cx_metrics := m\<rparr>)"
    if "sm_sessions_active m = sm_sessions_active (cx_metrics cx)" for c m
    by (rule session_rel_same) (use that in simp_all)
  then have "session_rel C client (tn_cx t) (cx\<lparr>cx_carrier := c, cx_metrics := m\<rparr>)"
    "session_rel C client (tn_cx t) (ticked (cx\<lparr>cx_carrier := c, cx_metrics := m\<rparr>))"
    if "sm_sessions_active m = sm_sessions_active (cx_metrics cx)" for c m
    using that base session.rel_trans local_changes_rel(1) by blast+
  then show ?thesis
    by (cases r) (simp_all add: migration_step_def v Let_def tunnel_rel_def close_draining_def split: option.split)
qed

lemma reader_step_same: "registrations (reader_step n e) = registrations n \<and> nw_poisoned (reader_step n e) = nw_poisoned n"
  by (cases e) (auto simp: registrations_def fun_eq_iff receive_packet_def route_to_session_def Let_def split: option.split)

lemma select_branch_rel: "tunnel_rel C client t (snd (select_branch C io rt client t e))"
proof (cases e)
  case CarrierMessage
  obtain r c where recv: "carrier_recv (cx_carrier (tn_cx t)) = (r, c)" by fastforce
  have "tunnel_rel C client t (t\<lparr>tn_cx := (tn_cx t)\<lparr>cx_carrier := c\<rparr>\<rparr>)" by (simp add: tunnel_rel_def local_changes_rel)
  then show ?thesis unfolding CarrierMessage select_branch.simps recv Let_def prod.case
    by (rule tunnel.attempt_rel) (rule in_cx_rel [OF session.rel_trans [OF local_changes_rel(2) carrier_event_step_rel]])
next
  case (SwitchEvent ev)
  have "session_rel C client (tn_cx t) ((tn_cx t)\<lparr>cx_network := reader_step (cx_network (tn_cx t)) ev\<rparr>)"
    by (rule session_rel_same) (use reader_step_same in simp_all)
  then show ?thesis by (simp add: SwitchEvent tunnel_rel_def)
qed (auto simp: tunnel.rel_refl close_draining_rel draining_step_rel outbound_step_rel migration_step_rel split: option.split)

lemma request_update_rel:
  "session_rel C client cx (snd (then_in (on_crypto (\<lambda>s. request_update_if_due C s now) cx)
     (\<lambda>update cx. case update of None \<Rightarrow> (Inr (), cx) | Some rec \<Rightarrow> send_record rec cx)))"
proof -
  obtain r k where f: "request_update_if_due C (cx_crypto cx) now = (r, k)" by fastforce
  show ?thesis
    by (rule session_rel_step [of C cx "RequestUpdate now" "case r of Inr (Some rec) \<Rightarrow> [Sent rec] | _ \<Rightarrow> []" _
          "case r of Inr (Some rec) \<Rightarrow> [rec] | _ \<Rightarrow> []" "[]"])
      (auto simp: f shown_def on_crypto_def send_record_def then_in_def split: sum.split option.split prod.split)
qed

lemma after_select_rel: "tunnel_rel C client t (snd (after_select C io t))"
proof -
  let ?p = "then_in (on_crypto (\<lambda>s. request_update_if_due C s (cx_now io (tn_cx t))) (ticked (tn_cx t)))
     (\<lambda>update cx. case update of None \<Rightarrow> (Inr (), cx) | Some rec \<Rightarrow> send_record rec cx)"
  obtain r cx where p: "?p = (r, cx)" by fastforce
  have "session_rel C client (tn_cx t) (snd ?p)" by (rule session.rel_trans [OF local_changes_rel(1) request_update_rel])
  then have 1: "session_rel C client (tn_cx t) cx" unfolding p by simp
  have "session_rel C client (tn_cx t) (ticked cx)" by (rule session.rel_trans [OF 1 local_changes_rel(1)])
  with 1 show ?thesis unfolding after_select_def p by (cases r) (simp_all add: tunnel_rel_def)
qed

lemma tunnel_step_rel: "tunnel_rel C client t (snd (tunnel_step C io rt client t e))"
  unfolding tunnel_step_def
  by (rule tunnel.then_in_rel [OF select_branch_rel])
    (auto intro!: tunnel.then_in_rel tunnel.rel_refl after_select_rel split: flow.split)

lemma tunnel_run_rel: "tunnel_rel C client t (snd (tunnel_run C io rt client t es))"
proof (induction es arbitrary: t)
  case (Cons e es)
  obtain r t1 where s: "tunnel_step C io rt client t e = (r, t1)" by fastforce
  have "tunnel_rel C client t t1" using tunnel_step_rel [of C client t io rt e] s by simp
  then show ?case using Cons.IH [of t1] tunnel.rel_trans by (cases r) (auto simp: s)
qed (simp add: tunnel.rel_refl)

end
