(* ===== verification/Reka_Migration.thy ===== *)
theory Reka_Migration
  imports Reka_Session
begin

text \<open>
  Moving a session to another carrier (\<open>validate_migration_path\<close> and the migration branch of
  \<open>run_established_session\<close> in \<open>main.rs\<close>, with \<open>path_challenge\<close> and \<open>accept_path_response\<close> of \<open>rekey.rs\<close>). The
  definitions are those of Reka_Rekey and Reka_Session; this theory holds the two directions of their
  contract: a session moves only for a peer that proves the migration secret on the new carrier, and it does
  move for a peer that follows the protocol.
\<close>

section \<open>The client's end\<close>

text \<open>A sender whose records the current epoch of a session can open as control records.\<close>

definition control_peer :: "record_sender \<Rightarrow> rekey_session \<Rightarrow> bool" where
  "control_peer p s \<longleftrightarrow>
     (let r = sl_c2s_control (es_records (rk_current s)) in
      record_sender_wf p \<and> record_peers p r \<and> rs_kind p = Control \<and> rs_epoch p = es_epoch (rk_current s) \<and>
      rs_next_number p < max_records_per_epoch \<and>
      (\<exists>S. replay_repr (rr_replay r) S \<and> rs_next_number p \<notin> S \<and> \<not> replay_too_old (rr_replay r) (rs_next_number p)))"

definition path_proof :: "rekey_session \<Rightarrow> bytes \<Rightarrow> bytes \<Rightarrow> bytes \<Rightarrow> bytes" where
  "path_proof s carrier_id challenge transcript =
     ascii ''RekaSerdoba/1 path response'' @ rk_session_id s @ carrier_id @ challenge @ transcript"

definition path_response_frame :: "bytes \<Rightarrow> frame" where
  "path_response_frame body = \<lparr>fr_type = 0x0D, fr_flags = 0, fr_body = body\<rparr>"

lemma rekey_open_sealed:
  assumes "aead_correct C" and "control_peer p s" and "length plaintext \<le> 4080"
  shows "\<exists>e p' h s'. record_sender_seal C p plaintext False = (Inr e, p') \<and>
    rekey_open C s e now = (Inr \<lparr>or_header = h, or_plaintext = plaintext, or_position = CurrentEpoch\<rparr>, s') \<and> rh_kind h = Control"
proof -
  let ?x = "expire_previous s now" and ?r = "sl_c2s_control (es_records (rk_current s))"
  have cur: "rk_current ?x = rk_current s" by (simp add: expire_previous_def split: option.split)
  obtain S where p: "record_sender_wf p" "record_peers p ?r" "rs_kind p = Control" "rs_epoch p = es_epoch (rk_current s)"
    "rs_next_number p < max_records_per_epoch" and S: "replay_repr (rr_replay ?r) S" "rs_next_number p \<notin> S"
    "\<not> replay_too_old (rr_replay ?r) (rs_next_number p)"
    using assms(2) by (auto simp: control_peer_def Let_def)
  obtain e p' r' where seal: "record_sender_seal C p plaintext False = (Inr e, p')" and
    opened: "record_receiver_open C ?r e = (Inr plaintext, r')"
    using record_open_seal [OF assms(1) p(1,2) S p(5) assms(3)] by blast
  have header: "record_header_parse e = Inr (sender_header p (rs_next_number p) (length plaintext) False)"
    using record_sender_seal_cases [OF seal p(1)] by simp
  have "rekey_open_live C ?x e now = (Inr \<lparr>or_header = sender_header p (rs_next_number p) (length plaintext) False,
      or_plaintext = plaintext, or_position = CurrentEpoch\<rparr>,
      ?x\<lparr>rk_current := set_records ((es_records (rk_current s))\<lparr>sl_c2s_control := r'\<rparr>) (rk_current s)\<rparr>)"
    using p(3,4) opened by (simp add: rekey_open_live_def header cur open_from_def sender_header_def)
  then show ?thesis using seal p(3) by (auto simp: rekey_open_def sender_header_def)
qed

lemma parse_path_response:
  assumes "length body \<le> 1000"
  shows "frame_encode (path_response_frame body) = Inr (frame_bytes (path_response_frame body))"
    and "parse_frames (frame_bytes (path_response_frame body)) Control = Inr [path_response_frame body]"
  using assms parse_frames_concat [of "[path_response_frame body]" Control]
  by (simp_all add: path_response_frame_def frame_encode_Inr frame_wf_def frame_critical_def frame_known_def)

section \<open>The challenge\<close>

lemma path_challenge_success:
  assumes "path_challenge C s secret carrier_id challenge = (Inr (rec, expected), s')"
  shows "hmac_bytes C secret (path_proof s carrier_id challenge (transcript_next C (rk_transcript s) rec)) = Inr expected"
    and "rk_pending s = None" and "rk_session_id s' = rk_session_id s"
proof -
  obtain sealed s1 where f: "seal_control_frame C s 0x0C (carrier_id @ challenge) = (sealed, s1)" by fastforce
  note keep = seal_control_frame_keeps [OF f]
  show "rk_pending s = None" using assms by (auto simp: path_challenge_def split: if_split_asm)
  then show "hmac_bytes C secret (path_proof s carrier_id challenge (transcript_next C (rk_transcript s) rec)) = Inr expected"
    "rk_session_id s' = rk_session_id s"
    using assms keep by (auto simp: path_challenge_def f attempt_Inr_iff Let_def path_proof_def)
qed

lemma path_challenge_ok:
  assumes "aead_correct C" and "hash_sized C" and "rk_pending s = None"
    and "record_sender_wf (sl_s2c_control (es_records (rk_current s)))"
    and "rs_next_number (sl_s2c_control (es_records (rk_current s))) < max_records_per_epoch"
    and "length carrier_id = 16" and "length challenge = 32"
  shows "\<exists>rec expected s'. path_challenge C s secret carrier_id challenge = (Inr (rec, expected), s') \<and> length expected = 32 \<and>
    (\<forall>p. control_peer p s \<longrightarrow> control_peer p s')"
proof -
  let ?body = "carrier_id @ challenge"
  obtain rec s1 where f: "seal_control_frame C s 0x0C ?body = (Inr rec, s1)"
    using seal_control_frame_ok [OF assms(1,4,5), of ?body "0x0C"] assms(6,7) by auto
  have peer: "es_epoch (rk_current s1) = es_epoch (rk_current s)"
    "sl_c2s_control (es_records (rk_current s1)) = sl_c2s_control (es_records (rk_current s))"
    using f by (auto simp: seal_control_frame_def seal_control_def set_records_def Let_def attempt_Inr_iff case_prod_eq_iff)
  obtain expected where h: "hmac_bytes C secret (ascii ''RekaSerdoba/1 path response'' @ rk_session_id s1 @ carrier_id @ challenge @
      transcript_next C (rk_transcript s1) rec) = Inr expected" "length expected = 32"
    using hmac_bytes_ok [OF assms(2)] by blast
  show ?thesis using assms(3) h peer by (simp add: path_challenge_def f Let_def control_peer_def)
qed

section \<open>Success of the whole exchange\<close>

lemma then_in_Inr_iff: "then_in p f = (Inr y, t) \<longleftrightarrow> (\<exists>x s. p = (Inr x, s) \<and> f x s = (Inr y, t))"
  by (cases p; cases "fst p") (auto simp: then_in_def)

lemma on_crypto_Inr_iff:
  "on_crypto f cx = (Inr x, cx') \<longleftrightarrow>
     (\<exists>k. f (cx_crypto cx) = (Inr x, k) \<and> cx' = cx\<lparr>cx_session := (cx_session cx)\<lparr>est_crypto := k\<rparr>\<rparr>)"
  by (auto simp: on_crypto_def Let_def split: prod.split)

lemma open_record_Inr_iff:
  "open_record C io encoded cx = (Inr opened, cx') \<longleftrightarrow>
     (\<exists>k. rekey_open C (cx_crypto cx) encoded (cx_now io cx) = (Inr opened, k) \<and>
       cx' = (ticked cx)\<lparr>cx_session := (cx_session cx)\<lparr>est_crypto := k\<rparr>, cx_opened := cx_opened cx @ [or_header opened]\<rparr>)"
  by (auto simp: open_record_def on_crypto_def ticked_def Let_def split: prod.split sum.split_asm)

lemma send_record_Inr_iff:
  "send_record rec cx = (Inr u, cx') \<longleftrightarrow>
     (\<exists>c. carrier_send_binary (cx_carrier cx) rec = (Inr u, c) \<and> cx' = cx\<lparr>cx_carrier := c, cx_sent := cx_sent cx @ [rec]\<rparr>)"
  by (auto simp: send_record_def Let_def split: prod.split)

text \<open>The proof of a path: the challenge went out on the candidate carrier, and a control record of the current
  epoch came back on it whose only frame repeats the carrier id and the HMAC under the migration secret.\<close>

definition path_proven :: "crypto \<Rightarrow> session_io \<Rightarrow> carrier \<Rightarrow> session_ctx \<Rightarrow> bool" where
  "path_proven C io candidate cx \<longleftrightarrow>
     (\<exists>rec expected s1 waiting n encoded opened s2 now.
       path_challenge C (cx_crypto cx) (est_migration_secret (cx_session cx)) (io_random io (cx_tick cx) 16)
         (io_random io (cx_tick cx + 1) 32) = (Inr (rec, expected), s1) \<and>
       hmac_bytes C (est_migration_secret (cx_session cx)) (path_proof (cx_crypto cx) (io_random io (cx_tick cx) 16)
         (io_random io (cx_tick cx + 1) 32) (transcript_next C (rk_transcript (cx_crypto cx)) rec)) = Inr expected \<and>
       carrier_send_binary candidate rec = (Inr (), cx_carrier waiting) \<and> fst (await_response n waiting) = Inr encoded \<and>
       rekey_open C s1 encoded now = (Inr opened, s2) \<and> rh_kind (or_header opened) = Control \<and> or_position opened = CurrentEpoch \<and>
       parse_frames (or_plaintext opened) Control = Inr [path_response_frame (io_random io (cx_tick cx) 16 @ expected)])"

lemma path_provenI:
  assumes "path_challenge C (cx_crypto cx) (est_migration_secret (cx_session cx)) (io_random io (cx_tick cx) 16)
      (io_random io (cx_tick cx + 1) 32) = (Inr (rec, expected), s1)"
    and "carrier_send_binary candidate rec = (Inr (), cx_carrier waiting)" and "fst (await_response n waiting) = Inr encoded"
    and "rekey_open C s1 encoded now = (Inr opened, s2)" and "rh_kind (or_header opened) = Control" and "or_position opened = CurrentEpoch"
    and "parse_frames (or_plaintext opened) Control = Inr [path_response_frame (io_random io (cx_tick cx) 16 @ expected)]"
  shows "path_proven C io candidate cx"
  unfolding path_proven_def using assms path_challenge_success(1) [OF assms(1)] by blast

lemma single_frame:
  "length frames = 1 \<and> fr_type (hd frames) = 0x0D \<and> fr_flags (hd frames) = 0 \<longleftrightarrow> (\<exists>body. frames = [path_response_frame body])"
  by (cases frames) (auto simp: path_response_frame_def intro: exI [of _ "fr_body (hd frames)"])

lemma await_response_keeps: "cx_session (snd (await_response n cx)) = cx_session cx \<and> cx_metrics (snd (await_response n cx)) = cx_metrics cx"
proof (induction n arbitrary: cx)
  case (Suc n)
  obtain r c where recv: "carrier_recv (cx_carrier cx) = (r, c)" by fastforce
  show ?case
  proof (cases r)
    case (Inr event)
    then show ?thesis
      by (cases event)
        (auto simp: recv Suc.IH then_in_def send_pong_def Let_def split: prod.split sum.split)
  qed (simp add: recv)
qed simp

lemma validate_migration_path_proven:
  assumes "validate_migration_path C io cx = (Inr (), cx')"
  shows "path_proven C io (cx_carrier cx) cx"
proof -
  let ?cid = "io_random io (cx_tick cx) 16" and ?ch = "io_random io (cx_tick cx + 1) 32"
  let ?secret = "est_migration_secret (cx_session cx)"
  obtain rec expected s1 c encoded cx3 opened cx4 frames k where
    challenge: "path_challenge C (cx_crypto cx) ?secret ?cid ?ch = (Inr (rec, expected), s1)" and
    send: "carrier_send_binary (cx_carrier cx) rec = (Inr (), c)" and
    wait: "await_response (io_patience io (cx_tick cx + 2)) (cx\<lparr>cx_tick := cx_tick cx + 2,
      cx_session := (cx_session cx)\<lparr>est_crypto := s1\<rparr>, cx_carrier := c, cx_sent := cx_sent cx @ [rec]\<rparr>) = (Inr encoded, cx3)" and
    opened: "open_record C io encoded cx3 = (Inr opened, cx4)" "rh_kind (or_header opened) = Control"
      "or_position opened = CurrentEpoch" and
    frames: "parse_frames (or_plaintext opened) Control = Inr frames"
      "length frames = 1 \<and> fr_type (hd frames) = 0x0D \<and> fr_flags (hd frames) = 0" and
    accept: "accept_path_response C (cx_crypto cx4) encoded (fr_body (hd frames)) ?cid expected = (Inr (), k)"
    using assms unfolding validate_migration_path_def Let_def
    by (auto simp: then_in_Inr_iff on_crypto_Inr_iff send_record_Inr_iff attempt_Inr_iff split: if_split_asm)
  obtain body where body: "frames = [path_response_frame body]" using frames(2) single_frame by blast
  then have "body = ?cid @ expected"
    using accept append_take_drop_id [of 16 body]
    by (auto simp del: append_take_drop_id simp: accept_path_response_def path_response_frame_def split: if_split_asm)
  moreover obtain now s2 where "rekey_open C s1 encoded now = (Inr opened, s2)"
    using opened(1) arg_cong [OF wait, of "\<lambda>x. cx_crypto (snd x)"] by (auto simp: open_record_Inr_iff await_response_keeps)
  ultimately show ?thesis
    using path_provenI [OF challenge, of _ "cx\<lparr>cx_tick := cx_tick cx + 2, cx_session := (cx_session cx)\<lparr>est_crypto := s1\<rparr>,
        cx_carrier := c, cx_sent := cx_sent cx @ [rec]\<rparr>" "io_patience io (cx_tick cx + 2)" encoded now opened s2]
      send wait opened(2,3) frames(1) body by simp
qed

text \<open>The exchange changes no counter.\<close>

interpretation counters: evolution "\<lambda>cx cx' :: session_ctx. cx_metrics cx' = cx_metrics cx"
  by unfold_locales simp_all

lemma counters_kept:
  "cx_metrics (snd (on_crypto f cx)) = cx_metrics cx"
  "cx_metrics (snd (open_record C io encoded cx)) = cx_metrics cx"
  "cx_metrics (snd (send_record rec cx)) = cx_metrics cx"
  by (simp_all add: on_crypto_def open_record_def send_record_def ticked_def Let_def split: prod.split sum.split)

lemma validate_migration_path_counters: "cx_metrics (snd (validate_migration_path C io cx)) = cx_metrics cx"
  unfolding validate_migration_path_def Let_def
  by (rule counters.then_in_rel)
    (auto simp: counters_kept await_response_keeps intro!: counters.then_in_rel counters.attempt_rel)

text \<open>The exchange with a client that follows the protocol, over a carrier that delivers its answer.\<close>

lemma validate_migration_path_ok:
  assumes "aead_correct C" and "hash_sized C" and "rk_pending (cx_crypto cx) = None"
    and "record_sender_wf (sl_s2c_control (es_records (rk_current (cx_crypto cx))))"
    and "rs_next_number (sl_s2c_control (es_records (rk_current (cx_crypto cx)))) < max_records_per_epoch"
    and "length (io_random io (cx_tick cx) 16) = 16" and "length (io_random io (cx_tick cx + 1) 32) = 32"
    and "0 < io_patience io (cx_tick cx + 2)" and "control_peer p (cx_crypto cx)"
  shows "\<exists>rec expected s1 response p' cx'.
    path_challenge C (cx_crypto cx) (est_migration_secret (cx_session cx)) (io_random io (cx_tick cx) 16)
      (io_random io (cx_tick cx + 1) 32) = (Inr (rec, expected), s1) \<and>
    record_sender_seal C p (frame_bytes (path_response_frame (io_random io (cx_tick cx) 16 @ expected))) False = (Inr response, p') \<and>
    validate_migration_path C io (cx\<lparr>cx_carrier := ws_script [response] []\<rparr>) = (Inr (), cx') \<and>
    cx_carrier cx' = ws_script [] [rec] \<and> cx_metrics cx' = cx_metrics cx"
proof -
  let ?cid = "io_random io (cx_tick cx) 16" and ?ch = "io_random io (cx_tick cx + 1) 32"
  let ?secret = "est_migration_secret (cx_session cx)"
  obtain rec expected s1 where challenge: "path_challenge C (cx_crypto cx) ?secret ?cid ?ch = (Inr (rec, expected), s1)"
    "length expected = 32" "control_peer p s1"
    using path_challenge_ok [OF assms(1-7), of ?secret] assms(9) by blast
  let ?frame = "path_response_frame (?cid @ expected)"
  have len: "length (?cid @ expected) \<le> 1000" using assms(6) challenge(2) by simp
  note parse = parse_path_response(2) [OF len]
  define now where "now = io_now io (cx_tick cx + 2)"
  obtain response p' h s2 where seal: "record_sender_seal C p (frame_bytes ?frame) False = (Inr response, p')"
    and opened: "rekey_open C s1 response now = (Inr \<lparr>or_header = h, or_plaintext = frame_bytes ?frame, or_position = CurrentEpoch\<rparr>, s2)"
      "rh_kind h = Control"
    using rekey_open_sealed [OF assms(1) challenge(3), of "frame_bytes ?frame" now] assms(6) challenge(2)
    by (auto simp: path_response_frame_def)
  obtain n where n: "io_patience io (Suc (Suc (cx_tick cx))) = Suc n" using assms(8) gr0_implies_Suc [of "io_patience io (cx_tick cx + 2)"] by auto
  have recv: "carrier_recv (ws_script [response] outs) = (Inr (BinaryEvent response), ws_script [] outs)" for outs
    by (simp add: ws_script_def ws_recv_def)
  have "\<exists>cx'. validate_migration_path C io (cx\<lparr>cx_carrier := ws_script [response] []\<rparr>) = (Inr (), cx') \<and>
      cx_carrier cx' = ws_script [] [rec] \<and> cx_metrics cx' = cx_metrics cx"
    using challenge(1,2) opened parse assms(6)
    by (simp add: validate_migration_path_def on_crypto_def then_in_def send_record_def n recv open_record_def cx_now_def ticked_def
        accept_path_response_def path_response_frame_def now_def Let_def)
  then show ?thesis using challenge(1) seal by blast
qed

text \<open>The first control record of a client meets the session as the handshake leaves it.\<close>

lemma fresh_control_peer:
  assumes "rekey_session_new C sid secret keys transcript now = Inr s" and "epoch_keys_wf keys" and "length sid = 16"
  shows "control_peer (record_sender_new Control sid 0 (ek_c2s_control keys)) s"
    and "rk_pending s = None" and "record_sender_wf (sl_s2c_control (es_records (rk_current s)))"
    and "rs_next_number (sl_s2c_control (es_records (rk_current s))) < max_records_per_epoch"
proof -
  obtain l where l: "session_record_layer_new sid 0 keys default_replay_window = Inr l"
    and s: "es_records (rk_current s) = l" "es_epoch (rk_current s) = 0" "rk_pending s = None"
    using assms(1) by (auto simp: rekey_session_new_def and_then_Inr_iff Let_def)
  obtain w where w: "replay_new default_replay_window = Inr w"
    "sl_c2s_control l = \<lparr>rr_kind = Control, rr_session_id = sid, rr_epoch = 0, rr_key = ek_c2s_control keys, rr_replay = w\<rparr>"
    using l by (auto simp: session_record_layer_new_def record_receiver_new_def and_then_Inr_iff)
  have "replay_repr w {}" "\<not> rw_initialized w" using replay_new_repr [OF w(1)] w(1) by (auto simp: replay_new_def split: if_split_asm)
  then have "\<exists>S. replay_repr w S \<and> 0 \<notin> S \<and> \<not> replay_too_old w 0" by (auto simp: replay_too_old_def)
  then show "control_peer (record_sender_new Control sid 0 (ek_c2s_control keys)) s"
    using assms(2,3) by (simp add: control_peer_def s w(2) record_sender_new_def record_sender_wf_def epoch_keys_wf_def record_peers_def
        sender_ctx_def receiver_ctx_def max_records_per_epoch_def)
  show "rk_pending s = None" "record_sender_wf (sl_s2c_control (es_records (rk_current s)))"
    "rs_next_number (sl_s2c_control (es_records (rk_current s))) < max_records_per_epoch"
    using staged_sender [OF l assms(2,3)] s by simp_all
qed

end
