(* ===== verification/Reka_Server.thy ===== *)
theory Reka_Server
  imports Reka_Migration
begin

text \<open>
  The server with all its sessions at once (\<open>main.rs\<close>). The functions of the other theories run a request, a
  handshake or a session as one call; here they interleave on the shared \<open>AppState\<close> as the tasks of the program do:
  a request is decided in one step, \<open>serve_session\<close> takes its permit in one step and finishes its
  handshake in another, and every session then does one turn of its loop per step. A turn sees the network and
  the counters as the other tasks have left them.
\<close>

section \<open>Model\<close>

definition max_active_carriers :: nat where "max_active_carriers = 1024"

text \<open>A session in its loop, with its own readings of clock, randomness and kernel.\<close>

record live_session =
  lv_client :: client
  lv_id :: bytes
  lv_io :: session_io
  lv_tunnel :: tunnel

text \<open>The shared state, the tasks by stage (admitted but not started, in the handshake, in the loop), the carriers
  that wait for sessions that may migrate, the ids whose entry in the registry no longer leads to their session
  (\<open>register_migration\<close> replaces an entry before it reports a duplicate), the carriers that were closed, and the
  sessions that have ended as they were after their last turn; the last two are kept only so that the theorems can
  speak of them.\<close>

record system =
  sy_server :: server
  sy_admitted :: "(client \<times> carrier) list"
  sy_handshakes :: "(client \<times> carrier) list"
  sy_live :: "live_session list"
  sy_offers :: "(bytes \<times> carrier) list"
  sy_detached :: "bytes list"
  sy_closed :: "carrier list"
  sy_ended :: "live_session list"

definition remove_nth :: "nat \<Rightarrow> 'a list \<Rightarrow> 'a list" where
  "remove_nth i xs = take i xs @ drop (Suc i) xs"

text \<open>\<open>is_operational\<close> asks the network whether it is ready.\<close>

definition current_admission :: "server \<Rightarrow> admission_state" where
  "current_admission sv = (sv_admission sv)\<lparr>ad_network_ready := nw_ready (sv_network sv)\<rparr>"

text \<open>What a decided request leads to: a task for \<open>serve_session\<close>, or \<open>submit_migration\<close>. The channel of
  the entry is closed when the session has ended, or when the entry was replaced.\<close>

definition submit_migration :: "bytes \<Rightarrow> carrier \<Rightarrow> system \<Rightarrow> system" where
  "submit_migration session carrier sy =
     (if list_ex (\<lambda>l. lv_id l = session) (sy_live sy) \<and> session \<notin> set (sy_detached sy) then sy\<lparr>sy_offers := sy_offers sy @ [(session, carrier)]\<rparr>
      else sy\<lparr>sy_closed := sy_closed sy @ [carrier_close carrier]\<rparr>)"

definition dispatch :: "admission option \<Rightarrow> admission_state \<Rightarrow> carrier \<Rightarrow> system \<Rightarrow> system" where
  "dispatch admitted ad carrier sy =
     (let sy1 = sy\<lparr>sy_server := (sy_server sy)\<lparr>sv_admission := ad\<rparr>\<rparr> in
      case admitted of
        None \<Rightarrow> sy1
      | Some (HandshakeAdmission client) \<Rightarrow> sy1\<lparr>sy_admitted := sy_admitted sy1 @ [(client, carrier)]\<rparr>
      | Some (MigrationAdmission session) \<Rightarrow> submit_migration session carrier sy1)"

text \<open>\<open>serve_session\<close> up to its handshake.\<close>

definition serve_start :: "client \<Rightarrow> carrier \<Rightarrow> system \<Rightarrow> system" where
  "serve_start client carrier sy =
     (let sv = sy_server sy; m = sv_metrics sv in
      if sv_permits sv = 0 then
        sy\<lparr>sy_server := sv\<lparr>sv_metrics := m\<lparr>sm_overloaded_total := sm_overloaded_total m + 1\<rparr>\<rparr>,
           sy_closed := sy_closed sy @ [carrier_close carrier]\<rparr>
      else if ad_draining (sv_admission sv) then sy\<lparr>sy_closed := sy_closed sy @ [carrier_close carrier]\<rparr>
      else
        sy\<lparr>sy_server := sv\<lparr>sv_permits := sv_permits sv - 1,
             sv_metrics := m\<lparr>sm_handshake_attempts_total := sm_handshake_attempts_total m + 1\<rparr>\<rparr>,
           sy_handshakes := sy_handshakes sy @ [(client, carrier)]\<rparr>)"

text \<open>The end of a task that held a permit.\<close>

definition serve_return :: "carrier \<Rightarrow> system \<Rightarrow> system" where
  "serve_return carrier sy =
     sy\<lparr>sy_server := (sy_server sy)\<lparr>sv_permits := sv_permits (sy_server sy) + 1\<rparr>,
        sy_closed := sy_closed sy @ [carrier_close carrier]\<rparr>"

definition set_metrics :: "(session_metrics \<Rightarrow> session_metrics) \<Rightarrow> system \<Rightarrow> system" where
  "set_metrics f sy = sy\<lparr>sy_server := (sy_server sy)\<lparr>sv_metrics := f (sv_metrics (sy_server sy))\<rparr>\<rparr>"

definition set_admission :: "admission_state \<Rightarrow> system \<Rightarrow> system" where
  "set_admission ad sy = sy\<lparr>sy_server := (sy_server sy)\<lparr>sv_admission := ad\<rparr>\<rparr>"

definition set_network :: "network \<Rightarrow> system \<Rightarrow> system" where
  "set_network n sy = sy\<lparr>sy_server := (sy_server sy)\<lparr>sv_network := n\<rparr>\<rparr>"

text \<open>The way out of \<open>run_established_session\<close>, with the guards that are dropped.\<close>

definition session_return :: "bytes \<Rightarrow> unit result \<Rightarrow> carrier \<Rightarrow> system \<Rightarrow> system" where
  "session_return session r carrier sy =
     serve_return carrier
       (set_metrics (\<lambda>m. session_inactive (count_disconnect r m))
         (set_admission (migration_registration_drop (sv_admission (sy_server sy)) session)
           (sy\<lparr>sy_detached := filter (\<lambda>s. s \<noteq> session) (sy_detached sy)\<rparr>)))"

text \<open>From the established session into the loop.\<close>

definition session_start ::
    "crypto \<Rightarrow> session_io \<Rightarrow> client \<Rightarrow> established_session \<Rightarrow> carrier \<Rightarrow> system \<Rightarrow> system" where
  "session_start C io client est carrier sy =
     (let session = est_session_id est;
          sy1 = set_metrics (count_session (carrier_kind carrier)) sy;
          (registered, ad) = register_migration (sv_admission (sy_server sy1)) session (est_migration_secret est);
          sy2 = set_admission ad sy1
      in case registered of
        Inl _ \<Rightarrow> serve_return carrier (set_metrics session_inactive (sy2\<lparr>sy_detached := session # sy_detached sy2\<rparr>))
      | Inr _ \<Rightarrow>
          (let c = mark_application_ready carrier; (leased, n) = network_register (sv_network (sy_server sy2)) (cl_tunnel_ipv4 client);
               sy3 = set_network n sy2
           in case leased of
             Inl e \<Rightarrow> session_return session (Inl e) c sy3
           | Inr lease \<Rightarrow>
               (let cx = \<lparr>cx_carrier = c, cx_network = n, cx_session = est, cx_metrics = sv_metrics (sy_server sy3),
                      cx_sent = [], cx_opened = [], cx_kernel = [], cx_tick = 0\<rparr>;
                    t = \<lparr>tn_cx = ticked cx, tn_draining = None, tn_update_check = next_update_check (est_crypto est) (cx_now io cx),
                      tn_lease = lease, tn_closed = []\<rparr>
                in sy3\<lparr>sy_live := sy_live sy3 @ [\<lparr>lv_client = client, lv_id = session, lv_io = io, lv_tunnel = t\<rparr>]\<rparr>)))"

text \<open>\<open>serve_session\<close> from the end of its handshake; \<open>timed_out\<close> is the carrier of a handshake that took too long.\<close>

definition handshake_end ::
    "crypto \<Rightarrow> runtime_config \<Rightarrow> client \<Rightarrow> handshake_inputs \<Rightarrow> carrier option \<Rightarrow> nat \<Rightarrow> session_io \<Rightarrow> carrier \<Rightarrow> system \<Rightarrow> system" where
  "handshake_end C rt client hi timed_out micros io carrier sy =
     (let (outcome, c) = timed_handshake C rt client hi timed_out carrier;
          sy1 = set_metrics (\<lambda>m. m\<lparr>sm_handshake_duration_micros_total :=
                  sm_handshake_duration_micros_total m + of_nat (min micros u64_max)\<rparr>) sy;
          failed = serve_return c (set_metrics (\<lambda>m. m\<lparr>sm_handshake_failed := sm_handshake_failed m + 1\<rparr>) sy1)
      in case outcome of
        None \<Rightarrow> failed
      | Some (Inl _) \<Rightarrow> failed
      | Some (Inr est) \<Rightarrow> session_start C io client est c sy1)"

text \<open>One turn of a session. It takes the carrier of a migration only from those that wait for it, in any order. At
  its end one carrier is in its channel, which holds one, and is dropped with it; the senders of the others fail, and
  close them.\<close>

definition load_shared :: "server \<Rightarrow> tunnel \<Rightarrow> tunnel" where
  "load_shared sv t = t\<lparr>tn_cx := (tn_cx t)\<lparr>cx_network := sv_network sv, cx_metrics := sv_metrics sv\<rparr>\<rparr>"

definition store_shared :: "tunnel \<Rightarrow> system \<Rightarrow> system" where
  "store_shared t sy = set_metrics (\<lambda>_. cx_metrics (tn_cx t)) (set_network (cx_network (tn_cx t)) sy)"

fun takes_offer :: "bytes \<Rightarrow> tunnel_event \<Rightarrow> (bytes \<times> carrier) list \<Rightarrow> (bytes \<times> carrier) list option" where
  "takes_offer session (MigrationOffered c) offers =
     (if (session, c) \<in> set offers then Some (remove1 (session, c) offers) else None)"
| "takes_offer session e offers = Some offers"

definition session_turn :: "crypto \<Rightarrow> runtime_config \<Rightarrow> nat \<Rightarrow> tunnel_event \<Rightarrow> system \<Rightarrow> system" where
  "session_turn C rt i e sy =
     (let l = sy_live sy ! i in
      case takes_offer (lv_id l) e (sy_offers sy) of
        None \<Rightarrow> sy
      | Some offers \<Rightarrow>
          (let (r, t) = tunnel_step C (lv_io l) rt (lv_client l) (load_shared (sy_server sy) (lv_tunnel l)) e;
               sy1 = store_shared t (sy\<lparr>sy_offers := offers\<rparr>)
           in if r = Inr True then sy1\<lparr>sy_live := (sy_live sy)[i := l\<lparr>lv_tunnel := t\<rparr>]\<rparr>
              else
                let sy2 = set_network (lease_drop (cx_network (tn_cx t)) (tn_lease t)) sy1;
                    unclaimed = filter (\<lambda>(session, _). session = lv_id l) offers
                in session_return (lv_id l) (map_sum id (\<lambda>_. ()) r) (cx_carrier (tn_cx t))
                     (sy2\<lparr>sy_live := remove_nth i (sy_live sy), sy_offers := filter (\<lambda>(session, _). session \<noteq> lv_id l) offers,
                         sy_closed := sy_closed sy @ map (\<lambda>(_, c). carrier_close c) (drop 1 unclaimed),
                         sy_ended := sy_ended sy @ [l\<lparr>lv_tunnel := t\<rparr>]\<rparr>)))"

text \<open>The start of the shutdown in \<open>main\<close>, and the flag that \<open>serve_h3_endpoint\<close> sets.\<close>

definition begin_drain :: "system \<Rightarrow> system" where
  "begin_drain sy = set_admission ((sv_admission (sy_server sy))\<lparr>ad_draining := True, ad_h3_ready := False\<rparr>) sy"

definition set_h3_ready :: "bool \<Rightarrow> system \<Rightarrow> system" where
  "set_h3_ready ready sy = set_admission ((sv_admission (sy_server sy))\<lparr>ad_h3_ready := ready\<rparr>) sy"

datatype system_event =
    WssRequest request_clock request_clock string bool "string option" bytes carrier
  | H2Request request_clock request_clock "string option" bytes carrier
  | H3Session "bytes \<Rightarrow> bytes option" "bytes \<Rightarrow> string option" request_clock request_clock bytes bool carrier
  | ServeStarts nat
  | HandshakeEnds nat handshake_inputs "carrier option" nat session_io
  | SessionTurn nat tunnel_event
  | ReaderTurn reader_event
  | H3Ready bool
  | DrainBegins

fun system_step :: "crypto \<Rightarrow> config_env \<Rightarrow> runtime_config \<Rightarrow> h3_config \<Rightarrow> system \<Rightarrow> system_event \<Rightarrow> system" where
  "system_step C env rt cfg sy (WssRequest clock clock2 path upgradable authorization source carrier) =
     (let (admitted, ad) = admit_wss C env rt (current_admission (sy_server sy)) clock clock2 path upgradable authorization source
      in dispatch admitted ad carrier sy)"
| "system_step C env rt cfg sy (H2Request clock clock2 authorization source carrier) =
     (let (admitted, ad) = admit_h2 C env rt (current_admission (sy_server sy)) clock clock2 authorization source
      in dispatch admitted ad carrier sy)"
| "system_step C env rt cfg sy (H3Session exporter_for utf8 clock clock2 peer late carrier) =
     (let (r, ad, c) = admit_h3 C env rt cfg exporter_for utf8 (current_admission (sy_server sy)) clock clock2 peer late carrier
      in dispatch (case r of Inl _ \<Rightarrow> None | Inr admitted \<Rightarrow> admitted) ad c sy)"
| "system_step C env rt cfg sy (ServeStarts i) =
     (if i < length (sy_admitted sy) then
        let (client, carrier) = sy_admitted sy ! i
        in serve_start client carrier (sy\<lparr>sy_admitted := remove_nth i (sy_admitted sy)\<rparr>)
      else sy)"
| "system_step C env rt cfg sy (HandshakeEnds i hi timed_out micros io) =
     (if i < length (sy_handshakes sy) then
        let (client, carrier) = sy_handshakes sy ! i
        in handshake_end C rt client hi timed_out micros io carrier (sy\<lparr>sy_handshakes := remove_nth i (sy_handshakes sy)\<rparr>)
      else sy)"
| "system_step C env rt cfg sy (SessionTurn i e) = (if i < length (sy_live sy) then session_turn C rt i e sy else sy)"
| "system_step C env rt cfg sy (ReaderTurn e) = set_network (reader_step (sv_network (sy_server sy)) e) sy"
| "system_step C env rt cfg sy (H3Ready ready) = set_h3_ready ready sy"
| "system_step C env rt cfg sy DrainBegins = begin_drain sy"

text \<open>The state that \<open>main\<close> builds; \<open>Metrics\<close> starts at zero.\<close>

definition metrics_new :: session_metrics where
  "metrics_new = \<lparr>sm_sessions_total = 0, sm_wss_sessions_total = 0, sm_h2_sessions_total = 0, sm_h3_sessions_total = 0,
     sm_sessions_active = 0, sm_handshake_attempts_total = 0, sm_handshake_failed = 0, sm_handshake_duration_micros_total = 0,
     sm_overloaded_total = 0, sm_rekey_failed_total = 0, sm_routine_rekeys_total = 0, sm_full_rekeys_total = 0,
     sm_shaping_delay_micros_total = 0, sm_migrations_total = 0, sm_migration_failed_total = 0,
     sm_disconnects_expected_total = 0, sm_disconnects_error_total = 0\<rparr>"

definition system_new :: "nat \<Rightarrow> bool \<Rightarrow> bool \<Rightarrow> system" where
  "system_new session_queue network_ready h3_ready =
     \<lparr>sy_server = \<lparr>sv_admission = \<lparr>ad_gate_replay = Map.empty, ad_rates = [], ad_migrations = Map.empty, ad_gate_rejected = 0,
          ad_draining = False, ad_network_ready = network_ready, ad_h3_ready = h3_ready\<rparr>,
        sv_network = network_new session_queue network_ready, sv_metrics = metrics_new, sv_permits = max_active_carriers\<rparr>,
      sy_admitted = [], sy_handshakes = [], sy_live = [], sy_offers = [], sy_detached = [], sy_closed = [], sy_ended = []\<rparr>"

section \<open>What a request does to the admission state\<close>

text \<open>It leaves the set of sessions that may migrate and the draining flag.\<close>

definition admission_frame :: "admission_state \<Rightarrow> admission_state \<Rightarrow> bool" where
  "admission_frame ad ad' \<longleftrightarrow> dom (ad_migrations ad') = dom (ad_migrations ad) \<and> ad_draining ad' = ad_draining ad"

definition admits :: "runtime_config \<Rightarrow> admission_state \<Rightarrow> admission option \<times> admission_state \<Rightarrow> bool" where
  "admits rt ad p \<longleftrightarrow> admission_frame ad (snd p) \<and> (fst p \<noteq> None \<longrightarrow> is_operational ad) \<and>
     (\<forall>client. fst p = Some (HandshakeAdmission client) \<longrightarrow> client \<in> ran (rt_clients rt))"

lemma check_rate_frame: "admission_frame ad (snd (check_admission_rate ad source now))"
  by (simp add: check_admission_rate_def admission_frame_def Let_def)

lemma validate_gate_token_frame:
  "admission_frame ad (snd (validate_gate_token C env rt ad clock encoded label exporter http_method authority path))"
  by (auto simp: validate_gate_token_def attempt_def admission_frame_def Let_def replay_insert_def split: sum.split)

lemma validate_gate_token_client:
  "validate_gate_token C env rt ad clock encoded label exporter http_method authority path = (Inr client, ad') \<Longrightarrow>
     client \<in> ran (rt_clients rt)"
  by (auto simp: validate_gate_token_def attempt_Inr_iff Let_def split: if_split_asm prod.split_asm intro: ranI)

lemma validate_migration_gate_frame: "admission_frame ad (snd (validate_migration_gate C env ad clock encoded exporter endpoint))"
  by (auto simp: validate_migration_gate_def attempt_def admission_frame_def Let_def replay_insert_def ok_or_def
      split: sum.split option.split)

lemma admission_frame_trans: "admission_frame a b \<Longrightarrow> admission_frame b c \<Longrightarrow> admission_frame a c"
  by (simp add: admission_frame_def)

lemma admission_frame_refl [simp]: "admission_frame ad ad" "admission_frame ad (count_rejected ad)"
  by (simp_all add: admission_frame_def count_rejected_def)

lemma decide_admission_frame:
  assumes "admission_frame ad (snd gate)" and "\<And>x. admission_frame x (snd (migrate x))"
  shows "admission_frame ad (snd (decide_admission gate migrate))"
proof -
  obtain r ad1 where g: "gate = (r, ad1)" by fastforce
  obtain q ad2 where m: "migrate ad1 = (q, ad2)" by fastforce
  have "admission_frame ad ad1" "admission_frame ad1 ad2" using assms(1) assms(2) [of ad1] by (simp_all add: g m)
  then show ?thesis by (auto simp: decide_admission_def g m admission_frame_def count_rejected_def split: sum.split)
qed

lemma decide_admission_client:
  assumes "\<And>client ad'. gate = (Inr client, ad') \<Longrightarrow> client \<in> ran (rt_clients rt)"
    and "fst (decide_admission gate migrate) = Some (HandshakeAdmission client)"
  shows "client \<in> ran (rt_clients rt)"
  using assms by (auto simp: decide_admission_def split: prod.split_asm sum.split_asm)

text \<open>The part that the entry points share, after the guards.\<close>

lemma rate_then_decide:
  assumes "is_operational ad" and "check_admission_rate ad source now = (Inr u, ad1)"
  shows "admits rt ad (decide_admission (validate_gate_token C env rt ad1 clock encoded label exporter http_method authority path)
    (\<lambda>ad2. validate_migration_gate C env ad2 clock2 encoded exporter' 1))"
proof -
  have "admission_frame ad ad1" using check_rate_frame [of ad source now] assms(2) by simp
  then have "admission_frame ad (snd (validate_gate_token C env rt ad1 clock encoded label exporter http_method authority path))"
    using admission_frame_trans validate_gate_token_frame by blast
  then show ?thesis
    unfolding admits_def using assms(1) decide_admission_client [OF validate_gate_token_client]
    by (intro conjI allI impI decide_admission_frame validate_migration_gate_frame) blast+
qed

lemma rate_refused: "check_admission_rate ad source now = (Inl e, ad1) \<Longrightarrow> admits rt ad (None, count_rejected ad1)"
  using check_rate_frame [of ad source now] by (simp add: admits_def admission_frame_def count_rejected_def)

lemma admits_none [simp]: "admits rt ad (None, ad)"
  by (simp add: admits_def)

lemma admit_wss_admits: "admits rt ad (admit_wss C env rt ad clock clock2 path upgradable authorization source)"
  by (auto simp: admit_wss_def validate_gate_def split: option.split prod.split sum.split intro!: rate_refused rate_then_decide)

lemma admit_h2_admits: "admits rt ad (admit_h2 C env rt ad clock clock2 authorization source)"
  by (auto simp: admit_h2_def validate_gate_def split: option.split prod.split sum.split intro!: rate_refused rate_then_decide)

lemma admit_h3_admits:
  assumes "admit_h3 C env rt cfg exporter_for utf8 ad clock clock2 peer late carrier = (r, ad', c)"
  shows "admits rt ad (case r of Inl _ \<Rightarrow> None | Inr admitted \<Rightarrow> admitted, ad')"
proof (cases "is_operational ad")
  case True
  obtain q ad1 where rate: "check_admission_rate ad peer (ck_rate clock) = (q, ad1)" by fastforce
  have frame: "admission_frame ad ad1" using check_rate_frame [of ad peer "ck_rate clock"] rate by simp
  show ?thesis
  proof (cases q)
    case (Inl e)
    then show ?thesis using assms True rate_refused rate by (auto simp: admit_h3_def)
  next
    case (Inr u)
    have d: "admits rt ad (decide_admission (validate_h3_gate C env rt ad1 clock encoded exporter (hc_authority cfg) (hc_path cfg))
        (\<lambda>ad2. validate_migration_gate C env ad2 clock2 encoded exporter 1))" for encoded exporter
      unfolding validate_h3_gate_def using rate_then_decide [OF True] rate Inr by blast
    have "admits rt ad (None, ad1)" "admits rt ad (None, count_rejected ad1)"
      using frame by (simp_all add: admits_def admission_frame_def count_rejected_def)
    then show ?thesis using assms True rate Inr
      by (auto simp: admit_h3_def split: option.split_asm prod.split_asm sum.split_asm if_split_asm) (metis d)+
  qed
qed (use assms in \<open>auto simp: admit_h3_def\<close>)

section \<open>The invariant\<close>

definition lv_lease :: "live_session \<Rightarrow> session_lease" where
  "lv_lease l = tn_lease (lv_tunnel l)"

text \<open>Every permit is free, or held by a task in its handshake or its loop, or by \<open>k\<close> tasks in between; the
  counter of active sessions counts the sessions in their loops.\<close>

definition counts_inv :: "nat \<Rightarrow> system \<Rightarrow> bool" where
  "counts_inv k sy \<longleftrightarrow>
     sv_permits (sy_server sy) + length (sy_handshakes sy) + length (sy_live sy) + k = max_active_carriers \<and>
     sm_sessions_active (sv_metrics (sy_server sy)) = of_nat (length (sy_live sy))"

text \<open>The sessions that may migrate are the live ones.\<close>

definition registry_inv :: "system \<Rightarrow> bool" where
  "registry_inv sy \<longleftrightarrow> distinct (map lv_id (sy_live sy)) \<and>
     dom (ad_migrations (sv_admission (sy_server sy))) = set (map lv_id (sy_live sy))"

text \<open>The network knows the live sessions, one for an address.\<close>

definition leases :: "system \<Rightarrow> (bytes \<times> u64) list" where
  "leases sy = map (\<lambda>l. (lease_ip (lv_lease l), lease_id (lv_lease l))) (sy_live sy)"

definition network_inv :: "system \<Rightarrow> bool" where
  "network_inv sy \<longleftrightarrow> \<not> nw_poisoned (sv_network (sy_server sy)) \<and> distinct (map fst (leases sy)) \<and>
     registrations (sv_network (sy_server sy)) = map_of (leases sy)"

text \<open>Every task works for a configured client, and a session holds the address of its client.\<close>

definition clients_inv :: "runtime_config \<Rightarrow> system \<Rightarrow> bool" where
  "clients_inv rt sy \<longleftrightarrow>
     fst ` set (sy_admitted sy) \<subseteq> ran (rt_clients rt) \<and> fst ` set (sy_handshakes sy) \<subseteq> ran (rt_clients rt) \<and>
     set (map lv_client (sy_live sy)) \<subseteq> ran (rt_clients rt) \<and>
     map fst (leases sy) = map cl_tunnel_ipv4 (map lv_client (sy_live sy))"

definition held_inv :: "runtime_config \<Rightarrow> nat \<Rightarrow> system \<Rightarrow> bool" where
  "held_inv rt k sy \<longleftrightarrow> counts_inv k sy \<and> registry_inv sy \<and> network_inv sy \<and> clients_inv rt sy"

abbreviation system_inv :: "runtime_config \<Rightarrow> system \<Rightarrow> bool" where
  "system_inv rt \<equiv> held_inv rt 0"

lemmas system_inv_defs = held_inv_def counts_inv_def registry_inv_def network_inv_def clients_inv_def leases_def
lemmas system_updates = set_metrics_def set_admission_def set_network_def serve_return_def session_return_def store_shared_def

lemma length_remove_nth: "i < length xs \<Longrightarrow> Suc (length (remove_nth i xs)) = length xs"
  by (simp add: remove_nth_def)

lemma set_remove_nth: "set (remove_nth i xs) \<subseteq> set xs"
  by (auto simp: remove_nth_def dest: in_set_takeD in_set_dropD)

lemma image_remove_nth: "f ` set xs \<subseteq> A \<Longrightarrow> f ` set (remove_nth i xs) \<subseteq> A"
  using set_remove_nth [of i xs] by blast

lemma map_remove_nth: "map f (remove_nth i xs) = remove_nth i (map f xs)"
  by (simp add: remove_nth_def take_map drop_map)

lemma split_nth:
  assumes "i < length xs"
  shows "xs = take i xs @ xs ! i # drop (Suc i) xs"
  using assms by (rule id_take_nth_drop)

lemma system_inv_new: "system_inv rt (system_new session_queue network_ready h3_ready)"
  by (simp add: system_inv_defs system_new_def metrics_new_def network_new_def registrations_def fun_eq_iff)

lemma system_inv_admitted:
  assumes "system_inv rt sy"
  shows "system_inv rt (sy\<lparr>sy_admitted := remove_nth i (sy_admitted sy)\<rparr>)"
  using assms image_remove_nth [of fst "sy_admitted sy"] by (simp add: system_inv_defs)

lemma system_inv_dispatch:
  assumes "system_inv rt sy" and "admits rt (current_admission (sy_server sy)) (admitted, ad)"
  shows "system_inv rt (dispatch admitted ad carrier sy)"
proof -
  have "dom (ad_migrations ad) = dom (ad_migrations (sv_admission (sy_server sy)))"
    using assms(2) by (simp add: admits_def admission_frame_def current_admission_def)
  then show ?thesis using assms
    by (auto simp: system_inv_defs dispatch_def submit_migration_def admits_def Let_def split: option.split admission.split)
qed

lemma system_inv_serve_start:
  assumes "system_inv rt sy" and "client \<in> ran (rt_clients rt)"
  shows "system_inv rt (serve_start client carrier sy)"
  using assms by (auto simp: system_inv_defs serve_start_def Let_def)

lemma active_count [simp]:
  "sm_sessions_active (count_session kind m) = sm_sessions_active m + 1"
  "sm_sessions_active (count_disconnect r m) = sm_sessions_active m"
  "sm_sessions_active (session_inactive m) = sm_sessions_active m - 1"
  by (simp_all add: count_session_def count_disconnect_def session_inactive_def Let_def split: sum.split)

lemma held_inv_return: "held_inv rt 1 sy \<Longrightarrow> system_inv rt (serve_return carrier sy)"
  by (simp add: system_inv_defs serve_return_def)

lemma held_inv_metrics:
  "sm_sessions_active (f (sv_metrics (sy_server sy))) = sm_sessions_active (sv_metrics (sy_server sy)) \<Longrightarrow>
     held_inv rt k (set_metrics f sy) = held_inv rt k sy"
  by (simp add: system_inv_defs set_metrics_def)

lemma map_of_snoc: "map_of xs k = None \<Longrightarrow> map_of (xs @ [(k, v)]) = (map_of xs)(k \<mapsto> v)"
  by (auto simp: map_of_append fun_eq_iff map_add_def split: option.split)

lemma network_register_Inr:
  assumes "network_register n ip = (Inr lease, n')"
  shows "lease_ip lease = ip" and "registrations n ip = None" and "nw_poisoned n' = nw_poisoned n"
    and "registrations n' = (registrations n)(ip \<mapsto> lease_id lease)"
  using assms by (auto simp: network_register_def Let_def registrations_def fun_eq_iff split: if_split_asm)

lemma network_register_Inl:
  assumes "network_register n ip = (Inl e, n')"
  shows "nw_poisoned n' = nw_poisoned n" and "registrations n' = registrations n"
  using assms by (auto simp: network_register_def Let_def registrations_def fun_eq_iff split: if_split_asm)

lemma session_start_inv:
  assumes "held_inv rt 1 sy" and "client \<in> ran (rt_clients rt)"
  shows "system_inv rt (session_start C io client est carrier sy)"
proof -
  let ?sid = "est_session_id est" and ?ad = "sv_admission (sy_server sy)"
  obtain q ad where reg: "register_migration ?ad ?sid (est_migration_secret est) = (q, ad)" by fastforce
  obtain leased n where net: "network_register (sv_network (sy_server sy)) (cl_tunnel_ipv4 client) = (leased, n)" by fastforce
  have old: "dom (ad_migrations ?ad) = set (map lv_id (sy_live sy))" using assms(1) by (simp add: held_inv_def registry_inv_def)
  show ?thesis
  proof (cases q)
    case (Inl e)
    have "dom (ad_migrations ad) = dom (ad_migrations ?ad)"
      using reg Inl by (auto simp: register_migration_def Let_def split: if_split_asm)
    then show ?thesis using assms(1) reg Inl
      by (simp add: session_start_def system_inv_defs system_updates Let_def)
  next
    case (Inr u)
    have "?sid \<notin> dom (ad_migrations ?ad)" and dom: "dom (ad_migrations ad) = insert ?sid (dom (ad_migrations ?ad))"
      using reg Inr by (auto simp: register_migration_def Let_def split: if_split_asm)
    then have fresh: "?sid \<notin> lv_id ` set (sy_live sy)" using old by simp
    show ?thesis
    proof (cases leased)
      case l: (Inl e)
      have "dom (ad_migrations (migration_registration_drop ad ?sid)) = dom (ad_migrations ?ad)"
        using dom fresh old by (auto simp: migration_registration_drop_def)
      then show ?thesis using assms(1) reg Inr net l network_register_Inl [of _ _ e n]
        by (simp add: session_start_def system_inv_defs system_updates Let_def)
    next
      case l: (Inr lease)
      note lease = network_register_Inr [OF net [unfolded l]]
      have "map_of (leases sy) (cl_tunnel_ipv4 client) = None"
        using assms(1) lease(2) by (simp add: held_inv_def network_inv_def)
      note snoc = this map_of_snoc [OF this]
      then have addr: "cl_tunnel_ipv4 client \<notin> (\<lambda>l. lease_ip (lv_lease l)) ` set (sy_live sy)"
        by (auto simp: leases_def map_of_eq_None_iff image_image)
      show ?thesis using assms reg Inr net l lease fresh dom addr snoc(2)
        by (simp add: session_start_def system_inv_defs system_updates lv_lease_def comp_def Let_def)
    qed
  qed
qed

lemma handshake_end_inv:
  assumes "held_inv rt 1 sy" and "client \<in> ran (rt_clients rt)"
  shows "system_inv rt (handshake_end C rt client hi timed_out micros io carrier sy)"
proof -
  obtain outcome c where h: "timed_handshake C rt client hi timed_out carrier = (outcome, c)" by fastforce
  show ?thesis
    using assms by (auto simp: handshake_end_def h held_inv_metrics Let_def split: option.split sum.split
        intro!: session_start_inv held_inv_return)
qed

text \<open>A turn keeps what the network has registered; the end of a session takes its entries away.\<close>

lemma session_turn_eq:
  assumes "takes_offer (lv_id (sy_live sy ! i)) e (sy_offers sy) = Some offers" and "l = sy_live sy ! i"
    and "tunnel_step C (lv_io l) rt (lv_client l) (load_shared (sy_server sy) (lv_tunnel l)) e = (r, t)"
  shows "session_turn C rt i e sy =
    (if r = Inr True then (store_shared t (sy\<lparr>sy_offers := offers\<rparr>))\<lparr>sy_live := (sy_live sy)[i := l\<lparr>lv_tunnel := t\<rparr>]\<rparr>
     else session_return (lv_id l) (map_sum id (\<lambda>_. ()) r) (cx_carrier (tn_cx t))
       ((set_network (lease_drop (cx_network (tn_cx t)) (tn_lease t)) (store_shared t (sy\<lparr>sy_offers := offers\<rparr>)))
         \<lparr>sy_live := remove_nth i (sy_live sy), sy_offers := filter (\<lambda>(session, _). session \<noteq> lv_id l) offers,
          sy_closed := sy_closed sy @ map (\<lambda>(_, c). carrier_close c) (drop 1 (filter (\<lambda>(session, _). session = lv_id l) offers)),
          sy_ended := sy_ended sy @ [l\<lparr>lv_tunnel := t\<rparr>]\<rparr>))"
  using assms(1,3) unfolding session_turn_def assms(2) [symmetric] Let_def by simp

lemma lease_drop_registrations:
  assumes "\<not> nw_poisoned n" and "registrations n (lease_ip lease) = Some (lease_id lease)"
  shows "registrations (lease_drop n lease) = (registrations n)(lease_ip lease := None)" and "nw_poisoned (lease_drop n lease) = nw_poisoned n"
proof -
  obtain session where "nw_sessions n (lease_ip lease) = Some session" "rg_id session = lease_id lease"
    using assms(2) by (auto simp: registrations_def)
  then show "registrations (lease_drop n lease) = (registrations n)(lease_ip lease := None)" "nw_poisoned (lease_drop n lease) = nw_poisoned n"
    using assms(1) by (simp_all add: lease_drop_def registrations_def fun_eq_iff)
qed

lemma map_of_remove:
  assumes "distinct (map fst (xs @ (k, v) # ys))"
  shows "map_of (xs @ ys) = (map_of (xs @ (k, v) # ys))(k := None)" and "map_of (xs @ (k, v) # ys) k = Some v"
proof -
  have "map_of xs k = None" "map_of ys k = None" using assms by (simp_all add: map_of_eq_None_iff)
  then show "map_of (xs @ ys) = (map_of (xs @ (k, v) # ys))(k := None)" "map_of (xs @ (k, v) # ys) k = Some v"
    by (auto simp: fun_eq_iff map_add_def split: option.split)
qed

text \<open>What the invariant needs of a turn.\<close>

lemma turn_frame:
  assumes "tunnel_step C io rt client (load_shared sv t0) e = (r, t)"
  shows "registrations (cx_network (tn_cx t)) = registrations (sv_network sv)"
    "nw_poisoned (cx_network (tn_cx t)) = nw_poisoned (sv_network sv)"
    "sm_sessions_active (cx_metrics (tn_cx t)) = sm_sessions_active (sv_metrics sv)" "tn_lease t = tn_lease t0"
  using tunnel_step_rel [of C client "load_shared sv t0" io rt e] assms
  by (simp_all add: tunnel_rel_def session_rel_def frame_rel_def load_shared_def)

lemma held_inv_cong:
  assumes "held_inv rt k sy" and "map lv_id (sy_live sy') = map lv_id (sy_live sy)" and "leases sy' = leases sy"
    and "map lv_client (sy_live sy') = map lv_client (sy_live sy)" and "sy_admitted sy' = sy_admitted sy"
    and "sy_handshakes sy' = sy_handshakes sy" and "sv_permits (sy_server sy') = sv_permits (sy_server sy)"
    and "dom (ad_migrations (sv_admission (sy_server sy'))) = dom (ad_migrations (sv_admission (sy_server sy)))"
    and "registrations (sv_network (sy_server sy')) = registrations (sv_network (sy_server sy))"
    and "nw_poisoned (sv_network (sy_server sy')) = nw_poisoned (sv_network (sy_server sy))"
    and "sm_sessions_active (sv_metrics (sy_server sy')) = sm_sessions_active (sv_metrics (sy_server sy))"
  shows "held_inv rt k sy'"
proof -
  have len: "length (sy_live sy') = length (sy_live sy)" using assms(2) by (rule map_eq_imp_length_eq)
  show ?thesis
    using assms(1) unfolding held_inv_def counts_inv_def registry_inv_def network_inv_def clients_inv_def assms(2-11) len .
qed

lemma live_continues_inv:
  assumes "system_inv rt sy" and "sy_live sy = before @ l # after" and "tn_lease t = tn_lease (lv_tunnel l)"
    and "registrations (cx_network (tn_cx t)) = registrations (sv_network (sy_server sy))"
    and "nw_poisoned (cx_network (tn_cx t)) = nw_poisoned (sv_network (sy_server sy))"
    and "sm_sessions_active (cx_metrics (tn_cx t)) = sm_sessions_active (sv_metrics (sy_server sy))"
  shows "system_inv rt ((store_shared t (sy\<lparr>sy_offers := offers\<rparr>))\<lparr>sy_live := before @ l\<lparr>lv_tunnel := t\<rparr> # after\<rparr>)"
  by (rule held_inv_cong [OF assms(1)]) (use assms(2-6) in \<open>simp_all add: system_updates leases_def lv_lease_def\<close>)

lemma live_ends_inv:
  assumes "system_inv rt sy" and "sy_live sy = before @ l # after" and "tn_lease t = tn_lease (lv_tunnel l)"
    and "registrations (cx_network (tn_cx t)) = registrations (sv_network (sy_server sy))"
    and "nw_poisoned (cx_network (tn_cx t)) = nw_poisoned (sv_network (sy_server sy))"
    and "sm_sessions_active (cx_metrics (tn_cx t)) = sm_sessions_active (sv_metrics (sy_server sy))"
  shows "system_inv rt (session_return (lv_id l) r carrier
    ((set_network (lease_drop (cx_network (tn_cx t)) (tn_lease t)) (store_shared t (sy\<lparr>sy_offers := offers\<rparr>)))
       \<lparr>sy_live := before @ after, sy_offers := offers', sy_closed := closed, sy_ended := ended\<rparr>))"
proof -
  let ?n = "cx_network (tn_cx t)" and ?entry = "\<lambda>l. (lease_ip (lv_lease l), lease_id (lv_lease l))"
  have leases: "leases sy = map ?entry before @ (lease_ip (tn_lease t), lease_id (tn_lease t)) # map ?entry after"
    using assms(2,3) by (simp add: leases_def lv_lease_def)
  have net: "distinct (map fst (leases sy))" "registrations ?n = map_of (leases sy)" "\<not> nw_poisoned ?n"
    using assms(1,4,5) by (simp_all add: held_inv_def network_inv_def)
  have reg: "registrations ?n (lease_ip (tn_lease t)) = Some (lease_id (tn_lease t))"
    "map_of (map ?entry before @ map ?entry after) = (map_of (leases sy))(lease_ip (tn_lease t) := None)"
    using map_of_remove [OF net(1) [unfolded leases]] net(2) by (simp_all add: leases)
  note drop = lease_drop_registrations [OF net(3) reg(1)]
  define sy' where "sy' = session_return (lv_id l) r carrier
    ((set_network (lease_drop ?n (tn_lease t)) (store_shared t (sy\<lparr>sy_offers := offers\<rparr>)))
       \<lparr>sy_live := before @ after, sy_offers := offers', sy_closed := closed, sy_ended := ended\<rparr>)"
  have dom: "dom (ad_migrations (migration_registration_drop (sv_admission (sy_server sy)) (lv_id l))) = lv_id ` set (before @ after)"
    using assms(1,2) by (auto simp: held_inv_def registry_inv_def migration_registration_drop_def)
  have leases': "leases sy' = map ?entry before @ map ?entry after" by (simp add: leases_def sy'_def system_updates)
  have "counts_inv 0 sy'" using assms(1,2,6) by (simp add: held_inv_def counts_inv_def sy'_def system_updates)
  moreover have "registry_inv sy'" using assms(1,2) dom by (simp add: held_inv_def registry_inv_def sy'_def system_updates image_Un)
  moreover have "network_inv sy'" unfolding network_inv_def leases'
    using net drop reg(2) leases by (simp add: sy'_def system_updates)
  moreover have "clients_inv rt sy'" unfolding clients_inv_def leases'
    using assms(1,2) by (simp add: held_inv_def clients_inv_def leases_def sy'_def system_updates)
  ultimately show ?thesis unfolding held_inv_def sy'_def by blast
qed

lemma session_turn_inv:
  assumes "system_inv rt sy" and "i < length (sy_live sy)"
  shows "system_inv rt (session_turn C rt i e sy)"
proof (cases "takes_offer (lv_id (sy_live sy ! i)) e (sy_offers sy)")
  case (Some offers)
  define l where "l = sy_live sy ! i"
  define before after where "before = take i (sy_live sy)" and "after = drop (Suc i) (sy_live sy)"
  have live: "sy_live sy = before @ l # after" using split_nth [OF assms(2)] by (simp add: before_def after_def l_def)
  have parts: "remove_nth i (sy_live sy) = before @ after" "(sy_live sy)[i := x] = before @ x # after" for x
    using assms(2) by (auto simp: remove_nth_def before_def after_def upd_conv_take_nth_drop)
  obtain r t where step: "tunnel_step C (lv_io l) rt (lv_client l) (load_shared (sy_server sy) (lv_tunnel l)) e = (r, t)" by fastforce
  note frame = turn_frame(4,1,2,3) [OF step]
  show ?thesis unfolding session_turn_eq [OF Some l_def step] parts
    using live_continues_inv [OF assms(1) live frame] live_ends_inv [OF assms(1) live frame] by simp
qed (use assms in \<open>simp add: session_turn_def Let_def\<close>)

lemma reader_step_frame:
  "registrations (reader_step n e) = registrations n" "nw_poisoned (reader_step n e) = nw_poisoned n"
  by (cases e; auto simp: receive_packet_def route_to_session_def registrations_def fun_eq_iff Let_def split: option.split)+

text \<open>A request is decided and dispatched.\<close>

fun is_request :: "system_event \<Rightarrow> bool" where
  "is_request (WssRequest _ _ _ _ _ _ _) = True"
| "is_request (H2Request _ _ _ _ _) = True"
| "is_request (H3Session _ _ _ _ _ _ _) = True"
| "is_request _ = False"

lemma request_dispatched:
  assumes "is_request e"
  shows "\<exists>admitted ad c. system_step C env rt cfg sy e = dispatch admitted ad c sy \<and>
    admits rt (current_admission (sy_server sy)) (admitted, ad)"
proof (cases e)
  case (WssRequest clock clock2 path upgradable authorization source carrier)
  then show ?thesis using admit_wss_admits [of rt "current_admission (sy_server sy)"] by (auto simp: Let_def split: prod.split) metis
next
  case (H2Request clock clock2 authorization source carrier)
  then show ?thesis using admit_h2_admits [of rt "current_admission (sy_server sy)"] by (auto simp: Let_def split: prod.split) metis
next
  case (H3Session exporter_for utf8 clock clock2 peer late carrier)
  obtain r ad c where "admit_h3 C env rt cfg exporter_for utf8 (current_admission (sy_server sy)) clock clock2 peer late carrier = (r, ad, c)"
    by (metis prod_cases3)
  then show ?thesis using H3Session admit_h3_admits by fastforce
qed (use assms in simp_all)

lemma system_step_inv:
  assumes "system_inv rt sy"
  shows "system_inv rt (system_step C env rt cfg sy e)"
proof (cases "is_request e")
  case True
  then show ?thesis using request_dispatched system_inv_dispatch [OF assms] by metis
next
  case False
  then show ?thesis
  proof (cases e)
    case (ServeStarts i)
    have "fst (sy_admitted sy ! i) \<in> ran (rt_clients rt)" if "i < length (sy_admitted sy)"
      using assms that by (auto simp: held_inv_def clients_inv_def)
    then show ?thesis using assms ServeStarts by (auto simp: system_inv_admitted system_inv_serve_start split: prod.split)
  next
    case (HandshakeEnds i hi timed_out micros io)
    have "fst (sy_handshakes sy ! i) \<in> ran (rt_clients rt)" "held_inv rt 1 (sy\<lparr>sy_handshakes := remove_nth i (sy_handshakes sy)\<rparr>)"
      if "i < length (sy_handshakes sy)"
      using assms that length_remove_nth [OF that] image_remove_nth [of fst "sy_handshakes sy"]
      by (auto simp: held_inv_def counts_inv_def registry_inv_def network_inv_def clients_inv_def leases_def)
    then show ?thesis using assms HandshakeEnds by (auto simp: handshake_end_inv split: prod.split)
  next
    case (SessionTurn i ev)
    then show ?thesis using assms session_turn_inv by simp
  next
    case (ReaderTurn ev)
    then show ?thesis
      using held_inv_cong [OF assms, of "set_network (reader_step (sv_network (sy_server sy)) ev) sy"] reader_step_frame
      by (simp add: set_network_def leases_def)
  next
    case (H3Ready ready)
    then show ?thesis using held_inv_cong [OF assms, of "set_h3_ready ready sy"] by (simp add: set_h3_ready_def set_admission_def leases_def)
  next
    case DrainBegins
    then show ?thesis using held_inv_cong [OF assms, of "begin_drain sy"] by (simp add: begin_drain_def set_admission_def leases_def)
  qed (use assms in simp_all)
qed

interpretation system: event_machine "system_step C env rt cfg" "system_inv rt" for C env rt cfg
  by unfold_locales (rule system_step_inv)

section \<open>Every session on its own\<close>

text \<open>What a successful handshake leaves behind.\<close>

lemma handshake_session:
  assumes "inner_handshake C rt client hi carrier = (Inr est, carrier')"
  shows "\<exists>secret keys transcript. rekey_session_new C (hi_session_id hi) secret keys transcript (hi_crypto_start hi) = Inr (est_crypto est) \<and>
    epoch_keys_wf keys \<and> length (hi_session_id hi) = 16 \<and> est_session_id est = hi_session_id hi \<and>
    session_policy_new (cl_session_lifetime_seconds client) (cl_bandwidth_bytes_per_second client) (cl_session_quota_bytes client)
      (hi_policy_start hi) = Inr (est_policy est)"
proof -
  obtain r ch stime keys auth confirm where
    c: "verify_client_confirm C keys (hr_t4 C r) (hi_session_id hi) confirm = Inr ()" and
    e: "establish C client hi (hk_kdf keys) (hr_t5 C r) = Inr est"
    using inner_handshake_steps [OF assms] by blast
  obtain secrets where s: "application_secrets_derive C (hk_kdf keys) (hr_t5 C r) (hi_session_id hi) = Inr secrets"
    "rekey_session_new C (hi_session_id hi) (as_epoch_secret secrets) (as_epoch secrets) (hr_t5 C r) (hi_crypto_start hi) = Inr (est_crypto est)"
    "session_policy_new (cl_session_lifetime_seconds client) (cl_bandwidth_bytes_per_second client) (cl_session_quota_bytes client)
      (hi_policy_start hi) = Inr (est_policy est)" "est_session_id est = hi_session_id hi"
    using e by (auto simp: establish_def and_then_Inr_iff)
  have "epoch_keys_wf (as_epoch secrets)"
    using s(1) by (auto simp: application_secrets_derive_def and_then_Inr_iff dest: epoch_keys_derive_wf)
  then show ?thesis using s c by (auto simp: verify_client_confirm_iff)
qed

lemma policy_start:
  assumes "session_policy_new lifetime bandwidth quota start = Inr p"
  shows "sp_transferred p = 0" "policy_wf p" "quota \<noteq> 0 \<Longrightarrow> sp_quota p = Some quota" "sp_deadline p = start + int (lifetime * nanos_per_sec)"
  using assms by (auto simp: session_policy_new_def policy_wf_def split: if_split_asm)

lemma opened_ids_map: "opened_ids (map Opened hs) = map record_id hs"
  by (induction hs) auto

text \<open>What holds of a session at any time: its key schedule is a run from a fresh start, its records are among those of
  the run, and its packets for the kernel are valid, its own and within its policy.\<close>

definition crypto_sound :: "crypto \<Rightarrow> session_ctx \<Rightarrow> bool" where
  "crypto_sound C cx \<longleftrightarrow>
     (\<exists>sid secret keys transcript start s es outs. rekey_session_new C sid secret keys transcript start = Inr s \<and> epoch_keys_wf keys \<and>
        length sid = 16 \<and> rekey_run C s es = (outs, cx_crypto cx) \<and> subseq (map Sent (cx_sent cx)) outs \<and>
        subseq (map Opened (cx_opened cx)) outs)"

definition kernel_sound :: "client \<Rightarrow> session_ctx \<Rightarrow> bool" where
  "kernel_sound client cx \<longleftrightarrow>
     list_all (\<lambda>p. validate_ipv4_packet p (cl_tunnel_ipv4 client) = Inr ()) (cx_kernel cx) \<and>
     total_bytes (cx_kernel cx) \<le> sp_transferred (cx_policy cx) \<and> policy_wf (cx_policy cx) \<and>
     (cl_session_quota_bytes client \<noteq> 0 \<longrightarrow> sp_quota (cx_policy cx) = Some (cl_session_quota_bytes client))"

definition session_sound :: "crypto \<Rightarrow> client \<Rightarrow> session_ctx \<Rightarrow> bool" where
  "session_sound C client cx \<longleftrightarrow> crypto_sound C cx \<and> kernel_sound client cx"

lemma session_sound_start:
  assumes "inner_handshake C rt client hi carrier = (Inr est, c)" and "cx_session cx = est"
    and "cx_sent cx = []" and "cx_opened cx = []" and "cx_kernel cx = []"
  shows "session_sound C client cx"
proof -
  obtain secret keys transcript where new:
    "rekey_session_new C (hi_session_id hi) secret keys transcript (hi_crypto_start hi) = Inr (est_crypto est)"
    "epoch_keys_wf keys" "length (hi_session_id hi) = 16"
    "session_policy_new (cl_session_lifetime_seconds client) (cl_bandwidth_bytes_per_second client) (cl_session_quota_bytes client)
      (hi_policy_start hi) = Inr (est_policy est)"
    using handshake_session [OF assms(1)] by blast
  have "rekey_run C (est_crypto est) [] = ([], cx_crypto cx)" using assms(2) by simp
  moreover have "subseq (map Sent (cx_sent cx)) []" "subseq (map Opened (cx_opened cx)) []" using assms(3,4) by simp_all
  ultimately have "crypto_sound C cx" unfolding crypto_sound_def using new(1-3) by blast
  then show ?thesis using assms(2,5) policy_start [OF new(4)] by (simp add: session_sound_def kernel_sound_def total_bytes_def)
qed

lemma crypto_sound_step:
  assumes "crypto_sound C cx" and "crypto_rel C cx cx'"
  shows "crypto_sound C cx'"
proof -
  obtain sid secret keys transcript start s es outs where run: "rekey_session_new C sid secret keys transcript start = Inr s"
    "epoch_keys_wf keys" "length sid = 16" "rekey_run C s es = (outs, cx_crypto cx)" "subseq (map Sent (cx_sent cx)) outs"
    "subseq (map Opened (cx_opened cx)) outs"
    using assms(1) unfolding crypto_sound_def by blast
  obtain es' outs' new opened where more: "rekey_run C (cx_crypto cx) es' = (outs', cx_crypto cx')" "cx_sent cx' = cx_sent cx @ new"
    "subseq (map Sent new) outs'" "cx_opened cx' = cx_opened cx @ opened" "subseq (map Opened opened) outs'"
    using assms(2) unfolding crypto_rel_def by blast
  have "subseq (map Sent (cx_sent cx')) (outs @ outs')" "subseq (map Opened (cx_opened cx')) (outs @ outs')"
    unfolding more(2,4) map_append by (rule list_emb_append_mono run more)+
  then show ?thesis unfolding crypto_sound_def using run(1-3) rekey_run_append [OF run(4) more(1)] by blast
qed

lemma session_sound_step:
  assumes "session_sound C client cx" and "session_rel C client cx cx'"
  shows "session_sound C client cx'"
  using assms crypto_sound_step [of C cx cx'] by (auto simp: session_sound_def session_rel_def kernel_rel_def kernel_sound_def total_bytes_def)

lemma session_sound_shared [simp]:
  "session_sound C client (tn_cx (load_shared sv t)) = session_sound C client (tn_cx t)"
  by (simp add: session_sound_def crypto_sound_def kernel_sound_def load_shared_def)

definition sessions_sound :: "crypto \<Rightarrow> system \<Rightarrow> bool" where
  "sessions_sound C sy \<longleftrightarrow> (\<forall>l \<in> set (sy_live sy) \<union> set (sy_ended sy). session_sound C (lv_client l) (tn_cx (lv_tunnel l)))"

lemma sessions_sound_session_start:
  assumes "sessions_sound C sy" and "inner_handshake C rt client hi carrier = (Inr est, c)"
  shows "sessions_sound C (session_start C io client est c sy)"
proof -
  have "session_sound C client (ticked \<lparr>cx_carrier = mark_application_ready c, cx_network = n, cx_session = est, cx_metrics = m,
      cx_sent = [], cx_opened = [], cx_kernel = [], cx_tick = 0\<rparr>)" for n m
    by (rule session_sound_start [OF assms(2)]) (simp_all add: ticked_def)
  then show ?thesis using assms(1)
    by (auto simp: session_start_def sessions_sound_def system_updates Let_def split: prod.split sum.split)
qed

lemma sessions_sound_turn:
  assumes "sessions_sound C sy" and "i < length (sy_live sy)"
  shows "sessions_sound C (session_turn C rt i e sy)"
proof (cases "takes_offer (lv_id (sy_live sy ! i)) e (sy_offers sy)")
  case (Some offers)
  define l where "l = sy_live sy ! i"
  obtain r t where step: "tunnel_step C (lv_io l) rt (lv_client l) (load_shared (sy_server sy) (lv_tunnel l)) e = (r, t)" by fastforce
  have "session_rel C (lv_client l) (tn_cx (load_shared (sy_server sy) (lv_tunnel l))) (tn_cx t)"
    using tunnel_step_rel [of C "lv_client l" "load_shared (sy_server sy) (lv_tunnel l)" "lv_io l" rt e] step by (simp add: tunnel_rel_def)
  moreover have "session_sound C (lv_client l) (tn_cx (lv_tunnel l))" using assms by (simp add: sessions_sound_def l_def)
  ultimately have "session_sound C (lv_client l) (tn_cx t)"
    using session_sound_step [of C "lv_client l" "tn_cx (load_shared (sy_server sy) (lv_tunnel l))" "tn_cx t"] by simp
  then show ?thesis unfolding session_turn_eq [OF Some l_def step]
    using assms(1) set_remove_nth [of i "sy_live sy"]
    by (auto simp: sessions_sound_def system_updates dest!: subsetD [OF set_update_subset_insert])
qed (use assms in \<open>simp add: session_turn_def Let_def\<close>)

lemma sessions_sound_handshake_end:
  assumes "sessions_sound C sy"
  shows "sessions_sound C (handshake_end C rt client hi timed_out micros io carrier sy)"
proof -
  obtain outcome c where h: "timed_handshake C rt client hi timed_out carrier = (outcome, c)" by fastforce
  have "inner_handshake C rt client hi carrier = (Inr est, c)" if "outcome = Some (Inr est)" for est
    using h that by (auto simp: timed_handshake_def split: option.split_asm prod.split_asm)
  moreover have "sessions_sound C (set_metrics f sy)" "sessions_sound C (serve_return c (set_metrics g (set_metrics f sy)))" for f g
    using assms by (simp_all add: sessions_sound_def system_updates)
  ultimately show ?thesis
    by (auto simp: handshake_end_def h Let_def split: option.split sum.split intro!: sessions_sound_session_start)
qed

lemma sessions_sound_step:
  assumes "sessions_sound C sy"
  shows "sessions_sound C (system_step C env rt cfg sy e)"
proof -
  have "sessions_sound C (sy\<lparr>sy_handshakes := hs\<rparr>)" "sessions_sound C (serve_start client carrier (sy\<lparr>sy_admitted := as\<rparr>))"
    "sessions_sound C (dispatch a ad carrier sy)" "sessions_sound C (set_network n sy)" "sessions_sound C (set_h3_ready b sy)"
    "sessions_sound C (begin_drain sy)" for hs as client carrier a ad n b
    using assms
    by (simp_all add: sessions_sound_def serve_start_def dispatch_def submit_migration_def set_network_def set_h3_ready_def
        begin_drain_def set_admission_def Let_def split: option.split admission.split)
  then show ?thesis using assms
    by (cases e) (simp_all add: sessions_sound_turn sessions_sound_handshake_end Let_def split: prod.split)
qed

interpretation sessions: event_machine "system_step C env rt cfg" "sessions_sound C" for C env rt cfg
  by unfold_locales (rule sessions_sound_step)

text \<open>What soundness gives.\<close>

lemma session_sound_records:
  assumes "hash_sized C" and "session_sound C client cx"
  shows "distinct (sent_ids (map Sent (cx_sent cx)))" and "distinct (map record_id (cx_opened cx))"
proof -
  obtain sid secret keys transcript start s es outs where run: "rekey_session_new C sid secret keys transcript start = Inr s"
    "epoch_keys_wf keys" "length sid = 16" "rekey_run C s es = (outs, cx_crypto cx)" "subseq (map Sent (cx_sent cx)) outs"
    "subseq (map Opened (cx_opened cx)) outs"
    using assms(2) unfolding session_sound_def crypto_sound_def by blast
  have "distinct (sent_ids outs)" "distinct (opened_ids outs)" using rekey_run_inv [OF assms(1) run(1-3), of es] run(4) by auto
  then show "distinct (sent_ids (map Sent (cx_sent cx)))" "distinct (map record_id (cx_opened cx))"
    using subseq_distinct [OF sent_ids_subseq [OF run(5)]] subseq_distinct [OF opened_ids_subseq [OF run(6)]] by (simp_all add: opened_ids_map)
qed

section \<open>Draining\<close>

definition drained_to :: "nat \<Rightarrow> nat \<Rightarrow> system \<Rightarrow> bool" where
  "drained_to admitted working sy \<longleftrightarrow> ad_draining (sv_admission (sy_server sy)) \<and> length (sy_admitted sy) \<le> admitted \<and>
     length (sy_handshakes sy) + length (sy_live sy) \<le> working"

lemma register_migration_draining:
  "register_migration ad sid secret = (r, ad') \<Longrightarrow> ad_draining ad' = ad_draining ad"
  by (auto simp: register_migration_def Let_def split: if_split_asm)

lemma drained_dispatch:
  assumes "drained_to a k sy" and "admits rt (current_admission (sy_server sy)) (admitted, ad)"
  shows "drained_to a k (dispatch admitted ad carrier sy)"
  using assms by (auto simp: drained_to_def dispatch_def admits_def admission_frame_def current_admission_def is_operational_def)

lemma drained_session_start:
  assumes "drained_to a k sy"
  shows "drained_to a (Suc k) (session_start C io client est c sy)"
  using assms by (auto simp: session_start_def drained_to_def system_updates migration_registration_drop_def Let_def
      split: prod.split sum.split dest!: register_migration_draining)

lemma drained_handshake_end:
  assumes "drained_to a k sy"
  shows "drained_to a (Suc k) (handshake_end C rt client hi timed_out micros io carrier sy)"
proof -
  have "drained_to a k (set_metrics f sy)" "drained_to a (Suc k) (serve_return c (set_metrics g (set_metrics f sy)))" for c f g
    using assms by (simp_all add: drained_to_def system_updates)
  then show ?thesis by (auto simp: handshake_end_def drained_session_start Let_def split: prod.split option.split sum.split)
qed

lemma drained_turn:
  assumes "drained_to a k sy" and "i < length (sy_live sy)"
  shows "drained_to a k (session_turn C rt i e sy)"
proof (cases "takes_offer (lv_id (sy_live sy ! i)) e (sy_offers sy)")
  case (Some offers)
  obtain r t where step: "tunnel_step C (lv_io (sy_live sy ! i)) rt (lv_client (sy_live sy ! i))
      (load_shared (sy_server sy) (lv_tunnel (sy_live sy ! i))) e = (r, t)" by fastforce
  show ?thesis unfolding session_turn_eq [OF Some refl step] using assms length_remove_nth [OF assms(2)]
    by (simp add: drained_to_def system_updates migration_registration_drop_def)
qed (use assms in \<open>simp add: session_turn_def Let_def\<close>)

lemma drained_step:
  assumes "drained_to a k sy"
  shows "drained_to a k (system_step C env rt cfg sy e)"
proof (cases "is_request e")
  case True
  then show ?thesis using request_dispatched drained_dispatch [OF assms] by metis
next
  case False
  have hs: "drained_to a k (handshake_end C rt client hi timed_out micros io carrier (sy\<lparr>sy_handshakes := remove_nth i (sy_handshakes sy)\<rparr>))"
    if "i < length (sy_handshakes sy)" for client hi timed_out micros io carrier i
    using assms drained_handshake_end [of a "k - 1" "sy\<lparr>sy_handshakes := remove_nth i (sy_handshakes sy)\<rparr>"] that length_remove_nth [OF that]
    by (cases k) (auto simp: drained_to_def)
  have as: "drained_to a k (serve_start client carrier (sy\<lparr>sy_admitted := remove_nth i (sy_admitted sy)\<rparr>))"
    if "i < length (sy_admitted sy)" for client carrier i
    using assms length_remove_nth [OF that] by (simp add: drained_to_def serve_start_def Let_def)
  have "drained_to a k (set_network n sy)" "drained_to a k (set_h3_ready b sy)" "drained_to a k (begin_drain sy)" for n b
    using assms by (simp_all add: drained_to_def set_network_def set_h3_ready_def begin_drain_def set_admission_def)
  then show ?thesis using False assms by (cases e) (simp_all add: hs as drained_turn split: prod.split)
qed

interpretation drain: event_machine "system_step C env rt cfg" "drained_to admitted working" for C env rt cfg admitted working
  by unfold_locales (rule drained_step)

section \<open>One session alone\<close>

text \<open>When nothing else happens, the steps of one session add up to \<open>serve_session\<close>.\<close>

lemma takes_no_offer: "\<forall>c. e \<noteq> MigrationOffered c \<Longrightarrow> takes_offer session e offers = Some offers"
  by (cases e) auto

lemma no_session_turns: "sy_live sy = [] \<Longrightarrow> foldl (system_step C env rt cfg) sy (map (SessionTurn i) events) = sy"
  by (induction events) simp_all

definition session_over :: "system \<Rightarrow> live_session \<Rightarrow> unit result \<Rightarrow> tunnel \<Rightarrow> system \<Rightarrow> bool" where
  "session_over sy l r t sy' \<longleftrightarrow> sy_live sy' = [] \<and> sy_handshakes sy' = sy_handshakes sy \<and>
     (\<exists>closed. sy_closed sy' = closed @ [carrier_close (cx_carrier (tn_cx t))]) \<and>
     sy_server sy' = (sy_server sy)\<lparr>sv_admission := migration_registration_drop (sv_admission (sy_server sy)) (lv_id l),
       sv_network := lease_drop (cx_network (tn_cx t)) (tn_lease t), sv_metrics := session_inactive (count_disconnect r (cx_metrics (tn_cx t))),
       sv_permits := sv_permits (sy_server sy) + 1\<rparr>"

lemma serial_turns:
  assumes "tunnel_run C (lv_io l) rt (lv_client l) (lv_tunnel l) events = (Some r, t)" and "sy_live sy = [l]"
    and "load_shared (sy_server sy) (lv_tunnel l) = lv_tunnel l" and "\<forall>c. MigrationOffered c \<notin> set events"
  shows "session_over sy l r t (foldl (system_step C env rt cfg) sy (map (SessionTurn 0) events))"
  using assms
proof (induction events arbitrary: l sy)
  case (Cons e events)
  obtain q t1 where step: "tunnel_step C (lv_io l) rt (lv_client l) (lv_tunnel l) e = (q, t1)" by fastforce
  have offer: "takes_offer (lv_id (sy_live sy ! 0)) e (sy_offers sy) = Some (sy_offers sy)"
    using Cons.prems(4) by (intro takes_no_offer) auto
  have l: "l = sy_live sy ! 0" using Cons.prems(2) by simp
  note turn = session_turn_eq [OF offer l, unfolded Cons.prems(3), OF step]
  let ?sy1 = "session_turn C rt 0 e sy"
  show ?case
  proof (cases "q = Inr True")
    case True
    define l1 where "l1 = l\<lparr>lv_tunnel := t1\<rparr>"
    have sy1: "?sy1 = (store_shared t1 sy)\<lparr>sy_live := [l1]\<rparr>" using turn True Cons.prems(2) by (simp add: l1_def)
    have "session_over ?sy1 l1 r t (foldl (system_step C env rt cfg) ?sy1 (map (SessionTurn 0) events))"
      by (rule Cons.IH) (use Cons.prems step True in \<open>simp_all add: sy1 l1_def load_shared_def system_updates\<close>)
    then show ?thesis using Cons.prems(2) by (simp add: session_over_def sy1 l1_def system_updates)
  next
    case False
    have rt': "r = map_sum id (\<lambda>_. ()) q" "t = t1"
      using Cons.prems(1) step False by (auto split: sum.split_asm if_split_asm)
    have "sy_live ?sy1 = []" using turn False Cons.prems(2) by (simp add: system_updates remove_nth_def)
    then have "foldl (system_step C env rt cfg) sy (map (SessionTurn 0) (e # events)) = ?sy1"
      using Cons.prems(2) by (simp add: no_session_turns)
    then show ?thesis using turn False Cons.prems(2) by (simp add: session_over_def rt' system_updates remove_nth_def)
  qed
qed simp

text \<open>The state after a task has returned.\<close>

definition task_over :: "system \<Rightarrow> carrier \<Rightarrow> server \<Rightarrow> bool" where
  "task_over sy c sv \<longleftrightarrow> sy_live sy = [] \<and> sy_handshakes sy = [] \<and> sy_server sy = sv \<and> (\<exists>closed. sy_closed sy = closed @ [c])"

lemma serial_established:
  assumes "serve_established C io rt client est events carrier (sy_server sy) = Some (c, sv)" and "sy_live sy = []"
    and "sy_handshakes sy = []" and "\<forall>c. MigrationOffered c \<notin> set events"
  shows "task_over (foldl (system_step C env rt cfg) (session_start C io client est carrier sy) (map (SessionTurn 0) events))
    c (sv\<lparr>sv_permits := sv_permits sv + 1\<rparr>)"
proof -
  let ?sid = "est_session_id est" and ?c = "mark_application_ready carrier" and ?m = "count_session (carrier_kind carrier) (sv_metrics (sy_server sy))"
  obtain q ad where reg: "register_migration (sv_admission (sy_server sy)) ?sid (est_migration_secret est) = (q, ad)" by fastforce
  obtain leased n where net: "network_register (sv_network (sy_server sy)) (cl_tunnel_ipv4 client) = (leased, n)" by fastforce
  show ?thesis
  proof (cases "\<exists>lease. q = Inr () \<and> leased = Inr lease")
    case True
    then obtain lease where ok: "q = Inr ()" "leased = Inr lease" by blast
    define cx where "cx = \<lparr>cx_carrier = ?c, cx_network = n, cx_session = est, cx_metrics = ?m, cx_sent = [], cx_opened = [],
      cx_kernel = [], cx_tick = 0\<rparr>"
    define t0 where "t0 = \<lparr>tn_cx = ticked cx, tn_draining = None, tn_update_check = next_update_check (est_crypto est) (cx_now io cx),
      tn_lease = lease, tn_closed = []\<rparr>"
    define l where "l = \<lparr>lv_client = client, lv_id = ?sid, lv_io = io, lv_tunnel = t0\<rparr>"
    define sy1 where "sy1 = sy\<lparr>sy_server := (sy_server sy)\<lparr>sv_admission := ad, sv_network := n, sv_metrics := ?m\<rparr>, sy_live := [l]\<rparr>"
    have start: "session_start C io client est carrier sy = sy1"
      using assms(2) by (simp add: session_start_def reg net ok system_updates sy1_def l_def t0_def cx_def Let_def)
    obtain r t where run: "tunnel_run C io rt client t0 events = (Some r, t)" and
      res: "c = carrier_close (cx_carrier (tn_cx t))" "sv = (sy_server sy)\<lparr>sv_admission := migration_registration_drop ad ?sid,
        sv_network := lease_drop (cx_network (tn_cx t)) lease, sv_metrics := session_inactive (count_disconnect r (cx_metrics (tn_cx t)))\<rparr>"
      using assms(1) by (auto simp: serve_established_def reg net ok run_established_session_def t0_def cx_def cx_now_def Let_def
          split: prod.split_asm option.split_asm)
    have "session_over sy1 l r t (foldl (system_step C env rt cfg) sy1 (map (SessionTurn 0) events))"
      by (rule serial_turns) (use run assms(4) in \<open>simp_all add: l_def sy1_def t0_def cx_def load_shared_def ticked_def\<close>)
    moreover have "tn_lease t = lease"
      using tunnel_run_rel [of C client t0 io rt events] run by (simp add: tunnel_rel_def t0_def)
    ultimately show ?thesis using assms(3) unfolding start by (simp add: task_over_def session_over_def res sy1_def l_def)
  next
    case False
    then have "task_over (session_start C io client est carrier sy) c (sv\<lparr>sv_permits := sv_permits sv + 1\<rparr>)"
      using assms False by (cases q; cases leased)
        (auto simp: task_over_def session_start_def serve_established_def run_established_session_def reg net system_updates Let_def)
    then show ?thesis by (simp add: task_over_def no_session_turns)
  qed
qed

lemma serial_session:
  assumes "serve_session C io rt client hi timed_out micros events carrier (sy_server sy) = Some (c, sv)"
    and "sy_admitted sy = [(client, carrier)]" and "sy_handshakes sy = []" and "sy_live sy = []"
    and "\<forall>c. MigrationOffered c \<notin> set events"
  shows "task_over (foldl (system_step C env rt cfg) sy
    (ServeStarts 0 # HandshakeEnds 0 hi timed_out micros io # map (SessionTurn 0) events)) c sv"
proof -
  let ?sv = "sy_server sy" and ?m = "sv_metrics (sy_server sy)"
  let ?sy0 = "sy\<lparr>sy_admitted := []\<rparr>"
  have first: "system_step C env rt cfg sy (ServeStarts 0) = serve_start client carrier ?sy0"
    using assms(2) by (simp add: remove_nth_def)
  show ?thesis
  proof (cases "sv_permits ?sv = 0 \<or> ad_draining (sv_admission ?sv)")
    case True
    then have "task_over (serve_start client carrier ?sy0) c sv"
      using assms(1,3,4) by (auto simp: serve_session_def serve_start_def task_over_def Let_def)
    then show ?thesis unfolding foldl_Cons first by (simp add: task_over_def no_session_turns)
  next
    case False
    define sv1 where "sv1 = ?sv\<lparr>sv_permits := sv_permits ?sv - 1,
      sv_metrics := ?m\<lparr>sm_handshake_attempts_total := sm_handshake_attempts_total ?m + 1\<rparr>\<rparr>"
    have start: "serve_start client carrier ?sy0 = ?sy0\<lparr>sy_server := sv1, sy_handshakes := [(client, carrier)]\<rparr>"
      using False assms(3) by (simp add: serve_start_def sv1_def Let_def)
    define sy1 where "sy1 = ?sy0\<lparr>sy_server := sv1, sy_handshakes := []\<rparr>"
    have second: "system_step C env rt cfg (serve_start client carrier ?sy0) (HandshakeEnds 0 hi timed_out micros io) =
        handshake_end C rt client hi timed_out micros io carrier sy1"
      by (simp add: start sy1_def remove_nth_def)
    obtain outcome c1 where h: "timed_handshake C rt client hi timed_out carrier = (outcome, c1)" by fastforce
    define sy2 where "sy2 = set_metrics (\<lambda>m. m\<lparr>sm_handshake_duration_micros_total :=
      sm_handshake_duration_micros_total m + of_nat (min micros u64_max)\<rparr>) sy1"
    show ?thesis
    proof (cases "\<exists>est. outcome = Some (Inr est)")
      case True
      then obtain est where est: "outcome = Some (Inr est)" by blast
      have "sy_server sy2 = ?sv\<lparr>sv_metrics := ?m\<lparr>sm_handshake_attempts_total := sm_handshake_attempts_total ?m + 1,
          sm_handshake_duration_micros_total := sm_handshake_duration_micros_total ?m + of_nat (min micros u64_max)\<rparr>,
          sv_permits := sv_permits ?sv - 1\<rparr>"
        by (simp add: sy2_def sy1_def sv1_def set_metrics_def)
      then obtain sv' where e: "serve_established C io rt client est events c1 (sy_server sy2) = Some (c, sv')" "sv = sv'\<lparr>sv_permits := sv_permits sv' + 1\<rparr>"
        using assms(1) False by (auto simp: serve_session_def h est Let_def)
      have "sy_live sy2 = []" "sy_handshakes sy2 = []" using assms(4) by (simp_all add: sy2_def sy1_def set_metrics_def)
      then have "task_over (foldl (system_step C env rt cfg) (session_start C io client est c1 sy2) (map (SessionTurn 0) events)) c sv"
        using serial_established [OF e(1) _ _ assms(5)] e(2) by simp
      moreover have "handshake_end C rt client hi timed_out micros io carrier sy1 = session_start C io client est c1 sy2"
        by (simp add: handshake_end_def h est sy2_def Let_def)
      ultimately show ?thesis unfolding foldl_Cons first second by simp
    next
      case other: False
      then have "task_over (handshake_end C rt client hi timed_out micros io carrier sy1) c sv"
        using assms(1,4) False
        by (cases outcome) (auto simp: task_over_def serve_session_def handshake_end_def h sy1_def sv1_def system_updates Let_def split: sum.split_asm)
      then show ?thesis unfolding foldl_Cons first second by (simp add: task_over_def no_session_turns)
    qed
  qed
qed

end
