(* ===== verification/Reka_Process.thy ===== *)
theory Reka_Process
  imports Reka_Server
begin

text \<open>
  The server process (\<open>main.rs\<close>): its arguments, the order of its start (\<open>main\<close>, \<open>Network::create\<close>,
  \<open>build_h3_endpoint\<close>, \<open>drop_runtime_capabilities\<close>), readiness, and the shutdown with its bounded wait. The outcome
  of each system call is an argument; what the start has done so far is a log.
\<close>

section \<open>Model\<close>

datatype command = ShowVersion | RunServer string bool

definition default_config_path :: string where "default_config_path = ''/etc/rekaserdoba/server.json''"

definition parse_arguments :: "string list \<Rightarrow> command result" where
  "parse_arguments arguments =
     (case arguments of
        [] \<Rightarrow> Inr (RunServer default_config_path False)
      | [argument] \<Rightarrow>
          if argument = ''--version'' then Inr ShowVersion
          else if argument = ''--check-config'' then Inr (RunServer default_config_path True)
          else Inr (RunServer argument False)
      | [argument, path] \<Rightarrow>
          if argument = ''--check-config'' then Inr (RunServer path True)
          else Inl (Bail ''usage: rekaserdoba-server [--version|--check-config [path]|path]'')
      | _ \<Rightarrow> Inl (Bail ''usage: rekaserdoba-server [--version|--check-config [path]|path]''))"

datatype capability_set = Ambient | Effective | Inheritable | Permitted

datatype startup_effect =
    VersionPrinted
  | ConfigurationValid
  | SocketRemoved string
  | SocketBound string
  | TunCreated
  | H3Bound
  | CapabilityCleared capability_set
  | ReaderSpawned
  | H3Spawned
  | ListenerBound
  | SocketMode string nat
  | RelayStarted

datatype remove_outcome = Removed | NotThere | RemoveFailed

record startup_env =
  se_read :: "string \<Rightarrow> bytes result"
  se_parse :: "bytes \<Rightarrow> server_config result"
  se_remove :: "string \<Rightarrow> remove_outcome"
  se_bind_socket :: "string \<Rightarrow> unit result"
  se_connected :: "unit result"
  se_tun :: "unit result"
  se_quic_crypto :: "tls_config \<Rightarrow> unit result"
  se_endpoint :: "string \<Rightarrow> unit result"
  se_clear :: "capability_set \<Rightarrow> unit result"
  se_listen :: "string \<Rightarrow> unit result"

definition perform :: "startup_effect \<Rightarrow> 'a result \<Rightarrow> startup_effect list \<Rightarrow> 'a result \<times> startup_effect list" where
  "perform e r log = (case r of Inl err \<Rightarrow> (Inl err, log) | Inr x \<Rightarrow> (Inr x, log @ [e]))"

text \<open>A socket file that was left behind; it may be absent.\<close>

definition remove_stale :: "startup_env \<Rightarrow> string \<Rightarrow> string \<Rightarrow> startup_effect list \<Rightarrow> unit result \<times> startup_effect list" where
  "remove_stale se path message log =
     (case se_remove se path of
        Removed \<Rightarrow> (Inr (), log @ [SocketRemoved path])
      | NotThere \<Rightarrow> (Inr (), log)
      | RemoveFailed \<Rightarrow> (Inl (Bail message), log))"

text \<open>\<open>Network::create\<close>; \<open>se_connected\<close> is what \<open>connect_helper\<close> returns.\<close>

definition network_create :: "startup_env \<Rightarrow> tun_settings \<Rightarrow> startup_effect list \<Rightarrow> network result \<times> startup_effect list" where
  "network_create se settings log =
     attempt (validate_settings settings) log (\<lambda>_.
     attempt (ok_or (parse_ipv4 (ts_address settings)) (Bail ''invalid TUN IPv4 address'')) log (\<lambda>_.
     case ts_helper_socket settings of
       Some _ \<Rightarrow>
         attempt (ok_or (ts_helper_client_socket settings) (Bail ''helper_client_socket is required'')) log (\<lambda>client.
         then_in (remove_stale se client ''remove stale helper client socket'' log) (\<lambda>_ log1.
         then_in (perform (SocketBound client) (se_bind_socket se client) log1) (\<lambda>_ log2.
         case se_connected se of
           Inl e \<Rightarrow> (Inl e, log2 @ [SocketRemoved client])
         | Inr _ \<Rightarrow> (Inr (network_new (ts_session_queue settings) False), log2))))
     | None \<Rightarrow>
         then_in (perform TunCreated (se_tun se) log) (\<lambda>_ log1. (Inr (network_new (ts_session_queue settings) True), log1))))"

text \<open>\<open>h3_edge::Server\<close> without its socket, and \<open>Server::bind\<close>.\<close>

record h3_endpoint =
  he_authority :: string
  he_path :: string
  he_decoy_root :: string

definition server_bind ::
    "startup_env \<Rightarrow> config_env \<Rightarrow> h3_config \<Rightarrow> startup_effect list \<Rightarrow> h3_endpoint result \<times> startup_effect list" where
  "server_bind se env cfg log =
     attempt (load_tls_config env (hc_certificate_pem cfg) (hc_private_key_pem cfg)) log (\<lambda>tls.
     attempt (se_quic_crypto se tls) log (\<lambda>_.
     then_in (perform H3Bound (se_endpoint se (hc_listen cfg)) log) (\<lambda>_ log1.
     attempt (resolve_decoy_root env (hc_decoy_root cfg)) log1 (\<lambda>root.
     (Inr \<lparr>he_authority = hc_authority cfg, he_path = hc_path cfg, he_decoy_root = root\<rparr>, log1)))))"

definition build_h3_endpoint ::
    "startup_env \<Rightarrow> config_env \<Rightarrow> h3_config \<Rightarrow> startup_effect list \<Rightarrow> h3_endpoint result \<times> startup_effect list" where
  "build_h3_endpoint se env cfg log =
     (if \<not> ce_is_socket_addr env (hc_listen cfg) then (Inl (Bail ''invalid H3 listen address''), log)
      else if \<not> starts_with_slash (hc_path cfg) then (Inl (Bail ''H3 path must start with /''), log)
      else server_bind se env cfg log)"

definition open_h3 ::
    "startup_env \<Rightarrow> config_env \<Rightarrow> server_config \<Rightarrow> startup_effect list \<Rightarrow> h3_endpoint option result \<times> startup_effect list" where
  "open_h3 se env cfg log =
     (case sc_h3 cfg of
        None \<Rightarrow> (Inr None, log)
      | Some h3 \<Rightarrow> then_in (build_h3_endpoint se env h3 log) (\<lambda>endpoint log1. (Inr (Some endpoint), log1)))"

definition drop_runtime_capabilities :: "startup_env \<Rightarrow> startup_effect list \<Rightarrow> unit result \<times> startup_effect list" where
  "drop_runtime_capabilities se log =
     then_in (perform (CapabilityCleared Ambient) (se_clear se Ambient) log) (\<lambda>_ log1.
     then_in (perform (CapabilityCleared Effective) (se_clear se Effective) log1) (\<lambda>_ log2.
     then_in (perform (CapabilityCleared Inheritable) (se_clear se Inheritable) log2) (\<lambda>_ log3.
     perform (CapabilityCleared Permitted) (se_clear se Permitted) log3)))"

text \<open>The part of \<open>main\<close> that gives up its privileges and starts its tasks.\<close>

definition start_serving ::
    "startup_env \<Rightarrow> server_config \<Rightarrow> runtime_config \<Rightarrow> network \<Rightarrow> h3_endpoint option \<Rightarrow> startup_effect list \<Rightarrow>
     (runtime_config \<times> system \<times> h3_endpoint option) option result \<times> startup_effect list" where
  "start_serving se cfg rt n endpoint log =
     then_in (drop_runtime_capabilities se log) (\<lambda>_ log1.
     let sy = system_new (nw_session_queue n) (nw_ready n) (endpoint = None);
         log2 = log1 @ [ReaderSpawned] @ (if endpoint = None then [] else [H3Spawned])
     in then_in (perform ListenerBound (se_listen se (sc_listen cfg)) log2) (\<lambda>_ log3. (Inr (Some (rt, sy, endpoint)), log3)))"

text \<open>\<open>main\<close> up to the point where it serves: the runtime, the state and the HTTP/3 endpoint it starts from, or
  nothing when it only prints.\<close>

definition main_start ::
    "crypto \<Rightarrow> config_env \<Rightarrow> startup_env \<Rightarrow> string list \<Rightarrow>
     (runtime_config \<times> system \<times> h3_endpoint option) option result \<times> startup_effect list" where
  "main_start C env se arguments =
     attempt (parse_arguments arguments) [] (\<lambda>command.
     case command of
       ShowVersion \<Rightarrow> (Inr None, [VersionPrinted])
     | RunServer path check_only \<Rightarrow>
         attempt (se_read se path) [] (\<lambda>raw.
         attempt (se_parse se raw) [] (\<lambda>cfg.
         attempt (validate_config C env cfg) [] (\<lambda>rt.
         if check_only then (Inr None, [ConfigurationValid])
         else if \<not> ce_is_socket_addr env (sc_listen cfg) then (Inl (Bail ''invalid listen address''), [])
         else
         then_in (network_create se (sc_tun cfg) []) (\<lambda>n log.
         then_in (open_h3 se env cfg log) (\<lambda>endpoint log1.
         start_serving se cfg rt n endpoint log1))))))"

text \<open>Readiness, as a status and a body.\<close>

definition is_accepting :: "server \<Rightarrow> bool" where
  "is_accepting sv \<longleftrightarrow> is_operational (current_admission sv) \<and> sv_permits sv \<noteq> 0"

definition readiness :: "server \<Rightarrow> nat \<times> string" where
  "readiness sv = (if is_accepting sv then (200, ''ready'' @ [CHR 0x0A]) else (503, ''not ready'' @ [CHR 0x0A]))"

text \<open>The end of \<open>main\<close>. A reading is the counter of active sessions and the clock when the loop looks at them;
  \<open>served\<close> is what the HTTP server gave within the time to drain.\<close>

definition graceful_drain_timeout :: duration where "graceful_drain_timeout = 15 * 1000000000"
definition drain_poll :: duration where "drain_poll = 100 * 1000000"

fun drain_wait :: "nat \<Rightarrow> (nat \<Rightarrow> u64 \<times> instant) \<Rightarrow> instant \<Rightarrow> nat \<Rightarrow> nat option" where
  "drain_wait fuel readings deadline k =
     (if fst (readings k) \<noteq> 0 \<and> snd (readings k) < deadline
      then (case fuel of 0 \<Rightarrow> None | Suc n \<Rightarrow> drain_wait n readings deadline (Suc k))
      else Some k)"

declare drain_wait.simps [simp del]

definition main_shutdown ::
    "nat \<Rightarrow> instant \<Rightarrow> unit result option \<Rightarrow> (nat \<Rightarrow> u64 \<times> instant) \<Rightarrow> string option \<Rightarrow> unit result option" where
  "main_shutdown fuel now served readings critical_failure =
     (let deadline = now + int graceful_drain_timeout in
      case served of
        Some (Inl e) \<Rightarrow> Some (Inl e)
      | _ \<Rightarrow>
          map_option (\<lambda>_. case critical_failure of Some failure \<Rightarrow> Inl (Bail failure) | None \<Rightarrow> Inr ())
            (drain_wait fuel readings deadline 0))"

section \<open>The order of the start\<close>

fun serving :: "startup_effect \<Rightarrow> bool" where
  "serving ReaderSpawned = True"
| "serving H3Spawned = True"
| "serving ListenerBound = True"
| "serving RelayStarted = True"
| "serving _ = False"

definition quiet :: "startup_effect list \<Rightarrow> bool" where
  "quiet log \<longleftrightarrow> \<not> list_ex serving log"

lemma quiet_simps [simp]: "quiet []" "quiet (log @ [e]) \<longleftrightarrow> quiet log \<and> \<not> serving e"
  by (auto simp: quiet_def)

lemma quiet_perform: "quiet log \<Longrightarrow> \<not> serving e \<Longrightarrow> quiet (snd (perform e r log))"
  by (simp add: perform_def split: sum.split)

lemma quiet_then_in: "quiet (snd p) \<Longrightarrow> (\<And>x log. quiet log \<Longrightarrow> quiet (snd (f x log))) \<Longrightarrow> quiet (snd (then_in p f))"
  by (auto simp: then_in_def split: prod.split sum.split)

lemma quiet_attempt: "quiet log \<Longrightarrow> (\<And>x. r = Inr x \<Longrightarrow> quiet (snd (f x))) \<Longrightarrow> quiet (snd (attempt r log f))"
  by (cases r) auto

lemma quiet_remove: "quiet log \<Longrightarrow> quiet (snd (remove_stale se path message log))"
  by (simp add: remove_stale_def split: remove_outcome.split)

lemma quiet_network_create: "quiet log \<Longrightarrow> quiet (snd (network_create se settings log))"
  unfolding network_create_def
  by (auto intro!: quiet_attempt quiet_then_in quiet_perform quiet_remove split: option.split sum.split)

lemma quiet_open_h3: "quiet log \<Longrightarrow> quiet (snd (open_h3 se env cfg log))"
  unfolding open_h3_def build_h3_endpoint_def server_bind_def
  by (auto intro!: quiet_attempt quiet_then_in quiet_perform split: option.split)

lemma quiet_drop: "quiet log \<Longrightarrow> quiet (snd (drop_runtime_capabilities se log))"
  unfolding drop_runtime_capabilities_def by (auto intro!: quiet_then_in quiet_perform)

lemma drop_runtime_capabilities_Inr:
  "drop_runtime_capabilities se log = (Inr u, log') \<Longrightarrow> log' = log @ map CapabilityCleared [Ambient, Effective, Inheritable, Permitted]"
  by (auto simp: drop_runtime_capabilities_def then_in_Inr_iff perform_def split: sum.split_asm)

lemma serving_after_quiet:
  assumes "quiet pre" and "pre @ rest = before @ e # after" and "serving e"
  shows "set pre \<subseteq> set before"
proof -
  consider us where "pre @ us = before" | us where "pre = before @ us" "us @ rest = e # after"
    using assms(2) by (auto simp: append_eq_append_conv2)
  then show ?thesis
  proof cases
    case 2
    then have "us = []" using assms(1,3) by (cases us) (auto simp: quiet_def)
    then show ?thesis using 2 by simp
  qed auto
qed

text \<open>A log that serves only after every capability is dropped.\<close>

definition privileges_first :: "startup_effect list \<Rightarrow> bool" where
  "privileges_first log \<longleftrightarrow>
     quiet log \<or> (\<exists>pre rest. quiet pre \<and> log = pre @ rest \<and> set (map CapabilityCleared [Ambient, Effective, Inheritable, Permitted]) \<subseteq> set pre)"

lemma then_in_log: "P (snd p) \<Longrightarrow> (\<And>x s. p = (Inr x, s) \<Longrightarrow> P (snd (f x s))) \<Longrightarrow> P (snd (then_in p f))"
  by (cases p; cases "fst p") (auto simp: then_in_def)

lemma attempt_log: "P s \<Longrightarrow> (\<And>x. r = Inr x \<Longrightarrow> P (snd (f x))) \<Longrightarrow> P (snd (attempt r s f))"
  by (cases r) auto

lemma quiet_first: "quiet log \<Longrightarrow> privileges_first log"
  by (simp add: privileges_first_def)

lemma dropped_first:
  assumes "quiet log" and "drop_runtime_capabilities se log = (Inr u, log1)"
  shows "privileges_first (log1 @ rest)"
proof -
  have "quiet log1" using quiet_drop [OF assms(1), of se] assms(2) by simp
  moreover have "set (map CapabilityCleared [Ambient, Effective, Inheritable, Permitted]) \<subseteq> set log1"
    using drop_runtime_capabilities_Inr [OF assms(2)] by auto
  ultimately show ?thesis unfolding privileges_first_def by blast
qed

lemma privileges_first_before:
  assumes "privileges_first log" and "log = before @ e # after" and "serving e"
  shows "CapabilityCleared c \<in> set before"
proof -
  have "\<not> quiet log" using assms(2,3) by (auto simp: quiet_def)
  then obtain pre rest where pre: "quiet pre" "log = pre @ rest" "set (map CapabilityCleared [Ambient, Effective, Inheritable, Permitted]) \<subseteq> set pre"
    using assms(1) unfolding privileges_first_def by blast
  have "set pre \<subseteq> set before" using serving_after_quiet [OF pre(1)] pre(2) assms(2,3) by metis
  then show ?thesis using pre(3) by (cases c) auto
qed

lemma start_serving_first:
  assumes "quiet log"
  shows "privileges_first (snd (start_serving se cfg rt n endpoint log))"
  unfolding start_serving_def
proof (rule then_in_log [of privileges_first])
  show "privileges_first (snd (drop_runtime_capabilities se log))" by (rule quiet_first [OF quiet_drop [OF assms]])
next
  fix u log1
  assume d: "drop_runtime_capabilities se log = (Inr u, log1)"
  have "privileges_first (log1 @ rest)" for rest by (rule dropped_first [OF assms d])
  then show "privileges_first (snd (let sy = system_new (nw_session_queue n) (nw_ready n) (endpoint = None);
      log2 = log1 @ [ReaderSpawned] @ (if endpoint = None then [] else [H3Spawned])
     in then_in (perform ListenerBound (se_listen se (sc_listen cfg)) log2) (\<lambda>_ log3. (Inr (Some (rt, sy, endpoint)), log3))))"
    by (auto simp: Let_def perform_def then_in_def split: sum.split)
qed

lemma main_start_first: "privileges_first (snd (main_start C env se arguments))"
proof -
  have "quiet [VersionPrinted]" "quiet [ConfigurationValid]" by (simp_all add: quiet_def)
  note q = this [THEN quiet_first]
  have tail: "privileges_first (snd (then_in (network_create se (sc_tun cfg) []) (\<lambda>n log.
         then_in (open_h3 se env cfg log) (\<lambda>endpoint log1. start_serving se cfg rt n endpoint log1))))" for cfg rt
  proof (rule then_in_log [of privileges_first])
    have created: "quiet (snd (network_create se (sc_tun cfg) []))" by (simp add: quiet_network_create)
    then show "privileges_first (snd (network_create se (sc_tun cfg) []))" by (rule quiet_first)
    fix n log
    assume "network_create se (sc_tun cfg) [] = (Inr n, log)"
    then have log: "quiet log" using created by simp
    have h3: "quiet (snd (open_h3 se env cfg log))" using log by (rule quiet_open_h3)
    show "privileges_first (snd (then_in (open_h3 se env cfg log) (\<lambda>endpoint log1. start_serving se cfg rt n endpoint log1)))"
      by (rule then_in_log [of privileges_first]) (use h3 in \<open>auto intro: quiet_first start_serving_first\<close>)
  qed
  show ?thesis unfolding main_start_def
    by (rule attempt_log [of privileges_first], simp add: quiet_first)
      (auto intro!: attempt_log [of privileges_first] tail simp: q quiet_first split: command.split)
qed

text \<open>What a successful start has built.\<close>

lemma network_create_Inr:
  assumes "network_create se settings log = (Inr n, log')"
  shows "n = network_new (ts_session_queue settings) (ts_helper_socket settings = None)"
  using assms by (cases "se_connected se") (auto simp: network_create_def attempt_Inr_iff then_in_Inr_iff split: option.split_asm)

lemma open_h3_Inr:
  assumes "open_h3 se env cfg log = (Inr endpoint, log')"
  shows "case sc_h3 cfg of None \<Rightarrow> endpoint = None
    | Some h3 \<Rightarrow> \<exists>root. ce_canonicalize env (hc_decoy_root h3) = Some root \<and>
        endpoint = Some \<lparr>he_authority = hc_authority h3, he_path = hc_path h3, he_decoy_root = root\<rparr>"
  using assms
  by (auto simp: open_h3_def build_h3_endpoint_def server_bind_def resolve_decoy_root_def ok_or_def attempt_Inr_iff then_in_Inr_iff
      split: option.split_asm if_split_asm option.split)

lemma main_start_serves:
  assumes "main_start C env se arguments = (Inr (Some (rt, sy, endpoint)), log)"
  shows "\<exists>path raw cfg. parse_arguments arguments = Inr (RunServer path False) \<and> se_read se path = Inr raw \<and> se_parse se raw = Inr cfg \<and>
    validate_config C env cfg = Inr rt \<and>
    sy = system_new (ts_session_queue (sc_tun cfg)) (ts_helper_socket (sc_tun cfg) = None) (sc_h3 cfg = None) \<and>
    (case sc_h3 cfg of None \<Rightarrow> endpoint = None
     | Some h3 \<Rightarrow> \<exists>root. ce_canonicalize env (hc_decoy_root h3) = Some root \<and>
         endpoint = Some \<lparr>he_authority = hc_authority h3, he_path = hc_path h3, he_decoy_root = root\<rparr>)"
proof -
  obtain path check_only where command: "parse_arguments arguments = Inr (RunServer path check_only)"
  proof (cases "parse_arguments arguments")
    case (Inr command)
    then show ?thesis using that assms by (cases command) (auto simp: main_start_def)
  qed (use assms in \<open>simp add: main_start_def\<close>)
  obtain raw cfg rt' where c: "parse_arguments arguments = Inr (RunServer path check_only)" "se_read se path = Inr raw"
    "se_parse se raw = Inr cfg" "validate_config C env cfg = Inr rt'" "\<not> check_only"
    and t: "then_in (network_create se (sc_tun cfg) []) (\<lambda>n log. then_in (open_h3 se env cfg log) (\<lambda>endpoint log1.
         start_serving se cfg rt' n endpoint log1)) = (Inr (Some (rt, sy, endpoint)), log)"
    using command assms unfolding main_start_def by (auto simp: attempt_Inr_iff split: if_split_asm)
  obtain n log1 endpoint' log2 where s: "network_create se (sc_tun cfg) [] = (Inr n, log1)" "open_h3 se env cfg log1 = (Inr endpoint', log2)"
    "start_serving se cfg rt' n endpoint' log2 = (Inr (Some (rt, sy, endpoint)), log)"
    using t by (auto simp: then_in_Inr_iff)
  have "rt = rt' \<and> endpoint = endpoint' \<and> sy = system_new (nw_session_queue n) (nw_ready n) (endpoint' = None)"
    using s(3) by (auto simp: start_serving_def then_in_Inr_iff Let_def)
  then show ?thesis using c network_create_Inr [OF s(1)] open_h3_Inr [OF s(2)]
    by (auto simp: network_new_def split: option.split_asm)
qed

section \<open>The wait for the sessions\<close>

lemma readings_advance:
  assumes "\<And>k. snd (readings k) + int drain_poll \<le> snd (readings (Suc k))"
  shows "snd (readings 0) + int (k * drain_poll) \<le> snd (readings k)"
proof (induction k)
  case (Suc k)
  then show ?case using assms [of k] by simp
qed simp

lemma drain_wait_ends:
  assumes "deadline \<le> snd (readings (k + fuel))"
  shows "\<exists>j. drain_wait fuel readings deadline k = Some j \<and> j \<le> k + fuel \<and> (fst (readings j) = 0 \<or> deadline \<le> snd (readings j))"
  using assms
proof (induction fuel arbitrary: k)
  case 0
  then show ?case by (simp add: drain_wait.simps)
next
  case (Suc fuel)
  show ?case
  proof (cases "fst (readings k) \<noteq> 0 \<and> snd (readings k) < deadline")
    case True
    then show ?thesis using Suc.IH [of "Suc k"] Suc.prems by (simp add: drain_wait.simps [of "Suc fuel"])
  qed (auto simp: drain_wait.simps)
qed

section \<open>Properties\<close>

text \<open>C26. The server never works with the privileges it was started with: whatever fails during the start, by the time
  the packet reader, the HTTP/3 endpoint or the HTTP listener is started, all four capability sets have been
  cleared; and a configuration check touches nothing.\<close>

theorem privileges_dropped_before_serving:
  assumes "main_start C env se arguments = (r, log)"
  shows "(log = before @ e # after \<and> serving e \<longrightarrow> (\<forall>c. CapabilityCleared c \<in> set before)) \<and>
    (parse_arguments arguments = Inr (RunServer path True) \<longrightarrow> log = [] \<or> log = [ConfigurationValid])"
proof (intro conjI impI)
  assume l: "log = before @ e # after \<and> serving e"
  have first: "privileges_first log" using main_start_first [of C env se arguments] assms by simp
  have "CapabilityCleared c \<in> set before" for c using privileges_first_before [OF first] l by blast
  then show "\<forall>c. CapabilityCleared c \<in> set before" by blast
next
  assume "parse_arguments arguments = Inr (RunServer path True)"
  then show "log = [] \<or> log = [ConfigurationValid]"
    using assms by (auto simp: main_start_def attempt_def split: sum.split_asm)
qed

definition sample_startup :: startup_env where
  "sample_startup = \<lparr>se_read = (\<lambda>_. Inr []), se_parse = (\<lambda>_. Inr sample_config), se_remove = (\<lambda>_. NotThere), se_bind_socket = (\<lambda>_. Inr ()),
     se_connected = Inr (), se_tun = Inr (), se_quic_crypto = (\<lambda>_. Inr ()), se_endpoint = (\<lambda>_. Inr ()), se_clear = (\<lambda>_. Inr ()), se_listen = (\<lambda>_. Inr ())\<rparr>"

lemma sample_start:
  "\<exists>rt sy. main_start clear_crypto sample_env sample_startup [] = (Inr (Some (rt, sy, None)), [TunCreated, CapabilityCleared Ambient, CapabilityCleared Effective,
     CapabilityCleared Inheritable, CapabilityCleared Permitted] @ ReaderSpawned # [ListenerBound])"
proof -
  obtain rt where "from_config clear_crypto sample_env sample_config = Inr rt" using sample_config_accepted by blast
  then have "validate_config clear_crypto sample_env sample_config = Inr rt"
    by (simp add: validate_config_def validate_settings_def sample_env_def sample_config_def sample_addresses)
  then show ?thesis
    by (simp add: main_start_def parse_arguments_def sample_startup_def network_create_def open_h3_def start_serving_def drop_runtime_capabilities_def
        perform_def then_in_def validate_settings_def sample_config_def sample_addresses sample_env_def Let_def)
qed

theorem privileges_dropped_before_serving_witness:
  "\<exists>r before after. main_start clear_crypto sample_env sample_startup [] = (r, before @ ReaderSpawned # after) \<and>
     (\<forall>c. CapabilityCleared c \<in> set before)"
proof -
  obtain r where s: "main_start clear_crypto sample_env sample_startup [] = (r, [TunCreated, CapabilityCleared Ambient,
      CapabilityCleared Effective, CapabilityCleared Inheritable, CapabilityCleared Permitted] @ ReaderSpawned # [ListenerBound])"
    using sample_start by blast
  show ?thesis using privileges_dropped_before_serving [OF s, of "[TunCreated, CapabilityCleared Ambient,
      CapabilityCleared Effective, CapabilityCleared Inheritable, CapabilityCleared Permitted]" ReaderSpawned "[ListenerBound]"] s
    by (metis serving.simps(1))
qed

text \<open>C27. The shutdown always comes to an end: with a clock that advances by the pause of the loop, the wait for the
  sessions stops within 150 rounds of 100 ms, because no session is left or because the fifteen seconds are
  over, and \<open>main\<close> returns, with the critical failure if there was one.\<close>

theorem shutdown_terminates:
  assumes "\<And>k. snd (readings k) + int drain_poll \<le> snd (readings (Suc k))" and "now \<le> snd (readings 0)"
  shows "(\<exists>k \<le> 150. drain_wait 150 readings (now + int graceful_drain_timeout) 0 = Some k \<and>
      (fst (readings k) = 0 \<or> now + int graceful_drain_timeout \<le> snd (readings k))) \<and>
    main_shutdown 150 now served readings critical_failure =
      Some (case served of Some (Inl e) \<Rightarrow> Inl e | _ \<Rightarrow> (case critical_failure of Some failure \<Rightarrow> Inl (Bail failure) | None \<Rightarrow> Inr ()))"
proof -
  have "now + int graceful_drain_timeout \<le> snd (readings (0 + 150))"
    using readings_advance [of readings 150] assms by (simp add: graceful_drain_timeout_def drain_poll_def)
  from drain_wait_ends [of _ readings 0 150, OF this] obtain k where k: "drain_wait 150 readings (now + int graceful_drain_timeout) 0 = Some k" "k \<le> 150"
    "fst (readings k) = 0 \<or> now + int graceful_drain_timeout \<le> snd (readings k)" by auto
  then show ?thesis by (auto simp: main_shutdown_def split: option.split sum.split)
qed

theorem shutdown_terminates_witness:
  "\<exists>k \<le> 150. drain_wait 150 (\<lambda>k. (if k < 3 then 2 else 0, int k * 100000000)) (0 + int graceful_drain_timeout) 0 = Some k"
  using shutdown_terminates [of "\<lambda>k. (if k < 3 then 2 else 0, int k * 100000000)" 0 None None] by (auto simp: drain_poll_def)

end
