(* ===== verification/Reka_Programs.thy ===== *)
theory Reka_Programs
  imports Reka_Process
begin

text \<open>
  The other two programs of the server package from their start: the network helper (\<open>bin/net_helper.rs\<close>), which owns
  the TUN device, and the bridge of the client (\<open>bin/h3_bridge.rs\<close>). Their loops are \<open>helper_run\<close> of Reka_Network
  and \<open>bridge_loop\<close> of Reka_Carrier; here are their arguments, the order of their effects, and what they achieve
  together with the server. The outcomes of system and library calls are arguments.
\<close>

unbundle bit_operations_syntax

section \<open>Model\<close>

text \<open>\<open>args.next()\<close> with its context, and \<open>from_str\<close> of the unsigned integers.\<close>

definition nth_argument :: "string list \<Rightarrow> nat \<Rightarrow> string \<Rightarrow> string result" where
  "nth_argument args k message = ok_or (if k < length args then Some (args ! k) else None) (Bail message)"

definition digit_value :: "char \<Rightarrow> nat option" where
  "digit_value c = (let n = of_char c :: nat in if 48 \<le> n \<and> n \<le> 57 then Some (n - 48) else None)"

fun parse_digits :: "nat \<Rightarrow> nat \<Rightarrow> string \<Rightarrow> nat result" where
  "parse_digits limit acc [] = Inr acc"
| "parse_digits limit acc (c # cs) =
     (case digit_value c of
        None \<Rightarrow> Inl (Bail ''invalid digit found in string'')
      | Some d \<Rightarrow>
          if acc * 10 + d > limit then Inl (Bail ''number too large to fit in target type'')
          else parse_digits limit (acc * 10 + d) cs)"

definition parse_unsigned :: "nat \<Rightarrow> string \<Rightarrow> nat result" where
  "parse_unsigned limit text =
     (if text = [] then Inl (Bail ''cannot parse integer from empty string'')
      else if text = ''+'' then Inl (Bail ''invalid digit found in string'')
      else parse_digits limit 0 (if hd text = CHR ''+'' then tl text else text))"

subsection \<open>The network helper\<close>

record helper_settings =
  hp_name :: string
  hp_address :: bytes
  hp_prefix :: nat
  hp_mtu :: nat
  hp_server_path :: string
  hp_client_path :: string

definition helper_arguments :: "string list \<Rightarrow> helper_settings result" where
  "helper_arguments args =
     and_then (nth_argument args 0 ''missing TUN name'') (\<lambda>name.
     and_then (nth_argument args 1 ''missing TUN address'') (\<lambda>address_text.
     and_then (ok_or (parse_ipv4 address_text) (Bail ''invalid IPv4 address syntax'')) (\<lambda>address.
     and_then (nth_argument args 2 ''missing TUN prefix'') (\<lambda>prefix_text.
     and_then (parse_unsigned 255 prefix_text) (\<lambda>prefix.
     and_then (nth_argument args 3 ''missing TUN MTU'') (\<lambda>mtu_text.
     and_then (parse_unsigned 65535 mtu_text) (\<lambda>mtu.
     and_then (nth_argument args 4 ''missing helper socket'') (\<lambda>server_path.
     and_then (nth_argument args 5 ''missing edge socket'') (\<lambda>client_path.
     if 6 < length args then Inl (Bail ''unexpected argument'')
     else if name = [] \<or> length name > 15 \<or> prefix > 32 \<or> \<not> (576 \<le> mtu \<and> mtu \<le> 9000)
     then Inl (Bail ''invalid network helper configuration'')
     else Inr \<lparr>hp_name = name, hp_address = address, hp_prefix = prefix, hp_mtu = mtu, hp_server_path = server_path,
       hp_client_path = client_path\<rparr>)))))))))"

text \<open>The state of the loop before its first event.\<close>

definition helper_new :: "helper_settings \<Rightarrow> net_helper" where
  "helper_new st = \<lparr>nh_network = from_be (hp_address st) AND prefix_mask (hp_prefix st), nh_prefix = hp_prefix st, nh_mtu = hp_mtu st,
     nh_edge_registered = False, nh_to_edge = [], nh_to_tun = []\<rparr>"

text \<open>\<open>drop_capabilities\<close> of the helper is the same code as in the server. \<open>set_mode\<close> is \<open>set_permissions\<close>; 432 is the
  mode 0o660.\<close>

definition drop_capabilities :: "startup_env \<Rightarrow> startup_effect list \<Rightarrow> unit result \<times> startup_effect list" where
  "drop_capabilities se log = drop_runtime_capabilities se log"

definition helper_start ::
    "startup_env \<Rightarrow> (string \<Rightarrow> nat \<Rightarrow> unit result) \<Rightarrow> string list \<Rightarrow> net_helper result \<times> startup_effect list" where
  "helper_start se set_mode args =
     attempt (helper_arguments args) [] (\<lambda>st.
     then_in (perform TunCreated (se_tun se) []) (\<lambda>_ log.
     then_in (remove_stale se (hp_server_path st) ''remove stale helper socket'' log) (\<lambda>_ log1.
     then_in (perform (SocketBound (hp_server_path st)) (se_bind_socket se (hp_server_path st)) log1) (\<lambda>_ log2.
     then_in (perform (SocketMode (hp_server_path st) 432) (set_mode (hp_server_path st) 432) log2) (\<lambda>_ log3.
     then_in (drop_capabilities se log3) (\<lambda>_ log4.
     (Inr (helper_new st), log4 @ [RelayStarted])))))))"

subsection \<open>The bridge\<close>

record client_bundle =
  bd_client_id_b64 :: string
  bd_gate_key_b64 :: string

text \<open>What the bridge uses: the bundle file as parsed, base64, the TLS connection by its exporter, the streams, the
  wall clock and the random bytes of the token.\<close>

record bridge_env =
  bv_bundle :: "string \<Rightarrow> client_bundle result"
  bv_is_socket_addr :: "string \<Rightarrow> bool"
  bv_decode :: "string \<Rightarrow> bytes option"
  bv_encode :: "bytes \<Rightarrow> string"
  bv_connect :: "string \<Rightarrow> string \<Rightarrow> (bytes \<Rightarrow> bytes option) result"
  bv_open :: "unit result"
  bv_clock :: "u64 result"
  bv_token_nonce :: bytes

definition bridge_decode_fixed :: "bridge_env \<Rightarrow> nat \<Rightarrow> string \<Rightarrow> bytes result" where
  "bridge_decode_fixed bv n encoded =
     (case bv_decode bv encoded of
        None \<Rightarrow> Inl (Bail ''base64'')
      | Some raw \<Rightarrow> if length raw = n then Inr raw else Inl (Bail ''invalid key length''))"

text \<open>\<open>main\<close> of the bridge up to its loop. \<open>input\<close> and \<open>down\<close> are what its standard input and its stream will deliver.\<close>

definition bridge_connect ::
    "crypto \<Rightarrow> bridge_env \<Rightarrow> string list \<Rightarrow> bytes result list \<Rightarrow> bytes result list \<Rightarrow> bridge result" where
  "bridge_connect C bv args input down =
     and_then (nth_argument args 0 ''missing bundle path'') (\<lambda>bundle_path.
     and_then (nth_argument args 1 ''missing WebTransport URL'') (\<lambda>url.
     and_then (nth_argument args 2 ''missing authority'') (\<lambda>authority.
     and_then (nth_argument args 3 ''missing path'') (\<lambda>path.
     and_then (nth_argument args 4 ''missing server address'') (\<lambda>server_address.
     if \<not> bv_is_socket_addr bv server_address then Inl (Bail ''invalid server address'')
     else if 5 < length args then Inl (Bail ''unexpected argument'')
     else
     and_then (bv_bundle bv bundle_path) (\<lambda>bd.
     and_then (bridge_decode_fixed bv 16 (bd_client_id_b64 bd)) (\<lambda>client_id.
     and_then (bridge_decode_fixed bv 32 (bd_gate_key_b64 bd)) (\<lambda>gate_key.
     and_then (bv_connect bv url server_address) (\<lambda>exporter_for.
     and_then (ok_or (exporter_for (hash_parts C [ascii authority, [0], ascii path])) (Bail ''TLS exporter unavailable'')) (\<lambda>exporter.
     and_then (gate_token C (bv_encode bv) (bv_clock bv) (bv_token_nonce bv) client_id gate_key exporter authority path) (\<lambda>token.
     and_then (bv_open bv) (\<lambda>_.
     case send_stream_message \<lparr>br_local_buffered = [], br_local_input = input, br_stream_buffered = [], br_stream_input = down,
         br_sent = [], br_pending = [], br_written = [], br_dirty = False\<rparr> (ascii token) of
       (Fail e, _) \<Rightarrow> Inl e
     | (_, s) \<Rightarrow> Inr s))))))))))))"

section \<open>Starts\<close>

lemma nth_argument_Inr [simp]: "nth_argument args k message = Inr x \<longleftrightarrow> k < length args \<and> args ! k = x"
  by (auto simp: nth_argument_def ok_or_def)

lemma helper_arguments_Inr:
  assumes "helper_arguments args = Inr st"
  shows "length args = 6 \<and> parse_ipv4 (args ! 1) = Some (hp_address st) \<and> hp_server_path st = args ! 4 \<and> hp_client_path st = args ! 5 \<and>
    hp_prefix st \<le> 32 \<and> 576 \<le> hp_mtu st \<and> hp_mtu st \<le> 9000"
  using assms unfolding helper_arguments_def by (auto simp: and_then_Inr_iff ok_or_Inr_iff split: if_split_asm)

lemma helper_start_first: "privileges_first (snd (helper_start se set_mode args))"
proof -
  have tail: "privileges_first (snd (then_in (drop_capabilities se log) (\<lambda>_ log1. (Inr h, log1 @ [RelayStarted]))))"
    if "quiet log" for log and h :: net_helper
    unfolding drop_capabilities_def
    by (rule then_in_log [of privileges_first]) (use that quiet_drop quiet_first dropped_first in \<open>auto\<close>)
  have bound: "privileges_first (snd (then_in (perform e r log) f))"
    if "quiet log" "\<not> serving e" "\<And>log1. quiet log1 \<Longrightarrow> privileges_first (snd (f () log1))"
    for e and r :: "unit result" and log and f :: "unit \<Rightarrow> startup_effect list \<Rightarrow> net_helper result \<times> startup_effect list"
    by (rule then_in_log [of privileges_first])
      (use quiet_perform [OF that(1,2), of r] that(3) in \<open>auto intro: quiet_first\<close>)
  have removed: "privileges_first (snd (then_in (remove_stale se path message log) f))"
    if "quiet log" "\<And>log1. quiet log1 \<Longrightarrow> privileges_first (snd (f () log1))"
    for path message log and f :: "unit \<Rightarrow> startup_effect list \<Rightarrow> net_helper result \<times> startup_effect list"
    by (rule then_in_log [of privileges_first])
      (use quiet_remove [OF that(1), of se path message] that(2) in \<open>auto intro: quiet_first\<close>)
  show ?thesis unfolding helper_start_def
    by (rule attempt_log [of privileges_first]) (auto intro!: bound removed tail simp: quiet_first)
qed

lemma helper_start_Inr:
  assumes "helper_start se set_mode args = (Inr h, log)"
  shows "\<exists>st pre. helper_arguments args = Inr st \<and> h = helper_new st \<and>
    log = pre @ [SocketBound (hp_server_path st), SocketMode (hp_server_path st) 432] @
      map CapabilityCleared [Ambient, Effective, Inheritable, Permitted] @ [RelayStarted]"
proof -
  obtain st log1 log2 log3 log4 where st: "helper_arguments args = Inr st" "h = helper_new st" "log = log4 @ [RelayStarted]"
    and l: "perform (SocketBound (hp_server_path st)) (se_bind_socket se (hp_server_path st)) log1 = (Inr (), log2)"
      "perform (SocketMode (hp_server_path st) 432) (set_mode (hp_server_path st) 432) log2 = (Inr (), log3)"
      "drop_runtime_capabilities se log3 = (Inr (), log4)"
    using assms by (auto simp: helper_start_def drop_capabilities_def attempt_Inr_iff then_in_Inr_iff)
  have "log2 = log1 @ [SocketBound (hp_server_path st)]" "log3 = log2 @ [SocketMode (hp_server_path st) 432]"
    using l(1,2) by (auto simp: perform_def split: sum.split_asm)
  then show ?thesis using st drop_runtime_capabilities_Inr [OF l(3)] by (intro exI [of _ st] exI [of _ log1]) simp
qed

text \<open>The addresses of configured clients lie in the subnet of the server, and a helper for that subnet lets their packets
  pass.\<close>

lemma client_in_subnet:
  assumes "from_config C env cfg = Inr rt" and "rt_clients rt cid = Some c"
  shows "\<exists>server. parse_ipv4 (ts_address (sc_tun cfg)) = Some server \<and> ts_prefix_len (sc_tun cfg) \<le> 32 \<and>
    (from_be (cl_tunnel_ipv4 c) :: u32) AND prefix_mask (ts_prefix_len (sc_tun cfg)) = from_be server AND prefix_mask (ts_prefix_len (sc_tun cfg))"
proof -
  obtain server ids addresses where s: "parse_ipv4 (ts_address (sc_tun cfg)) = Some server" "1 \<le> ts_prefix_len (sc_tun cfg)"
    "ts_prefix_len (sc_tun cfg) \<le> 30"
    "clients_ok env (subnet_of server (ts_prefix_len (sc_tun cfg))) (sc_clients cfg) (ids, addresses, rt_clients rt)"
    using from_config_clients [OF assms(1)] by blast
  have "usable_address (subnet_of server (ts_prefix_len (sc_tun cfg))) (cl_tunnel_ipv4 c)" using s(4) assms(2) by (auto simp: clients_ok_def)
  moreover have "push_bit (32 - ts_prefix_len (sc_tun cfg)) (- 1) = prefix_mask (ts_prefix_len (sc_tun cfg))"
    using s(2) by (simp add: prefix_mask_def)
  ultimately show ?thesis using s(1,3) by (simp add: usable_address_def subnet_of_def Let_def)
qed

lemma accepted_packet_valid:
  assumes "validate_ipv4_packet p source = Inr ()" and "from_be source AND prefix_mask len = from_be address AND prefix_mask len" and "1280 \<le> mtu"
  shows "valid_ipv4 p (from_be address AND prefix_mask len) len mtu" and "20 \<le> length p"
  using assms by (auto simp: validate_ipv4_packet_def valid_ipv4_def Let_def split: if_split_asm)

lemma helper_forwards:
  assumes "nh_edge_registered h" and "valid_ipv4 p (nh_network h) (nh_prefix h) (nh_mtu h)" and "20 \<le> length p"
  shows "helper_step h (FromEdge True p (Written (length p))) = (Inr (), h\<lparr>nh_to_tun := nh_to_tun h @ [p]\<rparr>)"
proof -
  have "p \<noteq> helper_registration" using assms(3) by (auto simp: helper_registration_def ascii_def)
  then show ?thesis using assms(1,2) by simp
qed

lemma valid_ipv4_source:
  assumes "valid_ipv4 p (address AND prefix_mask len) len mtu" and "len \<le> 32"
  shows "20 \<le> length p \<and> length p \<le> mtu \<and>
    (\<forall>i. 32 - len \<le> i \<and> i < 32 \<longrightarrow> bit (from_be (subrange 12 16 p) :: u32) i = bit address i)"
proof -
  have v: "20 \<le> length p" "length p \<le> mtu" "from_be (subrange 12 16 p) AND prefix_mask len = address AND prefix_mask len"
    using assms(1) by (auto simp: valid_ipv4_def Let_def split: if_split_asm)
  then show ?thesis using prefix_agree_iff [OF assms(2)] by blast
qed

section \<open>Properties\<close>

text \<open>C21. The privileged helper can only do its one job: whatever fails during its start, the relay begins only after
  all four capability sets are cleared; when it begins, its socket was bound and restricted to owner and group just
  before; and then, whatever arrives, every packet it puts on the TUN device is an IPv4 packet within the
  MTU (at most 9000) whose source agrees with the configured address in all bits of the prefix, and without a
  registration by the edge it does nothing at all.\<close>

theorem helper_process_gatekeeps:
  assumes "helper_start se set_mode args = (r, log)"
  shows "(log = before @ e # after \<and> serving e \<longrightarrow> (\<forall>c. CapabilityCleared c \<in> set before)) \<and>
    (r = Inr h \<longrightarrow> (\<exists>st pre. helper_arguments args = Inr st \<and> hp_mtu st \<le> 9000 \<and>
      log = pre @ [SocketBound (hp_server_path st), SocketMode (hp_server_path st) 432] @
        map CapabilityCleared [Ambient, Effective, Inheritable, Permitted] @ [RelayStarted] \<and>
      list_all (\<lambda>p. 20 \<le> length p \<and> length p \<le> hp_mtu st \<and> (\<forall>i. 32 - hp_prefix st \<le> i \<and> i < 32 \<longrightarrow>
        bit (from_be (subrange 12 16 p) :: u32) i = bit (from_be (hp_address st) :: u32) i)) (nh_to_tun (helper_run h es)) \<and>
      ((\<forall>outcome. FromEdge True helper_registration outcome \<notin> set es) \<longrightarrow> helper_run h es = h)))"
proof (intro conjI impI)
  assume "log = before @ e # after \<and> serving e"
  moreover have "privileges_first log" using helper_start_first [of se set_mode args] assms by simp
  ultimately show "\<forall>c. CapabilityCleared c \<in> set before" using privileges_first_before by blast
next
  assume "r = Inr h"
  then obtain st pre where st: "helper_arguments args = Inr st" "h = helper_new st"
    "log = pre @ [SocketBound (hp_server_path st), SocketMode (hp_server_path st) 432] @
      map CapabilityCleared [Ambient, Effective, Inheritable, Permitted] @ [RelayStarted]"
    using helper_start_Inr assms by blast
  note bounds = helper_arguments_Inr [OF st(1)]
  have new: "nh_to_tun h = []" "\<not> nh_edge_registered h" "nh_network h = from_be (hp_address st) AND prefix_mask (hp_prefix st)"
    "nh_prefix h = hp_prefix st" "nh_mtu h = hp_mtu st"
    by (simp_all add: st(2) helper_new_def)
  have "list_all (\<lambda>p. valid_ipv4 p (nh_network h) (nh_prefix h) (nh_mtu h)) (nh_to_tun (helper_run h es))"
    "(\<forall>outcome. FromEdge True helper_registration outcome \<notin> set es) \<longrightarrow> helper_run h es = h"
    using helper_run_effect [of h es] new(1,2) by simp_all
  then show "\<exists>st pre. helper_arguments args = Inr st \<and> hp_mtu st \<le> 9000 \<and>
      log = pre @ [SocketBound (hp_server_path st), SocketMode (hp_server_path st) 432] @
        map CapabilityCleared [Ambient, Effective, Inheritable, Permitted] @ [RelayStarted] \<and>
      list_all (\<lambda>p. 20 \<le> length p \<and> length p \<le> hp_mtu st \<and> (\<forall>i. 32 - hp_prefix st \<le> i \<and> i < 32 \<longrightarrow>
        bit (from_be (subrange 12 16 p) :: u32) i = bit (from_be (hp_address st) :: u32) i)) (nh_to_tun (helper_run h es)) \<and>
      ((\<forall>outcome. FromEdge True helper_registration outcome \<notin> set es) \<longrightarrow> helper_run h es = h)"
    using st(1,3) bounds valid_ipv4_source unfolding new(3-5) list_all_iff by blast
qed

lemma sample_helper_start:
  "\<exists>log. helper_start sample_startup (\<lambda>_ _. Inr ()) [''tun0'', ''10.77.0.1'', ''24'', ''1280'', ''/h'', ''/e''] =
     (Inr (helper_new \<lparr>hp_name = ''tun0'', hp_address = [10, 77, 0, 1], hp_prefix = 24, hp_mtu = 1280, hp_server_path = ''/h'',
        hp_client_path = ''/e''\<rparr>), log)"
  by (simp add: helper_start_def helper_arguments_def nth_argument_def parse_unsigned_def digit_value_def sample_addresses sample_startup_def
      perform_def then_in_def remove_stale_def drop_capabilities_def drop_runtime_capabilities_def)

theorem helper_process_gatekeeps_witness:
  "\<exists>h log pre. helper_start sample_startup (\<lambda>_ _. Inr ()) [''tun0'', ''10.77.0.1'', ''24'', ''1280'', ''/h'', ''/e''] = (Inr h, log) \<and>
     log = pre @ map CapabilityCleared [Ambient, Effective, Inheritable, Permitted] @ [RelayStarted] \<and>
     helper_run h [FromTun [1] (Written 1), FromEdge False [2] Unavailable] = h"
proof -
  define args where "args = [''tun0'', ''10.77.0.1'', ''24'', ''1280'', ''/h'', ''/e'']"
  define es where "es = [FromTun [1] (Written 1), FromEdge False [2] Unavailable]"
  obtain h log where s: "helper_start sample_startup (\<lambda>_ _. Inr ()) args = (Inr h, log)"
    using sample_helper_start unfolding args_def by blast
  have none: "\<forall>outcome. FromEdge True helper_registration outcome \<notin> set es" by (simp add: es_def)
  note run = helper_process_gatekeeps [OF s, where h = h and es = es, THEN conjunct2, THEN mp, OF refl]
  have "\<exists>pre. log = pre @ map CapabilityCleared [Ambient, Effective, Inheritable, Permitted] @ [RelayStarted]"
    using run by (elim exE conjE) (rule exI, simp only: append.assoc [symmetric])
  moreover have "helper_run h es = h" using run none by (elim exE conjE) (erule mp)
  ultimately show ?thesis unfolding args_def [symmetric] es_def [symmetric] using s by metis
qed

text \<open>The bridge after its start: the framed token is all it has sent.\<close>

lemma send_stream_result:
  "(case send_stream_message s m of (Fail e, _) \<Rightarrow> Inl e | (_, t) \<Rightarrow> Inr t) = Inr u \<longleftrightarrow> send_stream_message s m = (Continue, u)"
  by (auto simp: send_stream_message_def split: sum.split)

lemma bridge_connect_Inr:
  assumes "bridge_connect C bv [bundle_path, url, authority, path, address] input down = Inr s"
  shows "\<exists>bd client_id gate_key exporter_for exporter token. bv_bundle bv bundle_path = Inr bd \<and>
    bv_decode bv (bd_client_id_b64 bd) = Some client_id \<and> length client_id = 16 \<and> bv_decode bv (bd_gate_key_b64 bd) = Some gate_key \<and>
    bv_connect bv url address = Inr exporter_for \<and> exporter_for (h3_exporter_context C authority path) = Some exporter \<and>
    gate_token C (bv_encode bv) (bv_clock bv) (bv_token_nonce bv) client_id gate_key exporter authority path = Inr token \<and>
    send_stream_message \<lparr>br_local_buffered = [], br_local_input = input, br_stream_buffered = [], br_stream_input = down,
      br_sent = [], br_pending = [], br_written = [], br_dirty = False\<rparr> (ascii token) = (Continue, s)"
proof -
  have decoded: "bridge_decode_fixed bv n encoded = Inr raw \<longleftrightarrow> bv_decode bv encoded = Some raw \<and> length raw = n" for n encoded raw
    by (auto simp: bridge_decode_fixed_def split: option.split if_split_asm)
  show ?thesis using assms unfolding bridge_connect_def
    by (auto simp: and_then_Inr_iff decoded ok_or_Inr_iff h3_exporter_context_def send_stream_result split: if_split_asm)
qed

text \<open>The token fits into a message of the carrier.\<close>

lemma gate_token_message:
  assumes "hash_sized C" and "gate_token C encode (Inr unix_time) token_nonce client_id gate_key exporter authority path = Inr token"
    and "length client_id = 16" and "length token_nonce = 16" and "\<And>bs. bs \<noteq> [] \<Longrightarrow> encode bs \<noteq> [] \<and> length (encode bs) \<le> 2 * length bs"
  shows "message_ok max_carrier_message (ascii token) \<and> (\<exists>bs. token = encode bs)"
proof -
  obtain mac where mac: "hmac_bytes C gate_key (ascii ''RekaSerdoba/1 gate'' @ exporter @ ascii ''CONNECT'' @ [0] @ ascii authority @ [0] @
      ascii path @ [0] @ client_id @ be64 unix_time @ token_nonce) = Inr mac"
    "token = encode (client_id @ be64 unix_time @ token_nonce @ mac)"
    using assms(2) by (auto simp: gate_token_def and_then_Inr_iff)
  have "length mac = 32" using hmac_bytes_ok [OF assms(1)] mac(1) by (metis sum.inject(2))
  define bs where "bs = client_id @ be64 unix_time @ token_nonce @ mac"
  have n: "length bs = 72" using assms(3,4) \<open>length mac = 32\<close> by (simp add: bs_def codec_simps)
  then have "bs \<noteq> []" by auto
  then have "0 < length (encode bs) \<and> length (encode bs) \<le> 144" using assms(5) [of bs] n by simp
  then show ?thesis using mac(2) unfolding bs_def [symmetric] by (auto simp: message_ok_def max_carrier_message_def ascii_def)
qed

lemma list_all_message_ok: "list_all (message_ok max_carrier_message) ms \<Longrightarrow> list_all (message_ok 8192) ms"
  by (auto simp: list_all_iff message_ok_def max_carrier_message_def)

text \<open>The carrier of a new HTTP/3 session on which the reads have the given contents.\<close>

definition h3_arrived :: "bytes list \<Rightarrow> h3_carrier" where
  "h3_arrived reads = \<lparr>h3_session_input = map (\<lambda>c. ReliableRead (Inr c)) reads, h3_session_output = [], h3_session_open = True,
     h3_buffered = [], h3_application_ready = False\<rparr>"

lemma h3_first_message:
  assumes "message_ok max_carrier_message m" and "concat reads = message_bytes m @ rest" and "list_all (\<lambda>c. c \<noteq> [] \<and> length c \<le> 8192) reads"
  shows "\<exists>c b cs. recv_binary (H3 (h3_arrived reads)) = (Inr m, H3 c) \<and> h3_buffered c = b \<and>
    h3_session_input c = map (\<lambda>c. ReliableRead (Inr c)) cs \<and> b @ concat cs = rest \<and> list_all (\<lambda>c. c \<noteq> [] \<and> length c \<le> 8192) cs"
proof -
  obtain b cs where r: "recv_h3_message False [] (map (\<lambda>c. ReliableRead (Inr c)) reads) = (Inr (BinaryEvent m), b, map (\<lambda>c. ReliableRead (Inr c)) cs)"
    "b @ concat cs = rest" "list_all (\<lambda>c. c \<noteq> [] \<and> length c \<le> 8192) cs"
    using h3.recv_one [of m "[]" reads rest False] assms by auto
  have "recv_binary (H3 (h3_arrived reads)) =
      (Inr m, H3 ((h3_arrived reads)\<lparr>h3_buffered := b, h3_session_input := map (\<lambda>c. ReliableRead (Inr c)) cs\<rparr>))"
    using r(1) by (simp add: recv_binary_def h3_arrived_def)
  then show ?thesis using r(2,3) by fastforce
qed

lemma h3_later_messages:
  assumes "list_all (message_ok max_carrier_message) ms" and "b @ concat cs = concat (map message_bytes ms)"
    and "list_all (\<lambda>c. c \<noteq> [] \<and> length c \<le> 8192) cs"
  shows "recv_calls (recv_h3_message ready) (length ms + 1) b (map (\<lambda>c. ReliableRead (Inr c)) cs) =
    map (\<lambda>m. Inr (BinaryEvent m)) ms @ [Inr CloseEvent]"
proof -
  obtain b' cs' where q: "recv_calls (recv_h3_message ready) (length ms + 1) b (map (\<lambda>c. ReliableRead (Inr c)) cs) =
      map (\<lambda>m. Inr (BinaryEvent m)) ms @ recv_calls (recv_h3_message ready) 1 b' (map (\<lambda>c. ReliableRead (Inr c)) cs')"
      "b' @ concat cs' = []" "list_all (\<lambda>c. c \<noteq> [] \<and> length c \<le> 8192) cs'"
    using h3.recv_messages [OF assms(1) _ assms(3), of b "[]" ready 1] assms(2) by auto
  have "b' = []" "cs' = []" using q(2,3) by (cases cs'; simp)+
  then show ?thesis using q(1) h3.recv_closed [of ready] by simp
qed

text \<open>C22. The client's bridge brings its user into a handshake: started for the configured authority and path with the
  bundle of a configured client, the first message on its stream is a token that the server accepts for this
  client (the TLS exporter being the same at both ends, the clocks within the window and the nonce new); and
  after that the server receives exactly the messages that the bridge has read from its input, in order and
  unchanged, however the stream is cut.\<close>

theorem bridge_reaches_handshake:
  assumes "hash_sized C" and "\<And>bs. ce_base64 env (bv_encode bv bs) = Some bs" and "\<And>bs. utf8 (ascii (bv_encode bv bs)) = Some (bv_encode bv bs)"
    and "\<And>bs. bs \<noteq> [] \<Longrightarrow> bv_encode bv bs \<noteq> [] \<and> length (bv_encode bv bs) \<le> 2 * length bs"
    and "bridge_connect C bv [bundle_path, url, hc_authority cfg, hc_path cfg, address] (map Inr cs) down = Inr s"
    and "bv_bundle bv bundle_path = Inr bd" and "bv_decode bv (bd_client_id_b64 bd) = Some client_id"
    and "bv_decode bv (bd_gate_key_b64 bd) = Some (cl_gate_key client)" and "rt_clients rt client_id = Some client"
    and "bv_connect bv url address = Inr exporter_for" and "length (bv_token_nonce bv) = 16" and "bv_clock bv = Inr unix_time"
    and "ck_unix clock = Inr now" and "clock_within now unix_time gate_window_secs"
    and "is_operational ad" and "check_admission_rate ad peer (ck_rate clock) = (Inr (), ad1)"
    and "ad_gate_replay ad (client_id, bv_token_nonce bv) = None"
    and "list_all (message_ok max_carrier_message) ms" and "concat cs = concat (map message_bytes ms)"
    and "list_all (\<lambda>c. c \<noteq> [] \<and> length c \<le> 8192) cs" and "bridge_loop s es = (r, t)"
    and "concat reads = br_sent t" and "list_all (\<lambda>c. c \<noteq> [] \<and> length c \<le> 8192) reads"
  shows "\<exists>ad' c k. admit_h3 C env rt cfg exporter_for utf8 ad clock clock2 peer False (H3 (h3_arrived reads)) =
      (Inr (Some (HandshakeAdmission client)), ad', H3 c) \<and> k \<le> length ms \<and>
    recv_calls (recv_h3_message ready) (k + 1) (h3_buffered c) (h3_session_input c) =
      map (\<lambda>m. Inr (BinaryEvent m)) (take k ms) @ [Inr CloseEvent] \<and> (r = Continue \<longrightarrow> k = count_list es LocalReady)"
proof -
  obtain exporter token where e: "exporter_for (h3_exporter_context C (hc_authority cfg) (hc_path cfg)) = Some exporter"
    and t: "gate_token C (bv_encode bv) (Inr unix_time) (bv_token_nonce bv) client_id (cl_gate_key client) exporter (hc_authority cfg) (hc_path cfg) = Inr token"
    and sent: "send_stream_message \<lparr>br_local_buffered = [], br_local_input = map Inr cs, br_stream_buffered = [], br_stream_input = down,
      br_sent = [], br_pending = [], br_written = [], br_dirty = False\<rparr> (ascii token) = (Continue, s)" and id: "length client_id = 16"
    using bridge_connect_Inr [OF assms(5)] assms(6,7,8,10,12) by auto
  obtain bs where token: "message_ok max_carrier_message (ascii token)" "token = bv_encode bv bs"
    using gate_token_message [OF assms(1) t id assms(11,4)] by blast
  have s: "s = \<lparr>br_local_buffered = [], br_local_input = map Inr cs, br_stream_buffered = [], br_stream_input = down,
      br_sent = message_bytes (ascii token), br_pending = [], br_written = [], br_dirty = False\<rparr>"
    using sent frame_message_ok [OF token(1)] by (simp add: send_stream_message_def max_carrier_message_def)
  have ok: "list_all (message_ok 8192) (ascii token # ms)"
    using list_all_message_ok [OF assms(18)] token(1) by (simp add: message_ok_def max_carrier_message_def)
  have "bridge_upstream (ascii token # ms) 1 s" using assms(19,20) by (auto simp: bridge_upstream_def s)
  from bridge_loop_upstream [OF ok this assms(21)] obtain j where
    j: "1 \<le> j" "bridge_upstream (ascii token # ms) j t" "r = Continue \<longrightarrow> j = 1 + count_list es LocalReady" by auto
  obtain k where k: "j = Suc k" using j(1) by (cases j) auto
  have k': "k \<le> length ms" "concat reads = message_bytes (ascii token) @ concat (map message_bytes (take k ms))"
    using j(2) assms(22) by (auto simp: bridge_upstream_def k)
  obtain c b cs' where c: "recv_binary (H3 (h3_arrived reads)) = (Inr (ascii token), H3 c)" "h3_buffered c = b"
    "h3_session_input c = map (\<lambda>c. ReliableRead (Inr c)) cs'" "b @ concat cs' = concat (map message_bytes (take k ms))"
    "list_all (\<lambda>c. c \<noteq> [] \<and> length c \<le> 8192) cs'"
    using h3_first_message [OF token(1) k'(2) assms(23)] by blast
  have "list_all (message_ok max_carrier_message) (take k ms)" using assms(18) by (auto simp: list_all_iff dest: in_set_takeD)
  from h3_later_messages [OF this c(4,5), of ready] have later: "recv_calls (recv_h3_message ready) (k + 1) (h3_buffered c) (h3_session_input c) =
      map (\<lambda>m. Inr (BinaryEvent m)) (take k ms) @ [Inr CloseEvent]"
    using k'(1) by (simp add: c(2,3))
  have "ad_gate_replay ad1 (client_id, bv_token_nonce bv) = None"
    using assms(16,17) by (auto simp: check_admission_rate_def Let_def split: if_split_asm)
  from bridge_token_admitted [OF assms(1,2) t id assms(11,9,13,14) this]
  obtain cache where v: "validate_h3_gate C env rt ad1 clock token exporter (hc_authority cfg) (hc_path cfg) = (Inr client, ad1\<lparr>ad_gate_replay := cache\<rparr>)"
    by blast
  have "admit_h3 C env rt cfg exporter_for utf8 ad clock clock2 peer False (H3 (h3_arrived reads)) =
      (Inr (Some (HandshakeAdmission client)), ad1\<lparr>ad_gate_replay := cache\<rparr>, H3 c)"
    using assms(15,16) e c(1) assms(3) [of bs] token(2) v by (simp add: admit_h3_def decide_admission_def)
  then show ?thesis using k'(1) later j(3) k by auto
qed

definition sample_bridge :: bridge_env where
  "sample_bridge = \<lparr>bv_bundle = (\<lambda>_. Inr \<lparr>bd_client_id_b64 = ''id'', bd_gate_key_b64 = ''gk''\<rparr>), bv_is_socket_addr = (\<lambda>_. True),
     bv_decode = (\<lambda>s. Some (if s = ''id'' then replicate 16 1 else replicate 32 3)), bv_encode = text_of_bytes,
     bv_connect = (\<lambda>_ _. Inr (\<lambda>_. Some (replicate 32 9))), bv_open = Inr (), bv_clock = Inr 1000, bv_token_nonce = replicate 16 7\<rparr>"

definition sample_h3 :: h3_config where
  "sample_h3 = \<lparr>hc_listen = ''l'', hc_authority = ''a'', hc_path = ''/p'', hc_certificate_pem = ''c'', hc_private_key_pem = ''k'', hc_decoy_root = ''d''\<rparr>"

lemma sample_bridge_connects:
  "\<exists>s. bridge_connect clear_crypto sample_bridge [''b'', ''u'', hc_authority sample_h3, hc_path sample_h3, ''s''] [] [] = Inr s \<and>
     0 < length (br_sent s) \<and> length (br_sent s) \<le> 8192"
proof -
  obtain token where t: "gate_token clear_crypto text_of_bytes (Inr 1000) (replicate 16 7) (replicate 16 1) (replicate 32 3) (replicate 32 9)
      (hc_authority sample_h3) (hc_path sample_h3) = Inr token"
    using hmac_bytes_ok [OF clear_crypto_ok(3)] by (fastforce simp: gate_token_def and_then_Inr_iff)
  have ok: "message_ok max_carrier_message (ascii token)"
    using gate_token_message [OF clear_crypto_ok(3) t] by (simp add: text_of_bytes_def)
  have len: "length (message_bytes (ascii token)) = 4 + length (ascii token)" by (simp add: message_bytes_def)
  have m: "frame_message (ascii token) = Inr (message_bytes (ascii token))"
    by (rule frame_message_ok [OF ok]) (simp add: max_carrier_message_def)
  have "0 < length (message_bytes (ascii token))" "length (message_bytes (ascii token)) \<le> 8192"
    using ok unfolding len by (simp_all add: message_ok_def max_carrier_message_def)
  note m = m this
  have "message_bytes (ascii token) \<noteq> []" using m(2) unfolding length_greater_0_conv .
  then show ?thesis using m(3)
    by (simp add: bridge_connect_def nth_argument_def sample_bridge_def bridge_decode_fixed_def t send_stream_message_def m(1))
qed

theorem bridge_reaches_handshake_witness:
  "\<exists>reads ad' c. admit_h3 clear_crypto (sample_env\<lparr>ce_base64 := (\<lambda>s. Some (ascii s))\<rparr>) sample_runtime sample_h3 (\<lambda>_. Some (replicate 32 9))
     (\<lambda>bs. Some (text_of_bytes bs)) admission_new (gr_clock (sample_request 910 5)) (gr_clock (sample_request 910 5)) [10, 0, 0, 9] False
     (H3 (h3_arrived reads)) = (Inr (Some (HandshakeAdmission sample_client)), ad', H3 c)"
proof -
  let ?env = "sample_env\<lparr>ce_base64 := (\<lambda>s. Some (ascii s))\<rparr>" and ?clock = "gr_clock (sample_request 910 5)"
  obtain s where s: "bridge_connect clear_crypto sample_bridge [''b'', ''u'', hc_authority sample_h3, hc_path sample_h3, ''s''] (map Inr []) [] = Inr s"
    "br_sent s \<noteq> []" "length (br_sent s) \<le> 8192"
    using sample_bridge_connects by auto
  have laws: "\<And>bs. ce_base64 ?env (bv_encode sample_bridge bs) = Some bs"
    "\<And>bs. Some (text_of_bytes (ascii (bv_encode sample_bridge bs))) = Some (bv_encode sample_bridge bs)"
    "\<And>bs. bs \<noteq> [] \<Longrightarrow> bv_encode sample_bridge bs \<noteq> [] \<and> length (bv_encode sample_bridge bs) \<le> 2 * length bs"
    by (simp_all add: sample_bridge_def ascii_text_of_bytes) (simp_all add: text_of_bytes_def)
  obtain ad1 where rate: "check_admission_rate admission_new [10, 0, 0, 9] (ck_rate ?clock) = (Inr (), ad1)"
    by (simp add: check_admission_rate_def admission_new_def Let_def)
  have v: "bv_bundle sample_bridge ''b'' = Inr \<lparr>bd_client_id_b64 = ''id'', bd_gate_key_b64 = ''gk''\<rparr>"
    "bv_decode sample_bridge ''id'' = Some (replicate 16 1)" "bv_decode sample_bridge ''gk'' = Some (cl_gate_key sample_client)"
    "rt_clients sample_runtime (replicate 16 1) = Some sample_client" "bv_connect sample_bridge ''u'' ''s'' = Inr (\<lambda>_. Some (replicate 32 9))"
    "length (bv_token_nonce sample_bridge) = 16" "bv_clock sample_bridge = Inr 1000" "ck_unix ?clock = Inr 910"
    "clock_within 910 1000 gate_window_secs" "is_operational admission_new"
    "ad_gate_replay admission_new (replicate 16 1, bv_token_nonce sample_bridge) = None"
    by (simp_all add: sample_bridge_def sample_client_def sample_runtime_def sample_request_def clock_within_def i64_wrapping_abs_def
        gate_window_secs_def is_operational_def admission_new_def)
  have "\<exists>ad' c k. admit_h3 clear_crypto ?env sample_runtime sample_h3 (\<lambda>_. Some (replicate 32 9)) (\<lambda>bs. Some (text_of_bytes bs)) admission_new ?clock
      ?clock [10, 0, 0, 9] False (H3 (h3_arrived [br_sent s])) = (Inr (Some (HandshakeAdmission sample_client)), ad', H3 c) \<and> k \<le> length ([] :: bytes list) \<and>
    recv_calls (recv_h3_message False) (k + 1) (h3_buffered c) (h3_session_input c) =
      map (\<lambda>m. Inr (BinaryEvent m)) (take k []) @ [Inr CloseEvent] \<and> (Continue = Continue \<longrightarrow> k = count_list [] LocalReady)"
    by (rule bridge_reaches_handshake [OF clear_crypto_ok(3) laws s(1) v(1) _ _ v(4-10) rate v(11), where ms = "[]" and es = "[]" and t = s])
      (use s v(2,3) in simp_all)
  then show ?thesis by blast
qed

end
