(* ===== verification/Reka_Edge.thy ===== *)
theory Reka_Edge
  imports Reka_Session
begin

text \<open>
  The HTTP/3 edge (\<open>h3_edge.rs\<close>): which requests open a tunnel, the decoy site that every other request gets, the
  connection up to its reliable stream, and the accept loop with its limits. What the QUIC and HTTP/3 libraries
  deliver is the input of the loops; the file system is an argument, one for each call, since files may change
  between the calls.
\<close>

section \<open>Model\<close>

text \<open>Requests that open a tunnel.\<close>

definition eq_ignore_ascii_case :: "string \<Rightarrow> string \<Rightarrow> bool" where
  "eq_ignore_ascii_case a b \<longleftrightarrow> to_ascii_lowercase a = to_ascii_lowercase b"

definition strip_suffix :: "string \<Rightarrow> string \<Rightarrow> string option" where
  "strip_suffix ending s =
     (if length ending \<le> length s \<and> drop (length s - length ending) s = ending then Some (take (length s - length ending) s) else None)"

definition authority_matches :: "string \<Rightarrow> string \<Rightarrow> bool" where
  "authority_matches received expected \<longleftrightarrow>
     eq_ignore_ascii_case received expected \<or>
     (case strip_suffix '':443'' received of Some text \<Rightarrow> eq_ignore_ascii_case text expected | None \<Rightarrow> False) \<or>
     (case strip_suffix '':443'' expected of Some text \<Rightarrow> eq_ignore_ascii_case text received | None \<Rightarrow> False)"

record h3_request =
  rq_method :: string
  rq_protocol :: "string option"
  rq_path :: string
  rq_authority :: "string option"

definition is_tunnel_request :: "h3_request \<Rightarrow> string \<Rightarrow> string \<Rightarrow> bool" where
  "is_tunnel_request request authority path \<longleftrightarrow>
     rq_method request = ''CONNECT'' \<and> rq_protocol request = Some ''webtransport'' \<and> rq_path request = path \<and>
     (case rq_authority request of Some received \<Rightarrow> authority_matches received authority | None \<Rightarrow> False)"

text \<open>Paths, as \<open>std::path\<close> reads them on Unix.\<close>

datatype path_component = RootDir | CurDir | ParentDir | NormalName string

fun split_path :: "string \<Rightarrow> string list" where
  "split_path [] = [[]]"
| "split_path (c # cs) =
     (if c = CHR ''/'' then [] # split_path cs
      else case split_path cs of [] \<Rightarrow> [[c]] | piece # pieces \<Rightarrow> (c # piece) # pieces)"

definition path_piece :: "string \<Rightarrow> path_component list" where
  "path_piece piece =
     (if piece = [] \<or> piece = ''.'' then [] else if piece = ''..'' then [ParentDir] else [NormalName piece])"

definition path_components :: "string \<Rightarrow> path_component list" where
  "path_components path =
     (if take 1 path = ''/'' then [RootDir] else if hd (split_path path) = ''.'' then [CurDir] else []) @
     concat (map path_piece (split_path path))"

definition path_join :: "string \<Rightarrow> string \<Rightarrow> string" where
  "path_join base path =
     (if take 1 path = ''/'' then path else if base = [] \<or> last base = CHR ''/'' then base @ path else base @ ''/'' @ path)"

definition path_starts_with :: "string \<Rightarrow> string \<Rightarrow> bool" where
  "path_starts_with path base \<longleftrightarrow> take (length (path_components base)) (path_components path) = path_components base"

definition path_extension :: "string \<Rightarrow> string option" where
  "path_extension path =
     (case rev (path_components path) of
        NormalName name # _ \<Rightarrow>
          (let after = rev (takeWhile (\<lambda>c. c \<noteq> CHR ''.'') (rev name)); before = length name - Suc (length after)
           in if CHR ''.'' \<in> set name \<and> 0 < before then Some after else None)
      | _ \<Rightarrow> None)"

definition content_type :: "string \<Rightarrow> string" where
  "content_type path =
     (case path_extension path of
        None \<Rightarrow> ''application/octet-stream''
      | Some extension \<Rightarrow>
          if extension = ''html'' then ''text/html; charset=utf-8''
          else if extension = ''css'' then ''text/css; charset=utf-8''
          else if extension = ''js'' then ''application/javascript; charset=utf-8''
          else if extension = ''json'' then ''application/json; charset=utf-8''
          else if extension = ''cbor'' then ''application/cose''
          else if extension = ''svg'' then ''image/svg+xml''
          else if extension = ''png'' then ''image/png''
          else if extension = ''jpg'' \<or> extension = ''jpeg'' then ''image/jpeg''
          else if extension = ''ico'' then ''image/x-icon''
          else if extension = ''txt'' then ''text/plain; charset=utf-8''
          else ''application/octet-stream'')"

text \<open>The file system as one call sees it.\<close>

datatype file_metadata = IsDirectory | IsFile nat | IsOther
datatype read_outcome = ReadContents bytes | ReadNotFound | ReadFailed string

record file_system =
  fs_canonicalize :: "string \<Rightarrow> string option"
  fs_metadata :: "string \<Rightarrow> file_metadata result"
  fs_read :: "string \<Rightarrow> read_outcome"

definition max_decoy_file_size :: nat where "max_decoy_file_size = 1024 * 1024"

definition canonical_below :: "file_system \<Rightarrow> string \<Rightarrow> string \<Rightarrow> string option" where
  "canonical_below fs root path =
     (case fs_canonicalize fs path of Some p \<Rightarrow> if path_starts_with p root then Some p else None | None \<Rightarrow> None)"

definition relative_path :: "string \<Rightarrow> string" where
  "relative_path request_path =
     (let relative = dropWhile (\<lambda>c. c = CHR ''/'') request_path in if relative = [] then ''index.html'' else relative)"

fun is_normal :: "path_component \<Rightarrow> bool" where
  "is_normal (NormalName _) = True"
| "is_normal _ = False"

text \<open>The calls of \<open>read_decoy_file\<close> in their order see \<open>fs 0\<close> to \<open>fs 4\<close>.\<close>

definition read_decoy_file :: "(nat \<Rightarrow> file_system) \<Rightarrow> string \<Rightarrow> string \<Rightarrow> (bytes \<times> string) option result" where
  "read_decoy_file fs root request_path =
     (let relative = relative_path request_path in
      if list_ex (\<lambda>c. \<not> is_normal c) (path_components relative) then Inr None
      else case canonical_below (fs 0) root (path_join root relative) of
        None \<Rightarrow> Inr None
      | Some found \<Rightarrow>
          and_then (fs_metadata (fs 1) found) (\<lambda>metadata.
          case canonical_below (fs 2) root (if metadata = IsDirectory then path_join found ''index.html'' else found) of
            None \<Rightarrow> Inr None
          | Some canonical \<Rightarrow>
              and_then (fs_metadata (fs 3) canonical) (\<lambda>metadata.
              case metadata of
                IsFile len \<Rightarrow>
                  (if len > max_decoy_file_size then Inr None
                   else case fs_read (fs 4) canonical of
                     ReadContents body \<Rightarrow> Inr (Some (body, content_type canonical))
                   | ReadNotFound \<Rightarrow> Inr None
                   | ReadFailed message \<Rightarrow> Inl (Bail message))
              | _ \<Rightarrow> Inr None)))"

text \<open>The answer to a request on the decoy site, as the calls on its stream: \<open>ok\<close> says which of them succeed.\<close>

fun decimal :: "nat \<Rightarrow> string" where
  "decimal n = (if n < 10 then [char_of (48 + n)] else decimal (n div 10) @ [char_of (48 + n mod 10)])"

declare decimal.simps [simp del]

datatype stream_call = SendResponse nat "(string \<times> string) list" | SendData bytes | FinishStream

fun run_calls :: "(nat \<Rightarrow> bool) \<Rightarrow> nat \<Rightarrow> stream_call list \<Rightarrow> unit result \<times> stream_call list" where
  "run_calls ok k [] = (Inr (), [])"
| "run_calls ok k (c # cs) =
     (if ok k then (let (r, sent) = run_calls ok (Suc k) cs in (r, c # sent)) else (Inl (Bail ''H3 stream error''), []))"

definition decoy_headers :: "bytes \<Rightarrow> string \<Rightarrow> (string \<times> string) list" where
  "decoy_headers body content =
     [(''alt-svc'', ''h3=\":443\"; ma=2592000''), (''content-length'', decimal (length body)), (''content-type'', content),
      (''permissions-policy'', ''camera=(), geolocation=(), microphone=()''),
      (''referrer-policy'', ''strict-origin-when-cross-origin''), (''x-content-type-options'', ''nosniff''), (''x-frame-options'', ''DENY'')]"

definition serve_decoy_request :: "(nat \<Rightarrow> file_system) \<Rightarrow> string \<Rightarrow> (nat \<Rightarrow> bool) \<Rightarrow> h3_request \<Rightarrow> unit result \<times> stream_call list" where
  "serve_decoy_request fs root ok request =
     (let readable = rq_method request = ''GET'' \<or> rq_method request = ''HEAD'' in
      attempt (if readable then read_decoy_file fs root (rq_path request) else Inr None) [] (\<lambda>file.
      let status = (if \<not> readable then 405 else if file \<noteq> None then 200 else 404);
          body = (case file of Some (contents, _) \<Rightarrow> contents | None \<Rightarrow> []);
          content = (case file of Some (_, t) \<Rightarrow> t | None \<Rightarrow> ''text/plain; charset=utf-8'')
      in run_calls ok 0
           (SendResponse status (decoy_headers body content) #
            (if rq_method request \<noteq> ''HEAD'' \<and> body \<noteq> [] then [SendData body] else []) @ [FinishStream])))"

text \<open>A connection up to its tunnel. The requests come with the file system and the stream that their answers meet;
  \<open>None\<close> while the loop waits for the next one.\<close>

record decoy_env =
  de_fs :: "nat \<Rightarrow> file_system"
  de_ok :: "nat \<Rightarrow> bool"

datatype h3_accept = AcceptedRequest h3_request decoy_env | ConnectionClosed | AcceptFailed string

fun accept_requests :: "string \<Rightarrow> string \<Rightarrow> string \<Rightarrow> h3_accept list \<Rightarrow> h3_request option result option \<times> stream_call list list" where
  "accept_requests authority path root [] = (None, [])"
| "accept_requests authority path root (ConnectionClosed # _) = (Some (Inr None), [])"
| "accept_requests authority path root (AcceptFailed message # _) = (Some (Inl (Bail message)), [])"
| "accept_requests authority path root (AcceptedRequest request env # rest) =
     (if is_tunnel_request request authority path then (Some (Inr (Some request)), [])
      else case serve_decoy_request (de_fs env) root (de_ok env) request of
        (Inl e, calls) \<Rightarrow> (Some (Inl e), [calls])
      | (Inr _, calls) \<Rightarrow> (let (r, answers) = accept_requests authority path root rest in (r, calls # answers)))"

datatype accepted_bi = BidiStream nat nat | BidiRequest h3_request decoy_env | BidiClosed | BidiFailed string

text \<open>A bidirectional stream carries the session it belongs to and its own number; the last component is the streams
  that were shut down.\<close>

fun accept_reliable_stream :: "string \<Rightarrow> nat \<Rightarrow> accepted_bi list \<Rightarrow> nat result option \<times> stream_call list list \<times> nat list" where
  "accept_reliable_stream root session [] = (None, [], [])"
| "accept_reliable_stream root session (BidiStream owner stream # rest) =
     (if owner = session then (Some (Inr stream), [], [])
      else let (r, answers, shut) = accept_reliable_stream root session rest in (r, answers, stream # shut))"
| "accept_reliable_stream root session (BidiRequest request env # rest) =
     (case serve_decoy_request (de_fs env) root (de_ok env) request of
        (Inl e, calls) \<Rightarrow> (Some (Inl e), [calls], [])
      | (Inr _, calls) \<Rightarrow> (let (r, answers, shut) = accept_reliable_stream root session rest in (r, calls # answers, shut)))"
| "accept_reliable_stream root session (BidiClosed # _) =
     (Some (Inl (Bail ''WebTransport session closed before reliable stream'')), [], [])"
| "accept_reliable_stream root session (BidiFailed message # _) = (Some (Inl (Bail message)), [], [])"

record h3_session =
  hs_request :: h3_request
  hs_stream :: nat
  hs_peer :: bytes

text \<open>\<open>session_of\<close> is the WebTransport session that the library creates for the request.\<close>

definition accept_connection ::
    "string \<Rightarrow> string \<Rightarrow> string \<Rightarrow> (h3_request \<Rightarrow> nat result) \<Rightarrow> bytes \<Rightarrow> h3_accept list \<Rightarrow> accepted_bi list \<Rightarrow>
     h3_session option result option \<times> stream_call list list" where
  "accept_connection authority path root session_of peer requests streams =
     (let (r, answers) = accept_requests authority path root requests in
      case r of
        None \<Rightarrow> (None, answers)
      | Some (Inl e) \<Rightarrow> (Some (Inl e), answers)
      | Some (Inr None) \<Rightarrow> (Some (Inr None), answers)
      | Some (Inr (Some request)) \<Rightarrow>
          (case session_of request of
             Inl e \<Rightarrow> (Some (Inl e), answers)
           | Inr session \<Rightarrow>
               (let (q, more, _) = accept_reliable_stream root session streams in
                (case q of
                   None \<Rightarrow> None
                 | Some (Inl e) \<Rightarrow> Some (Inl e)
                 | Some (Inr stream) \<Rightarrow> Some (Inr (Some \<lparr>hs_request = request, hs_stream = stream, hs_peer = peer\<rparr>)),
                 answers @ more))))"

text \<open>Semaphores: \<open>try_acquire_owned\<close> and the drop of the permit when the task of \<open>x\<close> ends.\<close>

record 'a permit_pool =
  pl_free :: nat
  pl_running :: "'a list"

definition pool_acquire :: "'a \<Rightarrow> 'a permit_pool \<Rightarrow> 'a permit_pool option" where
  "pool_acquire x p = (if pl_free p = 0 then None else Some (p\<lparr>pl_free := pl_free p - 1, pl_running := pl_running p @ [x]\<rparr>))"

definition pool_release :: "'a \<Rightarrow> 'a permit_pool \<Rightarrow> 'a permit_pool" where
  "pool_release x p = (if x \<in> set (pl_running p) then p\<lparr>pl_free := pl_free p + 1, pl_running := remove1 x (pl_running p)\<rparr> else p)"

text \<open>\<open>serve_session_requests\<close>: the requests that are being answered while a tunnel is up, the streams that were shut
  down, and whether the loop has ended.\<close>

definition max_h3_decoy_requests :: nat where "max_h3_decoy_requests = 64"

record session_requests =
  sr_pool :: "nat permit_pool"
  sr_dropped :: "nat list"
  sr_shut :: "nat list"
  sr_ended :: bool

datatype session_request_event = TunnelRequest nat | RequestAnswered nat | TunnelStream nat | TunnelEnd

fun serve_session_requests :: "session_requests \<Rightarrow> session_request_event \<Rightarrow> session_requests" where
  "serve_session_requests s (TunnelRequest stream) =
     (if sr_ended s then s
      else case pool_acquire stream (sr_pool s) of
        None \<Rightarrow> s\<lparr>sr_dropped := sr_dropped s @ [stream]\<rparr>
      | Some pool \<Rightarrow> s\<lparr>sr_pool := pool\<rparr>)"
| "serve_session_requests s (RequestAnswered stream) = s\<lparr>sr_pool := pool_release stream (sr_pool s)\<rparr>"
| "serve_session_requests s (TunnelStream stream) = (if sr_ended s then s else s\<lparr>sr_shut := sr_shut s @ [stream]\<rparr>)"
| "serve_session_requests s TunnelEnd = s\<lparr>sr_ended := True\<rparr>"

text \<open>\<open>Server::serve\<close>. An incoming connection is known by a number; its task ends with what \<open>accept_connection\<close> found
  within its fifteen seconds, or with nothing.\<close>

definition max_h3_connections :: nat where "max_h3_connections = 256"

record h3_server =
  ed_pool :: "nat permit_pool"
  ed_retried :: "nat list"
  ed_dropped :: "nat list"
  ed_sessions :: "(nat \<times> h3_session) list"
  ed_closed :: "(nat \<times> h3_session) list"

datatype edge_event = Incoming nat bool | TaskEnds nat "h3_session option result option" bool

fun edge_serve :: "h3_server \<Rightarrow> edge_event \<Rightarrow> h3_server" where
  "edge_serve s (Incoming connection validated) =
     (if \<not> validated then s\<lparr>ed_retried := ed_retried s @ [connection]\<rparr>
      else case pool_acquire connection (ed_pool s) of
        None \<Rightarrow> s\<lparr>ed_dropped := ed_dropped s @ [connection]\<rparr>
      | Some pool \<Rightarrow> s\<lparr>ed_pool := pool\<rparr>)"
| "edge_serve s (TaskEnds connection outcome receiver_open) =
     (if connection \<notin> set (pl_running (ed_pool s)) then s
      else
        let s1 = s\<lparr>ed_pool := pool_release connection (ed_pool s)\<rparr> in
        case outcome of
          Some (Inr (Some session)) \<Rightarrow>
            if receiver_open then s1\<lparr>ed_sessions := ed_sessions s1 @ [(connection, session)]\<rparr>
            else s1\<lparr>ed_closed := ed_closed s1 @ [(connection, session)]\<rparr>
        | _ \<Rightarrow> s1)"

definition edge_new :: h3_server where
  "edge_new = \<lparr>ed_pool = \<lparr>pl_free = max_h3_connections, pl_running = []\<rparr>, ed_retried = [], ed_dropped = [], ed_sessions = [], ed_closed = []\<rparr>"

section \<open>Pools\<close>

definition pool_inv :: "nat \<Rightarrow> 'a permit_pool \<Rightarrow> bool" where
  "pool_inv n p \<longleftrightarrow> pl_free p + length (pl_running p) = n"

lemma pool_acquire_inv: "pool_inv n p \<Longrightarrow> pool_acquire x p = Some p' \<Longrightarrow> pool_inv n p'"
  by (auto simp: pool_inv_def pool_acquire_def split: if_split_asm)

lemma pool_release_inv: "pool_inv n p \<Longrightarrow> pool_inv n (pool_release x p)"
  using length_pos_if_in_set [of x "pl_running p"] by (auto simp: pool_inv_def pool_release_def length_remove1)

text \<open>The connections that the edge has worked for.\<close>

definition edge_served :: "h3_server \<Rightarrow> nat set" where
  "edge_served s = set (pl_running (ed_pool s)) \<union> fst ` set (ed_sessions s) \<union> fst ` set (ed_closed s)"

lemma edge_serve_served: "edge_served (edge_serve s e) \<subseteq> edge_served s \<union> {c. e = Incoming c True}"
proof (cases e)
  case (Incoming c validated)
  then show ?thesis
    by (auto simp: edge_served_def pool_acquire_def split: option.split_asm if_split_asm)
next
  case (TaskEnds c outcome receiver_open)
  have "set (pl_running (pool_release c (ed_pool s))) \<subseteq> set (pl_running (ed_pool s))"
    using set_remove1_subset [of c "pl_running (ed_pool s)"] by (simp add: pool_release_def)
  moreover have "ed_pool (edge_serve s e) = (if c \<in> set (pl_running (ed_pool s)) then pool_release c (ed_pool s) else ed_pool s)"
    by (simp add: TaskEnds Let_def split: option.split sum.split)
  moreover have "fst ` set (ed_sessions (edge_serve s e)) \<union> fst ` set (ed_closed (edge_serve s e)) \<subseteq> edge_served s"
    by (auto simp: TaskEnds edge_served_def Let_def split: option.split_asm sum.split_asm if_split_asm)
  ultimately show ?thesis by (auto simp: edge_served_def)
qed

lemma edge_serve_pool:
  assumes "pool_inv n (ed_pool s)"
  shows "pool_inv n (ed_pool (edge_serve s e))"
proof (cases e)
  case (Incoming c validated)
  then show ?thesis using assms pool_acquire_inv [OF assms] by (auto split: option.split)
next
  case (TaskEnds c outcome receiver_open)
  then show ?thesis using assms pool_release_inv [OF assms] by (simp add: Let_def split: option.split sum.split)
qed

interpretation edge: event_machine edge_serve "\<lambda>s. pool_inv n (ed_pool s)" for n
  by unfold_locales (rule edge_serve_pool)

lemma edge_run_served: "edge_served (foldl edge_serve edge_new es) \<subseteq> {c. Incoming c True \<in> set es}"
proof (induction es rule: rev_induct)
  case (snoc e es)
  then show ?case using edge_serve_served [of "foldl edge_serve edge_new es" e] by auto
qed (simp add: edge_served_def edge_new_def)

lemma serve_session_requests_pool:
  assumes "pool_inv n (sr_pool s)"
  shows "pool_inv n (sr_pool (serve_session_requests s e))"
  using assms pool_acquire_inv [OF assms] pool_release_inv [OF assms] by (cases e) (auto split: option.split)

interpretation requests: event_machine serve_session_requests "\<lambda>s. pool_inv n (sr_pool s)" for n
  by unfold_locales (rule serve_session_requests_pool)

section \<open>Paths\<close>

lemma split_path_nonempty [simp]: "split_path p \<noteq> []"
  by (cases p) (auto split: list.split)

lemma split_path_dropWhile:
  "piece \<in> set (split_path p) \<Longrightarrow> piece \<noteq> [] \<Longrightarrow> piece \<in> set (split_path (dropWhile (\<lambda>c. c = CHR ''/'') p))"
  by (induction p) auto

lemma parent_rejected:
  assumes "''..'' \<in> set (split_path request_path)"
  shows "list_ex (\<lambda>c. \<not> is_normal c) (path_components (relative_path request_path))"
proof -
  define d where "d = dropWhile (\<lambda>c. c = CHR ''/'') request_path"
  have d: "''..'' \<in> set (split_path d)" unfolding d_def by (rule split_path_dropWhile [OF assms]) simp
  then have "d \<noteq> []" by (cases d) auto
  then have "relative_path request_path = d" unfolding relative_path_def d_def [symmetric] Let_def by simp
  with d have "''..'' \<in> set (split_path (relative_path request_path))" by simp
  then have "ParentDir \<in> set (path_components (relative_path request_path))"
    by (auto simp: path_components_def path_piece_def)
  then show ?thesis by (force simp: list_ex_iff)
qed

lemma canonical_below_Some: "canonical_below fs root path = Some p \<longleftrightarrow> fs_canonicalize fs path = Some p \<and> path_starts_with p root"
  by (auto simp: canonical_below_def split: option.split if_split_asm)

lemma read_decoy_file_success:
  assumes "read_decoy_file fs root request_path = Inr (Some (body, content))"
  shows "\<exists>path canonical len. canonical_below (fs 2) root path = Some canonical \<and>
    fs_metadata (fs 3) canonical = Inr (IsFile len) \<and> len \<le> max_decoy_file_size \<and> fs_read (fs 4) canonical = ReadContents body \<and>
    content = content_type canonical \<and> \<not> list_ex (\<lambda>c. \<not> is_normal c) (path_components (relative_path request_path))"
proof -
  have normal: "\<not> list_ex (\<lambda>c. \<not> is_normal c) (path_components (relative_path request_path))"
    using assms by (auto simp: read_decoy_file_def Let_def)
  then obtain path canonical metadata where m: "canonical_below (fs 2) root path = Some canonical"
      "fs_metadata (fs 3) canonical = Inr metadata" and
    r: "(case metadata of
          IsFile len \<Rightarrow>
            (if len > max_decoy_file_size then Inr None
             else case fs_read (fs 4) canonical of
               ReadContents body \<Rightarrow> Inr (Some (body, content_type canonical))
             | ReadNotFound \<Rightarrow> Inr None
             | ReadFailed message \<Rightarrow> Inl (Bail message))
        | _ \<Rightarrow> Inr None) = Inr (Some (body, content))"
    using assms by (auto simp: read_decoy_file_def and_then_Inr_iff Let_def split: option.split_asm)
  then obtain len where "metadata = IsFile len" "\<not> max_decoy_file_size < len" "fs_read (fs 4) canonical = ReadContents body"
    "content = content_type canonical"
    by (cases metadata) (auto split: if_split_asm read_outcome.split_asm)
  then show ?thesis using m normal by (metis not_less)
qed

section \<open>Authorities and requests\<close>

lemma strip_suffix_Some: "strip_suffix ending s = Some r \<longleftrightarrow> s = r @ ending"
  by (auto simp: strip_suffix_def) (metis append_take_drop_id)

lemma to_ascii_lowercase_append: "to_ascii_lowercase (a @ b) = to_ascii_lowercase a @ to_ascii_lowercase b"
  by (simp add: to_ascii_lowercase_def)

text \<open>A text without letters is the lower case of itself only.\<close>

lemma lowercase_port: "to_ascii_lowercase s = '':443'' \<longleftrightarrow> s = '':443''"
proof
  assume lower: "to_ascii_lowercase s = '':443''"
  have fixed: "c = d" if "(if 65 \<le> (of_char c :: nat) \<and> (of_char c :: nat) \<le> 90 then char_of ((of_char c :: nat) + 32) else c) = d"
    "(of_char d :: nat) < 97" for c d :: char
    using that by (auto split: if_split_asm)
  from lower show "s = '':443''" unfolding to_ascii_lowercase_def
    by (auto simp: map_eq_Cons_conv dest!: fixed)
qed (simp add: to_ascii_lowercase_def)

lemma lowercase_suffix:
  "(\<exists>r. s = r @ '':443'' \<and> to_ascii_lowercase r = t) \<longleftrightarrow> to_ascii_lowercase s = t @ '':443''"
proof
  assume eq: "to_ascii_lowercase s = t @ '':443''"
  define r p where "r = take (length t) s" and "p = drop (length t) s"
  have "s = r @ p" by (simp add: r_def p_def)
  have "to_ascii_lowercase r = take (length t) (to_ascii_lowercase s)" "to_ascii_lowercase p = drop (length t) (to_ascii_lowercase s)"
    by (simp_all add: to_ascii_lowercase_def r_def p_def take_map drop_map)
  then have "to_ascii_lowercase r = t \<and> to_ascii_lowercase p = '':443''" by (simp add: eq)
  then show "\<exists>r. s = r @ '':443'' \<and> to_ascii_lowercase r = t" using \<open>s = r @ p\<close> lowercase_port by auto
qed (auto simp: to_ascii_lowercase_append lowercase_port)

lemma authority_matches_iff:
  "authority_matches received expected \<longleftrightarrow> (let a = to_ascii_lowercase received; b = to_ascii_lowercase expected in
     a = b \<or> a = b @ '':443'' \<or> b = a @ '':443'')"
proof -
  have "(case strip_suffix '':443'' x of Some text \<Rightarrow> eq_ignore_ascii_case text y | None \<Rightarrow> False) \<longleftrightarrow>
      to_ascii_lowercase x = to_ascii_lowercase y @ '':443''" for x y
  proof -
    have "(case strip_suffix '':443'' x of Some text \<Rightarrow> eq_ignore_ascii_case text y | None \<Rightarrow> False) \<longleftrightarrow>
        (\<exists>r. strip_suffix '':443'' x = Some r \<and> to_ascii_lowercase r = to_ascii_lowercase y)"
      by (cases "strip_suffix '':443'' x") (simp_all add: eq_ignore_ascii_case_def)
    then show ?thesis unfolding strip_suffix_Some lowercase_suffix .
  qed
  then show ?thesis by (simp add: authority_matches_def eq_ignore_ascii_case_def Let_def)
qed

lemma accept_requests_tunnel:
  "accept_requests authority path root inputs = (Some (Inr (Some request)), answers) \<Longrightarrow>
     \<exists>before env after. inputs = before @ AcceptedRequest request env # after \<and> is_tunnel_request request authority path"
proof (induction authority path root inputs arbitrary: answers rule: accept_requests.induct)
  case (4 authority path root rq env rest)
  show ?case
  proof (cases "is_tunnel_request rq authority path")
    case True
    then show ?thesis using 4(2) by (intro exI [of _ "[]"]) simp
  next
    case False
    then obtain answers' where "accept_requests authority path root rest = (Some (Inr (Some request)), answers')"
      using 4(2) by (auto split: prod.split_asm sum.split_asm)
    then show ?thesis using 4(1) [OF False] 4(2) False by (auto split: prod.split_asm sum.split_asm) (metis append_Cons)+
  qed
qed simp_all

lemma accept_reliable_stream_owned:
  "accept_reliable_stream root session streams = (Some (Inr stream), answers, shut) \<Longrightarrow> BidiStream session stream \<in> set streams"
  by (induction root session streams arbitrary: answers shut rule: accept_reliable_stream.induct)
    (fastforce split: if_split_asm prod.split_asm sum.split_asm)+

text \<open>The answers while no tunnel is asked for.\<close>

fun probe_answers :: "string \<Rightarrow> h3_accept list \<Rightarrow> (unit result \<times> stream_call list) list" where
  "probe_answers root (AcceptedRequest request env # rest) =
     serve_decoy_request (de_fs env) root (de_ok env) request # probe_answers root rest"
| "probe_answers root _ = []"

definition asks_tunnel :: "string \<Rightarrow> string \<Rightarrow> h3_accept \<Rightarrow> bool" where
  "asks_tunnel authority path input = (case input of AcceptedRequest request _ \<Rightarrow> is_tunnel_request request authority path | _ \<Rightarrow> False)"

lemma accept_requests_probe:
  assumes "list_all (\<lambda>i. \<not> asks_tunnel authority path i) inputs"
  shows "\<exists>n. snd (accept_requests authority path root inputs) = map snd (take n (probe_answers root inputs)) \<and>
    (\<forall>request. fst (accept_requests authority path root inputs) \<noteq> Some (Inr (Some request)))"
  using assms
proof (induction authority path root inputs rule: accept_requests.induct)
  case (4 authority path root request env rest)
  have plain: "\<not> is_tunnel_request request authority path" using 4(2) by (simp add: asks_tunnel_def)
  obtain r calls where d: "serve_decoy_request (de_fs env) root (de_ok env) request = (r, calls)" by fastforce
  obtain n where n: "snd (accept_requests authority path root rest) = map snd (take n (probe_answers root rest))"
      "\<forall>request. fst (accept_requests authority path root rest) \<noteq> Some (Inr (Some request))" if "r = Inr ()"
    using 4(1) [OF plain d [symmetric]] 4(2) by fastforce
  show ?case
  proof (cases r)
    case (Inl e)
    then show ?thesis using plain d by (intro exI [of _ 1]) simp
  next
    case (Inr u)
    then show ?thesis using plain d n by (intro exI [of _ "Suc n"]) (simp add: split_beta)
  qed
qed simp_all

lemma accept_requests_hides:
  assumes "list_all (\<lambda>i. \<not> asks_tunnel a p i \<and> \<not> asks_tunnel a' p' i) inputs"
  shows "accept_requests a p root inputs = accept_requests a' p' root inputs"
  using assms
proof (induction a p root inputs rule: accept_requests.induct)
  case (4 authority path root request env rest)
  then show ?case by (auto simp: asks_tunnel_def split: prod.split sum.split)
qed simp_all

section \<open>Properties\<close>

text \<open>C23. The decoy site gives nothing away outside its directory: what it serves was read from a regular file of at
  most one megabyte whose path, with all links resolved, lies below the root, and a request path with a parent
  component is refused whatever the file system holds.\<close>

theorem decoy_files_confined:
  assumes "read_decoy_file fs root request_path = Inr (Some (body, content))"
  shows "(\<exists>path canonical len. fs_canonicalize (fs 2) path = Some canonical \<and> path_starts_with canonical root \<and>
      fs_metadata (fs 3) canonical = Inr (IsFile len) \<and> len \<le> 1048576 \<and> fs_read (fs 4) canonical = ReadContents body \<and>
      content = content_type canonical) \<and> ''..'' \<notin> set (split_path request_path)"
proof -
  obtain path canonical len where r: "canonical_below (fs 2) root path = Some canonical" "fs_metadata (fs 3) canonical = Inr (IsFile len)"
    "len \<le> max_decoy_file_size" "fs_read (fs 4) canonical = ReadContents body" "content = content_type canonical"
    "\<not> list_ex (\<lambda>c. \<not> is_normal c) (path_components (relative_path request_path))"
    using read_decoy_file_success [OF assms] by blast
  have "len \<le> 1048576" using r(3) by (simp add: max_decoy_file_size_def)
  then show ?thesis using r parent_rejected unfolding canonical_below_Some by blast
qed

definition sample_fs :: file_system where
  "sample_fs = \<lparr>fs_canonicalize = Some, fs_metadata = (\<lambda>_. Inr (IsFile 3)), fs_read = (\<lambda>_. ReadContents [1, 2, 3])\<rparr>"

lemma sample_decoy: "read_decoy_file (\<lambda>_. sample_fs) ''/srv'' ''/a.css'' = Inr (Some ([1, 2, 3], ''text/css; charset=utf-8''))"
  by (simp add: read_decoy_file_def sample_fs_def relative_path_def path_components_def path_piece_def canonical_below_def path_join_def
      path_starts_with_def max_decoy_file_size_def content_type_def path_extension_def Let_def)

theorem decoy_files_confined_witness:
  "\<exists>canonical. path_starts_with canonical ''/srv'' \<and> ''text/css; charset=utf-8'' = content_type canonical"
  using decoy_files_confined [OF sample_decoy] by blast

text \<open>C24. An HTTP/3 connection becomes a tunnel only when the client asks for one by name: a CONNECT request for
  WebTransport with exactly the configured path and, up to case and the default port, the configured authority
  was received, and the stream that carries the session belongs to the WebTransport session of that request.\<close>

theorem h3_tunnel_requires_request:
  assumes "accept_connection authority path root session_of peer requests streams = (Some (Inr (Some session)), answers)"
  shows "\<exists>before env after received id. requests = before @ AcceptedRequest (hs_request session) env # after \<and>
    rq_method (hs_request session) = ''CONNECT'' \<and> rq_protocol (hs_request session) = Some ''webtransport'' \<and>
    rq_path (hs_request session) = path \<and> rq_authority (hs_request session) = Some received \<and>
    (let a = to_ascii_lowercase received; b = to_ascii_lowercase authority in a = b \<or> a = b @ '':443'' \<or> b = a @ '':443'') \<and>
    session_of (hs_request session) = Inr id \<and> BidiStream id (hs_stream session) \<in> set streams"
proof -
  obtain request first id q more shut where r: "accept_requests authority path root requests = (Some (Inr (Some request)), first)"
    "session_of request = Inr id" "accept_reliable_stream root id streams = (q, more, shut)"
    "q = Some (Inr (hs_stream session))" "hs_request session = request"
    using assms by (auto simp: accept_connection_def Let_def split: prod.split_asm option.split_asm sum.split_asm)
  obtain before env after where i: "requests = before @ AcceptedRequest request env # after" "is_tunnel_request request authority path"
    using accept_requests_tunnel [OF r(1)] by blast
  obtain received where t: "rq_method request = ''CONNECT''" "rq_protocol request = Some ''webtransport''" "rq_path request = path"
    "rq_authority request = Some received" "authority_matches received authority"
    using i(2) unfolding is_tunnel_request_def by (cases "rq_authority request") simp_all
  have stream: "BidiStream id (hs_stream session) \<in> set streams" using accept_reliable_stream_owned r(3,4) by blast
  show ?thesis unfolding r(5) by (intro exI conjI) (rule i(1) t(1-4) t(5) [unfolded authority_matches_iff] r(2) stream)+
qed

definition sample_tunnel_request :: h3_request where
  "sample_tunnel_request = \<lparr>rq_method = ''CONNECT'', rq_protocol = Some ''webtransport'', rq_path = ''/t'', rq_authority = Some ''host:443''\<rparr>"

definition sample_decoy_env :: decoy_env where
  "sample_decoy_env = \<lparr>de_fs = (\<lambda>_. sample_fs), de_ok = (\<lambda>_. True)\<rparr>"

lemma sample_connection:
  "accept_connection ''host'' ''/t'' ''/srv'' (\<lambda>_. Inr 4) [10, 0, 0, 9] [AcceptedRequest sample_tunnel_request sample_decoy_env]
     [BidiStream 9 1, BidiStream 4 2] = (Some (Inr (Some \<lparr>hs_request = sample_tunnel_request, hs_stream = 2, hs_peer = [10, 0, 0, 9]\<rparr>)), [])"
  by (simp add: accept_connection_def is_tunnel_request_def sample_tunnel_request_def authority_matches_iff to_ascii_lowercase_def)

theorem h3_tunnel_requires_request_witness:
  "\<exists>received. rq_authority sample_tunnel_request = Some received \<and> BidiStream 4 2 \<in> set [BidiStream 9 1, BidiStream 4 2]"
  using h3_tunnel_requires_request [OF sample_connection] by (simp, blast)



text \<open>C40. The edge is bounded: after any arrivals and endings, the running connection tasks and the free permits are
  together 256, and every connection that was worked for or gave a session had its address validated before.\<close>

theorem edge_connections_bounded:
  "let s = foldl edge_serve edge_new es in
   pl_free (ed_pool s) + length (pl_running (ed_pool s)) = 256 \<and>
   set (pl_running (ed_pool s)) \<union> fst ` set (ed_sessions s) \<subseteq> {c. Incoming c True \<in> set es}"
proof -
  have "pool_inv max_h3_connections (ed_pool edge_new)" by (simp add: edge_new_def pool_inv_def)
  then have "pool_inv max_h3_connections (ed_pool (foldl edge_serve edge_new es))" by (rule edge.run_invar)
  then show ?thesis using edge_run_served [of es] by (simp add: pool_inv_def max_h3_connections_def edge_served_def Let_def)
qed

end
