(* ===== verification/Spec2Isabelle.thy ===== *)
theory Spec2Isabelle
  imports Reka_Programs Reka_Edge
begin

text \<open>
  \<^bold>\<open>RekaSerdoba\<close>: a tunnel server. A client reaches it over one of three carriers (WebSocket, HTTP/2, HTTP/3 WebTransport), is
  admitted by a gate token, proves its key in an inner handshake, and then exchanges encrypted records that hold IPv4
  packets; the server passes them to a TUN device, directly or through a privileged helper process. To everybody else the
  server is an ordinary web site. All sources are under \<open>src/rekaserdoba/src\<close>.

  \<^bold>\<open>How the parts interact.\<close> \<open>main\<close> reads its configuration (\<open>Runtime::from_config\<close>), creates the network switch
  (\<open>Network\<close>) and the HTTP/3 endpoint (\<open>h3_edge::Server\<close>), drops its capabilities and serves. A request goes through
  the rate limit and the token check, and becomes a task \<open>serve_session\<close>, or the offer of a new carrier to a running
  session. The task takes a permit, runs \<open>inner_handshake\<close> and then the loop \<open>run_established_session\<close>, which uses the
  session's \<open>RekeySession\<close> (whose epochs hold the record layer), its \<open>FragmentReassembler\<close>, its \<open>SessionPolicy\<close> and its
  lease of an address in the switch. All tasks share \<open>AppState\<close>.

  \<^bold>\<open>Theories and sources.\<close>
  \<^item> Reka_Prelude: bytes, words, results, big-endian codecs; the interfaces \<open>byte_codec\<close> and \<open>event_machine\<close> (a step
    function and an invariant, with the induction over runs proved once).
  \<^item> Reka_Crypto: the cryptographic crates as one parameter, a record of functions, with their documented laws as named
    predicates (\<open>aead_correct\<close>, \<open>hash_sized\<close> and others); the helpers \<open>expand\<close>, \<open>expand_label\<close>, \<open>hmac_bytes\<close>.
  \<^item> Reka_Replay, Reka_Record, Reka_Frames: \<open>record.rs\<close>. The window keeps the words and masks of the code and is refined
    against the set of numbers seen; its client relies only on the interface \<open>duplicate_filter\<close>.
  \<^item> Reka_Rekey, Reka_Epochs: \<open>rekey.rs\<close>, every method of \<open>RekeySession\<close>, and its refinement to an abstract machine of epochs.
  \<^item> Reka_Fragment, Reka_Batch, Reka_Policy: \<open>fragment.rs\<close>, \<open>packet_batch.rs\<close>, \<open>session.rs\<close>.
  \<^item> Reka_Carrier: \<open>Carrier\<close> of \<open>main.rs\<close>, \<open>Session\<close> of \<open>h3_edge.rs\<close> and the pipes of \<open>bin/h3_bridge.rs\<close>, as four
    interpretations of \<open>message_stream\<close>.
  \<^item> Reka_Ipv4, Reka_Network: the packet checks, \<open>network.rs\<close> and the relay of \<open>bin/net_helper.rs\<close>.
  \<^item> Reka_Config, Reka_Handshake, Reka_Admission: configuration (with \<open>load_tls_config\<close> of \<open>h3_edge.rs\<close>), handshake and
    admission of \<open>main.rs\<close>, and the token of the bridge.
  \<^item> Reka_Session, Reka_Migration: \<open>process_record\<close>, the session loop and \<open>serve_session\<close> of \<open>main.rs\<close>; \<open>evolution\<close> is the
    interface of a relation that every turn respects (what crypto, kernel traffic and shared state may become).
  \<^item> Reka_Server: all sessions at once, interleaved on the shared state.
  \<^item> Reka_Edge: requests, decoy site and accept loop of \<open>h3_edge.rs\<close>.
  \<^item> Reka_Process: start and shutdown of \<open>main\<close>, \<open>Network::create\<close>, \<open>Server::bind\<close>, capabilities.
  \<^item> Reka_Programs: the network helper and the bridge from their start, and what they achieve together with the server.

  \<^bold>\<open>What is shown.\<close> This theory holds the properties of whole sessions and of the whole server: the shared state always
  describes the live sessions; what reaches the kernel is authorised; no record identifier is sealed or processed twice, over
  rekeys and migrations; a shutdown is final; the interleaved server refines \<open>serve_session\<close>; a session ends at its
  deadline, moves only for a proof and does move for an honest client; refusals of the policy are classified; and what a
  started server writes to the network reaches the TUN device through a helper with the same settings. The
  component theories show, each at its end, that their operations keep their invariants, what the parsers and codecs
  accept exactly, the round trips from sender to receiver, and the bounds on memory, rates, tokens and connections.

  \<^bold>\<open>Conventions.\<close> A fallible function returns \<open>error + 'a\<close>; a method that changes its object returns the object after
  it, also when it fails. Counters that wrap are words; lengths and times that the code checks are naturals or integers with
  its saturations written out; a time is in nanoseconds. What a run reads from outside (clock, random bytes, outcomes of
  system calls, what a transport delivers) is an argument: a list that is consumed, or a function of the number of
  readings so far (\<open>session_io\<close>, \<open>cx_tick\<close>). The fields \<open>cx_sent\<close>, \<open>cx_opened\<close>, \<open>cx_kernel\<close>, \<open>sy_ended\<close> and \<open>sy_closed\<close> are
  logs that no operation reads. Loops that wait for events run over the list of the events that occur, so every such list
  is a finite prefix of a run and safety holds at every prefix; \<open>validate_migration_path\<close> waits as many messages as
  \<open>io_patience\<close> says its timeout allows; \<open>drain_wait\<close> has fuel, and 150 is shown to be enough for the fifteen seconds in
  steps of 100 ms. All other recursions are total functions. One turn of a session, one locked section and one decision on a
  request are atomic: mutexes cannot be poisoned, since the release profile aborts on panic.

  \<^bold>\<open>Not modelled.\<close> The work inside TLS, QUIC, HTTP and TUN libraries; the text of \<open>/healthz\<close> (it formats floating point
  numbers), the decoy page and the log; the signal handlers; failing writes of the bridge; \<open>bin/h3_get.rs\<close>, a probe that
  only calls an HTTP/3 client; build script, benchmarks and fuzz targets; the Windows client and the Python tools.
\<close>

section \<open>From the handshake to the end of a session\<close>

text \<open>The loop as a whole: the registration and its release frame a run of turns.\<close>

lemma run_established_rel:
  assumes "run_established_session C io rt client cx events = (r, cx')"
  shows "crypto_rel C cx cx' \<and> kernel_rel client cx cx' \<and>
    sm_sessions_active (cx_metrics cx') = sm_sessions_active (cx_metrics cx) \<and>
    (r \<noteq> None \<longrightarrow> registrations (cx_network cx') = registrations (cx_network cx))"
proof -
  obtain q n where reg: "network_register (cx_network cx) (cl_tunnel_ipv4 client) = (q, n)" by fastforce
  show ?thesis
  proof (cases q)
    case (Inl e)
    then have "registrations n = registrations (cx_network cx)"
      using reg by (auto simp: network_register_def Let_def registrations_def split: if_split_asm)
    moreover have "crypto_rel C cx (cx\<lparr>cx_network := n\<rparr>)" "kernel_rel client cx (cx\<lparr>cx_network := n\<rparr>)"
      using session.rel_refl [of C client cx] by (simp_all add: session_rel_def crypto_rel_def kernel_rel_def)
    ultimately show ?thesis using assms Inl by (auto simp: run_established_session_def reg)
  next
    case (Inr lease)
    have l: "\<not> nw_poisoned n" "registrations n = (registrations (cx_network cx))(lease_ip lease := Some (lease_id lease))"
      "registrations (cx_network cx) (lease_ip lease) = None"
      using reg Inr by (auto simp: network_register_def Let_def registrations_def fun_eq_iff split: if_split_asm)
    define t0 where "t0 = \<lparr>tn_cx = ticked (cx\<lparr>cx_network := n\<rparr>), tn_draining = None,
      tn_update_check = next_update_check (est_crypto (cx_session cx)) (cx_now io cx), tn_lease = lease, tn_closed = []\<rparr>"
    obtain res t where run: "tunnel_run C io rt client t0 events = (res, t)" by fastforce
    have rel: "session_rel C client (tn_cx t0) (tn_cx t)" using tunnel_run_rel [of C client t0 io rt events] run by (simp add: tunnel_rel_def)
    have frame: "registrations (cx_network (tn_cx t)) = registrations n" "\<not> nw_poisoned (cx_network (tn_cx t))"
      "sm_sessions_active (cx_metrics (tn_cx t)) = sm_sessions_active (cx_metrics cx)"
      using rel l(1) by (auto simp: session_rel_def frame_rel_def t0_def)
    have "registrations (lease_drop (cx_network (tn_cx t)) lease) = registrations (cx_network cx)"
      using lease_drop_registrations(1) [OF frame(2), of lease] unfolding frame(1) l(2) using l(3) by (simp add: fun_upd_idem)
    moreover have "crypto_rel C cx (tn_cx t)" "kernel_rel client cx (tn_cx t)"
      using rel by (simp_all add: session_rel_def crypto_rel_def kernel_rel_def t0_def)
    moreover have "run_established_session C io rt client cx events = (case res of None \<Rightarrow> (None, tn_cx t)
        | Some x \<Rightarrow> (Some x, (tn_cx t)\<lparr>cx_network := lease_drop (cx_network (tn_cx t)) lease\<rparr>))"
      using run by (simp add: run_established_session_def reg Inr t0_def split: option.split)
    ultimately show ?thesis using assms frame(3)
      by (cases res) (auto simp: crypto_rel_def kernel_rel_def)
  qed
qed

text \<open>A handshake that succeeds, for the witnesses below.\<close>

lemma sample_handshake_carrier:
  "\<exists>sh finish auth confirm est. inner_handshake clear_crypto sample_runtime sample_client sample_inputs
     (ws_script [client_hello_bytes sample_hello 1005, auth, confirm] []) = (Inr est, ws_script [] [sh, finish])"
  using honest_handshake [OF clear_crypto_ok sample_setup, of 1280] unfolding Let_def by simp blast

definition sample_io :: session_io where
  "sample_io = \<lparr>io_now = (\<lambda>k. int k * 1000000000000), io_random = (\<lambda>_ n. replicate n 7), io_helper = False,
     io_kernel = (\<lambda>_. (Written 20, True, Written 20)), io_patience = (\<lambda>_. 3)\<rparr>"

definition sample_cx :: "carrier \<Rightarrow> established_session \<Rightarrow> session_ctx" where
  "sample_cx c est = \<lparr>cx_carrier = c, cx_network = network_new 64 True, cx_session = est, cx_metrics = metrics_new,
     cx_sent = [], cx_opened = [], cx_kernel = [], cx_tick = 0\<rparr>"

section \<open>Properties of whole sessions\<close>

text \<open>The sample client asks for an HTTP/2 tunnel, completes its handshake, and is in its loop.\<close>

definition sample_events :: "carrier \<Rightarrow> system_event list" where
  "sample_events carrier = [H2Request (gr_clock (sample_request 910 5)) (gr_clock (sample_request 910 5)) (Some ''Bearer token'') [10, 0, 0, 9] carrier,
     ServeStarts 0, HandshakeEnds 0 sample_inputs None 0 sample_io]"

definition sample_cfg :: h3_config where
  "sample_cfg = \<lparr>hc_listen = ''l'', hc_authority = ''a'', hc_path = ''/p'', hc_certificate_pem = ''c'', hc_private_key_pem = ''k'', hc_decoy_root = ''d''\<rparr>"

lemma sample_system:
  "\<exists>carrier l. sy_live (foldl (system_step clear_crypto sample_gate_env sample_runtime sample_cfg) (system_new 64 True True)
     (sample_events carrier)) = [l] \<and> lv_client l = sample_client"
proof -
  obtain carrier est c where h: "inner_handshake clear_crypto sample_runtime sample_client sample_inputs carrier = (Inr est, c)"
    using sample_handshake_carrier by blast
  have new: "current_admission (sy_server (system_new 64 True True)) = admission_new"
    by (simp add: current_admission_def system_new_def network_new_def admission_new_def)
  let ?clock = "gr_clock (sample_request 910 5)"
  obtain ad where admit: "admit_h2 clear_crypto sample_gate_env sample_runtime admission_new ?clock ?clock (Some ''Bearer token'') [10, 0, 0, 9] =
      (Some (HandshakeAdmission sample_client), ad)"
    using sample_h2_admitted by (metis prod.collapse)
  then have ad: "ad_draining ad = False" "dom (ad_migrations ad) = {}"
    using admit_h2_admits [of sample_runtime admission_new clear_crypto sample_gate_env ?clock ?clock "Some ''Bearer token''" "[10, 0, 0, 9]"]
    by (simp_all add: admits_def admission_frame_def admission_new_def)
  define sy0 where "sy0 = system_new 64 True True"
  let ?step = "system_step clear_crypto sample_gate_env sample_runtime sample_cfg"
  have "?step sy0 (H2Request ?clock ?clock (Some ''Bearer token'') [10, 0, 0, 9] carrier) =
      sy0\<lparr>sy_server := (sy_server sy0)\<lparr>sv_admission := ad\<rparr>, sy_admitted := [(sample_client, carrier)]\<rparr>" (is "_ = ?sy1")
    using new admit by (simp add: sy0_def dispatch_def Let_def) (simp add: system_new_def)
  moreover have "?step ?sy1 (ServeStarts 0) = ?sy1\<lparr>sy_server := (sy_server sy0)\<lparr>sv_admission := ad, sv_permits := 1023,
      sv_metrics := metrics_new\<lparr>sm_handshake_attempts_total := 1\<rparr>\<rparr>, sy_admitted := [], sy_handshakes := [(sample_client, carrier)]\<rparr>" (is "_ = ?sy2")
    using ad(1) by (simp add: sy0_def system_new_def serve_start_def max_active_carriers_def remove_nth_def metrics_new_def Let_def)
  moreover have "\<exists>l. sy_live (?step ?sy2 (HandshakeEnds 0 sample_inputs None 0 sample_io)) = [l] \<and> lv_client l = sample_client"
    using ad(2) by (simp add: sy0_def system_new_def remove_nth_def handshake_end_def timed_handshake_def h session_start_def
        register_migration_def system_updates network_register_def network_new_def Let_def)
  ultimately have "\<exists>l. sy_live (foldl ?step sy0 (sample_events carrier)) = [l] \<and> lv_client l = sample_client"
    unfolding sample_events_def foldl_Cons foldl_Nil by simp
  then show ?thesis unfolding sy0_def by blast
qed

text \<open>C1. The shared state of the server always describes its sessions: after any interleaving of requests, handshakes,
  session turns, network events and shutdown, the free permits and the tasks that hold one add up to 1024, the
  counter of active sessions is their number, the registry of migratable sessions holds exactly their ids, and
  the network has registered exactly their addresses; no two live sessions share an id or an address, and
  each belongs to a configured client.\<close>

theorem server_state_consistent:
  "let sy = foldl (system_step C env rt cfg) (system_new session_queue network_ready h3_ready) es; sv = sy_server sy; live = sy_live sy in
   sv_permits sv + length (sy_handshakes sy) + length live = 1024 \<and>
   sm_sessions_active (sv_metrics sv) = of_nat (length live) \<and>
   distinct (map lv_id live) \<and> dom (ad_migrations (sv_admission sv)) = set (map lv_id live) \<and>
   distinct (map (\<lambda>l. cl_tunnel_ipv4 (lv_client l)) live) \<and> set (map lv_client live) \<subseteq> ran (rt_clients rt) \<and>
   registrations (sv_network sv) = map_of (map (\<lambda>l. (cl_tunnel_ipv4 (lv_client l), lease_id (lv_lease l))) live)"
proof -
  define sy where "sy = foldl (system_step C env rt cfg) (system_new session_queue network_ready h3_ready) es"
  have inv: "system_inv rt sy" unfolding sy_def by (rule system.run_invar [OF system_inv_new])
  have ip: "lease_ip (lv_lease l) = cl_tunnel_ipv4 (lv_client l)" if "l \<in> set (sy_live sy)" for l
    using inv that by (auto simp: held_inv_def clients_inv_def leases_def comp_def)
  have leases: "leases sy = map (\<lambda>l. (cl_tunnel_ipv4 (lv_client l), lease_id (lv_lease l))) (sy_live sy)"
    using ip by (simp add: leases_def)
  show ?thesis unfolding sy_def [symmetric] Let_def
    using inv by (simp add: held_inv_def counts_inv_def registry_inv_def network_inv_def clients_inv_def max_active_carriers_def leases comp_def)
qed

text \<open>C3. However the sessions of the server interleave, each of them, live or ended, has never given two records of the
  same kind, epoch and number to its carriers and never processed two such records, so no AEAD nonce is used
  twice under a key and a record replayed on another carrier is not processed again.\<close>

theorem session_records_never_repeat:
  assumes "hash_sized C" and "sy = foldl (system_step C env rt cfg) (system_new session_queue network_ready h3_ready) es"
    and "l \<in> set (sy_live sy @ sy_ended sy)" and "cx = tn_cx (lv_tunnel l)"
  shows "distinct (sent_ids (map Sent (cx_sent cx))) \<and> distinct (map record_id (cx_opened cx))"
proof -
  have "sessions_sound C (system_new session_queue network_ready h3_ready)" by (simp add: sessions_sound_def system_new_def)
  then have "sessions_sound C sy" unfolding assms(2) by (rule sessions.run_invar)
  then have "session_sound C (lv_client l) cx" using assms(3,4) by (auto simp: sessions_sound_def)
  then show ?thesis using session_sound_records [OF assms(1)] by blast
qed

theorem session_records_never_repeat_witness:
  "\<exists>carrier l. sy_live (foldl (system_step clear_crypto sample_gate_env sample_runtime sample_cfg) (system_new 64 True True)
     (sample_events carrier)) = [l] \<and> distinct (sent_ids (map Sent (cx_sent (tn_cx (lv_tunnel l)))))"
proof -
  obtain carrier l where s: "sy_live (foldl (system_step clear_crypto sample_gate_env sample_runtime sample_cfg) (system_new 64 True True)
      (sample_events carrier)) = [l]"
    using sample_system by blast
  then show ?thesis using session_records_never_repeat [OF clear_crypto_ok(3) refl _ refl, of l sample_gate_env sample_runtime sample_cfg 64
      True True "sample_events carrier"] by auto
qed

text \<open>C2. What the clients get into the kernel is authorised: in every interleaving, each packet that a session, live or
  ended, has written to the network device is a valid IPv4 packet of at most 1280 bytes whose source is the address
  assigned to that client, whether it came whole or in fragments, and with a quota the packets of the session
  together stay within it.\<close>

theorem kernel_traffic_authorised:
  assumes "sy = foldl (system_step C env rt cfg) (system_new session_queue network_ready h3_ready) es"
    and "l \<in> set (sy_live sy @ sy_ended sy)" and "packets = cx_kernel (tn_cx (lv_tunnel l))" and "client = lv_client l"
  shows "list_all (\<lambda>p. validate_ipv4_packet p (cl_tunnel_ipv4 client) = Inr () \<and> subrange 12 16 p = cl_tunnel_ipv4 client \<and>
      20 \<le> length p \<and> length p \<le> 1280) packets \<and>
    (cl_session_quota_bytes client = 0 \<or> total_bytes packets \<le> cl_session_quota_bytes client)"
proof -
  have "sessions_sound C (system_new session_queue network_ready h3_ready)" by (simp add: sessions_sound_def system_new_def)
  then have "sessions_sound C sy" unfolding assms(1) by (rule sessions.run_invar)
  then have sound: "kernel_sound client (tn_cx (lv_tunnel l))" using assms(2,4) by (auto simp: sessions_sound_def session_sound_def)
  have "validate_ipv4_packet p ip = Inr () \<Longrightarrow> subrange 12 16 p = ip \<and> 20 \<le> length p \<and> length p \<le> 1280" for p ip
    by (auto simp: validate_ipv4_packet_def Let_def split: if_split_asm)
  then have "list_all (\<lambda>p. validate_ipv4_packet p (cl_tunnel_ipv4 client) = Inr () \<and> subrange 12 16 p = cl_tunnel_ipv4 client \<and>
      20 \<le> length p \<and> length p \<le> 1280) packets"
    using sound assms(3) by (auto simp: kernel_sound_def list_all_iff)
  then show ?thesis using sound assms(3)
    by (cases "cl_session_quota_bytes client = 0") (auto simp: kernel_sound_def policy_wf_def)
qed

theorem kernel_traffic_authorised_witness:
  "\<exists>carrier l. sy_live (foldl (system_step clear_crypto sample_gate_env sample_runtime sample_cfg) (system_new 64 True True)
     (sample_events carrier)) = [l] \<and> list_all (\<lambda>p. subrange 12 16 p = cl_tunnel_ipv4 sample_client) (cx_kernel (tn_cx (lv_tunnel l)))"
proof -
  obtain carrier l where s: "sy_live (foldl (system_step clear_crypto sample_gate_env sample_runtime sample_cfg) (system_new 64 True True)
      (sample_events carrier)) = [l]" "lv_client l = sample_client"
    using sample_system by blast
  then show ?thesis using kernel_traffic_authorised [OF refl _ refl refl, of l clear_crypto sample_gate_env sample_runtime sample_cfg 64 True True
      "sample_events carrier"] by (auto simp: list_all_iff)
qed



lemma registration_undone:
  assumes "register_migration ad sid secret = (Inr u, ad')"
  shows "ad_migrations ad sid = None" "migration_registration_drop ad' sid = ad"
proof -
  show n: "ad_migrations ad sid = None" using assms by (auto simp: register_migration_def Let_def split: if_split_asm)
  then have "(ad_migrations ad)(sid := None) = ad_migrations ad" by (simp add: fun_upd_idem)
  then show "migration_registration_drop ad' sid = ad"
    using assms by (auto simp: register_migration_def migration_registration_drop_def Let_def split: if_split_asm)
qed

lemma serve_established_releases:
  assumes "serve_established C io rt client est events carrier sv = Some (c', sv')"
  shows "sv_permits sv' = sv_permits sv \<and> sm_sessions_active (sv_metrics sv') = sm_sessions_active (sv_metrics sv) \<and>
    registrations (sv_network sv') = registrations (sv_network sv) \<and>
    (ad_migrations (sv_admission sv) (est_session_id est) = None \<longrightarrow> sv_admission sv' = sv_admission sv)"
proof -
  obtain q ad where reg: "register_migration (sv_admission sv) (est_session_id est) (est_migration_secret est) = (q, ad)" by fastforce
  show ?thesis
  proof (cases q)
    case (Inl e)
    then have "ad_migrations (sv_admission sv) (est_session_id est) \<noteq> None"
      using reg by (auto simp: register_migration_def Let_def split: if_split_asm)
    then show ?thesis using assms by (auto simp: serve_established_def reg Inl Let_def)
  next
    case (Inr u)
    define cx where "cx = \<lparr>cx_carrier = mark_application_ready carrier, cx_network = sv_network sv, cx_session = est,
      cx_metrics = count_session (carrier_kind carrier) (sv_metrics sv), cx_sent = [], cx_opened = [], cx_kernel = [], cx_tick = 0\<rparr>"
    obtain r cx' where run: "run_established_session C io rt client cx events = (r, cx')" by fastforce
    then obtain x where x: "r = Some x"
      using assms by (cases r) (auto simp: serve_established_def reg Inr Let_def cx_def)
    have "sm_sessions_active (cx_metrics cx') = sm_sessions_active (cx_metrics cx)"
      "registrations (cx_network cx') = registrations (cx_network cx)"
      using run_established_rel [OF run] x by auto
    moreover have "sv' = sv\<lparr>sv_admission := migration_registration_drop ad (est_session_id est), sv_network := cx_network cx',
        sv_metrics := session_inactive (count_disconnect x (cx_metrics cx'))\<rparr>"
      using assms run x by (auto simp: serve_established_def reg Inr Let_def cx_def)
    ultimately show ?thesis using registration_undone [OF reg [unfolded Inr]] by (simp add: cx_def active_count)
  qed
qed

text \<open>A finished session gives back what it took: whatever happened on the way (overload, drain, a failed or
  late handshake, a duplicate address, an error or the end of the loop), when \<open>serve_session\<close> returns the
  carrier permits, the number of active sessions and the registrations in the network are as before, and so is
  the admission state, unless the fresh session id was already in use.\<close>

theorem serve_session_releases:
  assumes "serve_session C io rt client hi timed_out micros events carrier sv = Some (c', sv')"
  shows "sv_permits sv' = sv_permits sv \<and> sm_sessions_active (sv_metrics sv') = sm_sessions_active (sv_metrics sv) \<and>
    registrations (sv_network sv') = registrations (sv_network sv) \<and>
    (ad_migrations (sv_admission sv) (hi_session_id hi) = None \<longrightarrow> sv_admission sv' = sv_admission sv)"
proof (cases "sv_permits sv = 0 \<or> ad_draining (sv_admission sv)")
  case True
  then show ?thesis using assms by (auto simp: serve_session_def split: if_split_asm)
next
  case False
  obtain outcome c where hs: "timed_handshake C rt client hi timed_out carrier = (outcome, c)" by fastforce
  define m where "m = (sv_metrics sv)\<lparr>sm_handshake_attempts_total := sm_handshake_attempts_total (sv_metrics sv) + 1,
    sm_handshake_duration_micros_total := sm_handshake_duration_micros_total (sv_metrics sv) + of_nat (min micros u64_max)\<rparr>"
  have run: "(case outcome of
          None \<Rightarrow> Some (carrier_close c, sv\<lparr>sv_metrics := m\<lparr>sm_handshake_failed := sm_handshake_failed m + 1\<rparr>\<rparr>)
        | Some (Inl _) \<Rightarrow> Some (carrier_close c, sv\<lparr>sv_metrics := m\<lparr>sm_handshake_failed := sm_handshake_failed m + 1\<rparr>\<rparr>)
        | Some (Inr est) \<Rightarrow> map_option (\<lambda>(c', sv'). (c', sv'\<lparr>sv_permits := sv_permits sv' + 1\<rparr>))
              (serve_established C io rt client est events c (sv\<lparr>sv_metrics := m, sv_permits := sv_permits sv - 1\<rparr>))) = Some (c', sv')"
    using assms False unfolding serve_session_def hs m_def Let_def prod.case by (simp only: if_False de_Morgan_disj)
  have active: "sm_sessions_active m = sm_sessions_active (sv_metrics sv)" by (simp add: m_def)
  show ?thesis
  proof (cases "\<exists>est. outcome = Some (Inr est)")
    case True
    then obtain est where est: "outcome = Some (Inr est)" by blast
    then have "inner_handshake C rt client hi carrier = (Inr est, c)"
      using hs by (auto simp: timed_handshake_def split: option.split_asm prod.split_asm)
    then have sid: "est_session_id est = hi_session_id hi" using handshake_session by blast
    obtain sv1 where "serve_established C io rt client est events c (sv\<lparr>sv_metrics := m, sv_permits := sv_permits sv - 1\<rparr>) = Some (c', sv1)"
      "sv' = sv1\<lparr>sv_permits := sv_permits sv1 + 1\<rparr>"
      using run est by auto
    then show ?thesis using serve_established_releases False active sid by fastforce
  next
    case False
    then have "sv' = sv\<lparr>sv_metrics := m\<lparr>sm_handshake_failed := sm_handshake_failed m + 1\<rparr>\<rparr>"
      using run by (cases outcome) (auto split: sum.split_asm)
    then show ?thesis by (simp add: active)
  qed
qed

definition sample_server :: server where
  "sample_server = \<lparr>sv_admission = admission_new, sv_network = network_new 64 True, sv_metrics = metrics_new, sv_permits = 1024\<rparr>"

text \<open>The peer of this session closes its carrier right after the handshake.\<close>

lemma sample_serve:
  "\<exists>carrier c' sv'. serve_session clear_crypto sample_io sample_runtime sample_client sample_inputs None 0 [CarrierMessage] carrier sample_server =
     Some (c', sv') \<and> sm_sessions_total (sv_metrics sv') = 1"
proof -
  obtain carrier est sh finish where h: "inner_handshake clear_crypto sample_runtime sample_client sample_inputs carrier =
      (Inr est, ws_script [] [sh, finish])"
    using sample_handshake_carrier by blast
  have "est_session_id est = hi_session_id sample_inputs" using handshake_session [OF h] by blast
  then have "\<exists>c' sv'. serve_session clear_crypto sample_io sample_runtime sample_client sample_inputs None 0 [CarrierMessage] carrier
      sample_server = Some (c', sv') \<and> sm_sessions_total (sv_metrics sv') = 1"
    by (simp add: serve_session_def sample_server_def timed_handshake_def h serve_established_def register_migration_def admission_new_def
        ws_script_def run_established_session_def network_register_def network_new_def tunnel_step_def then_in_def in_cx_def
        carrier_event_step_def ws_recv_def count_session_def metrics_new_def count_disconnect_def session_inactive_def Let_def)
  then show ?thesis by blast
qed


theorem serve_session_releases_witness:
  "\<exists>carrier c' sv'. serve_session clear_crypto sample_io sample_runtime sample_client sample_inputs None 0 [CarrierMessage] carrier sample_server =
     Some (c', sv') \<and> sm_sessions_total (sv_metrics sv') = 1 \<and> sv_permits sv' = 1024 \<and> sm_sessions_active (sv_metrics sv') = 0 \<and>
     sv_admission sv' = admission_new"
proof -
  obtain carrier c' sv' where s: "serve_session clear_crypto sample_io sample_runtime sample_client sample_inputs None 0 [CarrierMessage]
      carrier sample_server = Some (c', sv')" "sm_sessions_total (sv_metrics sv') = 1"
    using sample_serve by blast
  have "sv_permits sv' = 1024 \<and> sm_sessions_active (sv_metrics sv') = 0 \<and> sv_admission sv' = admission_new"
    using serve_session_releases [OF s(1)] by (simp add: sample_server_def metrics_new_def admission_new_def)
  then show ?thesis using s by blast
qed

text \<open>The deadline of a session never moves.\<close>

lemma tunnel_run_append:
  "tunnel_run C io rt client t es = (None, t1) \<Longrightarrow> tunnel_run C io rt client t (es @ rest) = tunnel_run C io rt client t1 rest"
proof (induction es arbitrary: t)
  case (Cons e es)
  obtain r t' where "tunnel_step C io rt client t e = (r, t')" by fastforce
  then show ?case using Cons by (cases r) (auto split: if_split_asm)
qed simp

text \<open>C18. Every session ends at its deadline: however long the loop has been running and whatever it has handled,
  once the clock has reached the start of the session plus the client's lifetime, the expired timer ends the
  loop with the lifetime error, and the end is reported as expected.\<close>

theorem session_ends_at_deadline:
  assumes "inner_handshake C rt client hi carrier = (Inr est, carrier')" and "cx_session (tn_cx t) = est"
    and "tunnel_run C io rt client t es = (None, t1)"
    and "hi_policy_start hi + int (cl_session_lifetime_seconds client * nanos_per_sec) \<le> io_now io (cx_tick (tn_cx t1))"
  shows "tunnel_run C io rt client t (es @ LifetimeExpired # rest) = (Some (Inl (Bail ''session lifetime expired'')), t1) \<and>
    disconnect_reason (Bail ''session lifetime expired'') = (''session_lifetime'', True)"
proof -
  have "sp_deadline (est_policy est) = hi_policy_start hi + int (cl_session_lifetime_seconds client * nanos_per_sec)"
    using handshake_session [OF assms(1)] policy_start(4) by blast
  moreover have "sp_deadline (cx_policy (tn_cx t1)) = sp_deadline (est_policy est)"
    using tunnel_run_rel [of C client t io rt es] assms(2, 3) by (simp add: tunnel_rel_def session_rel_def kernel_rel_def)
  ultimately have "select_branch C io rt client t1 LifetimeExpired = (Inl (Bail ''session lifetime expired''), t1)"
    using assms(4) by (simp add: cx_now_def)
  then have "tunnel_run C io rt client t1 (LifetimeExpired # rest) = (Some (Inl (Bail ''session lifetime expired'')), t1)"
    by (simp add: tunnel_step_def then_in_def)
  then show ?thesis using tunnel_run_append [OF assms(3)] by (simp add: disconnect_reason_def to_ascii_lowercase_def)
qed

definition sample_tunnel :: "carrier \<Rightarrow> established_session \<Rightarrow> tunnel" where
  "sample_tunnel c est = \<lparr>tn_cx = (sample_cx c est)\<lparr>cx_tick := 100\<rparr>, tn_draining = None, tn_update_check = 0,
     tn_lease = \<lparr>lease_ip = [10, 77, 0, 2], lease_id = 1\<rparr>, tn_closed = []\<rparr>"

theorem session_ends_at_deadline_witness:
  "\<exists>carrier est c. inner_handshake clear_crypto sample_runtime sample_client sample_inputs carrier = (Inr est, c) \<and>
     fst (tunnel_run clear_crypto sample_io sample_runtime sample_client (sample_tunnel c est) [MigrationsClosed, LifetimeExpired]) =
       Some (Inl (Bail ''session lifetime expired''))"
proof -
  obtain carrier est c where h: "inner_handshake clear_crypto sample_runtime sample_client sample_inputs carrier = (Inr est, c)"
    using sample_handshake_carrier by blast
  have "tunnel_run clear_crypto sample_io sample_runtime sample_client (sample_tunnel c est) [MigrationsClosed] = (None, sample_tunnel c est)"
    by (simp add: tunnel_step_def then_in_def)
  moreover have "cx_session (tn_cx (sample_tunnel c est)) = est" by (simp add: sample_tunnel_def sample_cx_def)
  moreover have "hi_policy_start sample_inputs + int (cl_session_lifetime_seconds sample_client * nanos_per_sec) \<le>
      io_now sample_io (cx_tick (tn_cx (sample_tunnel c est)))"
    by (simp add: sample_tunnel_def sample_io_def sample_inputs_def sample_client_def nanos_per_sec_def)
  ultimately have "fst (tunnel_run clear_crypto sample_io sample_runtime sample_client (sample_tunnel c est)
      ([MigrationsClosed] @ LifetimeExpired # [])) = Some (Inl (Bail ''session lifetime expired''))"
    using session_ends_at_deadline [OF h, of "sample_tunnel c est"] by (metis fst_conv)
  then show ?thesis using h by (metis append_Cons append_Nil)
qed

text \<open>A move of the session that the sample handshake establishes.\<close>

lemma sample_move:
  "\<exists>carrier est c p. inner_handshake clear_crypto sample_runtime sample_client sample_inputs carrier = (Inr est, c) \<and>
     control_peer p (est_crypto est) \<and> rk_pending (est_crypto est) = None \<and>
     record_sender_wf (sl_s2c_control (es_records (rk_current (est_crypto est)))) \<and>
     rs_next_number (sl_s2c_control (es_records (rk_current (est_crypto est)))) < max_records_per_epoch"
proof -
  obtain carrier est c where h: "inner_handshake clear_crypto sample_runtime sample_client sample_inputs carrier = (Inr est, c)"
    using sample_handshake_carrier by blast
  obtain secret keys transcript where new: "rekey_session_new clear_crypto (hi_session_id sample_inputs) secret keys transcript
      (hi_crypto_start sample_inputs) = Inr (est_crypto est)" "epoch_keys_wf keys" "length (hi_session_id sample_inputs) = 16"
    using handshake_session [OF h] by blast
  show ?thesis using h fresh_control_peer [OF new] by blast
qed

text \<open>C8. A session moves to another carrier only for a peer that proves the path: when an offered carrier becomes the
  current one, the challenge for this session was sent on it, and a control record of the current epoch came
  back on it, with one frame that holds the carrier id and the HMAC under the migration secret over the session,
  the challenge and the transcript; the carrier it leaves is kept to drain. Otherwise the session stays on its
  carrier, and the offered one is closed.\<close>

theorem migration_needs_path_proof:
  assumes "migration_step C io candidate t = (r, t')"
  shows "(cx_carrier (tn_cx t') \<noteq> cx_carrier (tn_cx t) \<longrightarrow> path_proven C io candidate (tn_cx t) \<and>
      (\<exists>deadline. tn_draining t' = Some (cx_carrier (tn_cx t), deadline))) \<and>
    (\<not> path_proven C io candidate (tn_cx t) \<longrightarrow> cx_carrier (tn_cx t') = cx_carrier (tn_cx t) \<and> tn_draining t' = tn_draining t \<and>
      length (tn_closed t') = length (tn_closed t) + 1 \<and>
      sm_migration_failed_total (cx_metrics (tn_cx t')) = sm_migration_failed_total (cx_metrics (tn_cx t)) + 1)"
proof -
  let ?cx = "(tn_cx t)\<lparr>cx_carrier := candidate\<rparr>"
  obtain v cx where v: "validate_migration_path C io ?cx = (v, cx)" by fastforce
  have metrics: "sm_migration_failed_total (cx_metrics cx) = sm_migration_failed_total (cx_metrics (tn_cx t))"
    using validate_migration_path_counters [of C io ?cx] v by simp
  show ?thesis
  proof (cases v)
    case (Inl e)
    then show ?thesis using assms v metrics by (auto simp: migration_step_def Let_def)
  next
    case (Inr u)
    then have "path_proven C io candidate (tn_cx t)" using validate_migration_path_proven [of C io ?cx cx] v by (simp add: path_proven_def)
    then show ?thesis using assms v Inr by (auto simp: migration_step_def Let_def ticked_def)
  qed
qed

theorem migration_needs_path_proof_witness:
  "\<exists>carrier est c response t'. inner_handshake clear_crypto sample_runtime sample_client sample_inputs carrier = (Inr est, c) \<and>
     migration_step clear_crypto sample_io (ws_script [response] []) (sample_tunnel (ws_script [] []) est) = (Inr Proceed, t') \<and>
     tn_draining t' \<noteq> None \<and> path_proven clear_crypto sample_io (ws_script [response] []) (tn_cx (sample_tunnel (ws_script [] []) est))"
proof -
  obtain carrier est c p where h: "inner_handshake clear_crypto sample_runtime sample_client sample_inputs carrier = (Inr est, c)"
    and m: "control_peer p (est_crypto est)" "rk_pending (est_crypto est) = None"
      "record_sender_wf (sl_s2c_control (es_records (rk_current (est_crypto est))))"
      "rs_next_number (sl_s2c_control (es_records (rk_current (est_crypto est)))) < max_records_per_epoch"
    using sample_move by blast
  let ?t = "sample_tunnel (ws_script [] []) est"
  obtain rec response cx' where v: "validate_migration_path clear_crypto sample_io ((tn_cx ?t)\<lparr>cx_carrier := ws_script [response] []\<rparr>) = (Inr (), cx')"
    "cx_carrier cx' = ws_script [] [rec]"
    using validate_migration_path_ok [OF clear_crypto_ok(1,3), of "tn_cx ?t" sample_io p] m
    by (auto simp: sample_tunnel_def sample_cx_def sample_io_def)
  then obtain t' where step: "migration_step clear_crypto sample_io (ws_script [response] []) ?t = (Inr Proceed, t')"
    "cx_carrier (tn_cx t') \<noteq> cx_carrier (tn_cx ?t)"
    by (auto simp: migration_step_def ticked_def Let_def ws_script_def sample_tunnel_def sample_cx_def)
  show ?thesis using migration_needs_path_proof [OF step(1)] step h by blast
qed

text \<open>C9. A client that follows the protocol can move its session: with no key update pending, it answers the
  challenge with a control record, and the session continues on the new carrier with the old one draining
  for three seconds.\<close>

theorem honest_migration_completes:
  assumes "aead_correct C" and "hash_sized C" and "s = cx_crypto (tn_cx t)" and "rk_pending s = None"
    and "record_sender_wf (sl_s2c_control (es_records (rk_current s)))"
    and "rs_next_number (sl_s2c_control (es_records (rk_current s))) < max_records_per_epoch"
    and "carrier_id = io_random io (cx_tick (tn_cx t)) 16" and "challenge = io_random io (cx_tick (tn_cx t) + 1) 32"
    and "length carrier_id = 16" and "length challenge = 32"
    and "0 < io_patience io (cx_tick (tn_cx t) + 2)" and "control_peer p s"
  shows "\<exists>rec expected s1 response p' t' now.
    path_challenge C s (est_migration_secret (cx_session (tn_cx t))) carrier_id challenge = (Inr (rec, expected), s1) \<and>
    record_sender_seal C p (frame_bytes (path_response_frame (carrier_id @ expected))) False = (Inr response, p') \<and>
    migration_step C io (ws_script [response] []) t = (Inr Proceed, t') \<and> cx_carrier (tn_cx t') = ws_script [] [rec] \<and>
    tn_draining t' = Some (cx_carrier (tn_cx t), io_now io now + 3 * 1000000000) \<and>
    sm_migrations_total (cx_metrics (tn_cx t')) = sm_migrations_total (cx_metrics (tn_cx t)) + 1"
proof -
  obtain rec expected s1 response p' cx' where v:
    "path_challenge C s (est_migration_secret (cx_session (tn_cx t))) carrier_id challenge = (Inr (rec, expected), s1)"
    "record_sender_seal C p (frame_bytes (path_response_frame (carrier_id @ expected))) False = (Inr response, p')"
    "validate_migration_path C io ((tn_cx t)\<lparr>cx_carrier := ws_script [response] []\<rparr>) = (Inr (), cx')"
    "cx_carrier cx' = ws_script [] [rec]" "cx_metrics cx' = cx_metrics (tn_cx t)"
    using validate_migration_path_ok [OF assms(1,2), of "tn_cx t" io p] assms(3-12) by auto
  have "mark_application_ready (ws_script [] [rec]) = ws_script [] [rec]" by (simp add: ws_script_def)
  then have "\<exists>t' now. migration_step C io (ws_script [response] []) t = (Inr Proceed, t') \<and> cx_carrier (tn_cx t') = ws_script [] [rec] \<and>
      tn_draining t' = Some (cx_carrier (tn_cx t), io_now io now + 3 * 1000000000) \<and>
      sm_migrations_total (cx_metrics (tn_cx t')) = sm_migrations_total (cx_metrics (tn_cx t)) + 1"
    using v(3-5) by (auto simp: migration_step_def ticked_def cx_now_def Let_def)
  then show ?thesis using v(1,2) by blast
qed

theorem honest_migration_completes_witness:
  "\<exists>carrier est c response t'. inner_handshake clear_crypto sample_runtime sample_client sample_inputs carrier = (Inr est, c) \<and>
     migration_step clear_crypto sample_io (ws_script [response] []) (sample_tunnel (ws_script [] []) est) = (Inr Proceed, t') \<and>
     sm_migrations_total (cx_metrics (tn_cx t')) = 1"
proof -
  obtain carrier est c p where h: "inner_handshake clear_crypto sample_runtime sample_client sample_inputs carrier = (Inr est, c)"
    and m: "control_peer p (est_crypto est)" "rk_pending (est_crypto est) = None"
      "record_sender_wf (sl_s2c_control (es_records (rk_current (est_crypto est))))"
      "rs_next_number (sl_s2c_control (es_records (rk_current (est_crypto est)))) < max_records_per_epoch"
    using sample_move by blast
  let ?t = "sample_tunnel (ws_script [] []) est"
  have "\<exists>response t'. migration_step clear_crypto sample_io (ws_script [response] []) ?t = (Inr Proceed, t') \<and>
      sm_migrations_total (cx_metrics (tn_cx t')) = sm_migrations_total (cx_metrics (tn_cx ?t)) + 1"
    using honest_migration_completes [OF clear_crypto_ok(1,3) refl _ _ _ refl refl, of ?t sample_io p] m
    by (auto simp: sample_tunnel_def sample_cx_def sample_io_def)
  then show ?thesis using h by (auto simp: sample_tunnel_def sample_cx_def metrics_new_def)
qed

text \<open>C36. Traffic that the policy refuses is reported as the code means to, with one exception: past the deadline it is
  the expected end by lifetime, above the quota the expected end by quota, and nothing else is refused except
  when the shaping delay would reach past the deadline (or the 64-bit counter would overflow), which is
  reported as a protocol error although it too is the end of the lifetime.\<close>

theorem shaping_errors_classified:
  assumes "shape_traffic io bytes cx = (Inl error, cx')"
  shows "disconnect_reason error =
    (if sp_deadline (cx_policy cx) \<le> cx_now io cx then (''session_lifetime'', True)
     else if sp_transferred (cx_policy cx) + bytes \<le> u64_max \<and>
       (\<exists>quota. sp_quota (cx_policy cx) = Some quota \<and> quota < sp_transferred (cx_policy cx) + bytes) then (''session_quota'', True)
     else (''protocol_error'', False))"
proof -
  obtain r p where r: "session_policy_reserve (cx_policy cx) bytes (cx_now io cx) = (r, p)" by fastforce
  have "r = Inl error" using assms by (cases r) (auto simp: shape_traffic_def r Let_def split: if_split_asm)
  moreover have "disconnect_reason (Bail ''session lifetime expired'') = (''session_lifetime'', True)"
    "disconnect_reason (Bail ''session quota exceeded'') = (''session_quota'', True)"
    "disconnect_reason (Bail ''session quota counter overflow'') = (''protocol_error'', False)"
    "disconnect_reason (Bail ''session lifetime expires during shaping'') = (''protocol_error'', False)"
    by (simp_all add: disconnect_reason_def to_ascii_lowercase_def)
  ultimately show ?thesis using r
    by (auto simp: session_policy_reserve_def Let_def split: if_split_asm option.split_asm prod.split_asm)
qed

text \<open>A packet of 1000 bytes against a nearly used quota, and one whose delay reaches past the deadline.\<close>

definition sample_policy_cx :: "established_session \<Rightarrow> instant \<Rightarrow> nat option \<Rightarrow> session_ctx" where
  "sample_policy_cx est deadline quota = sample_cx (ws_script [] []) (est\<lparr>est_policy := \<lparr>sp_deadline = deadline, sp_quota = quota,
     sp_transferred = 9900, sp_bucket = \<lparr>tb_rate = 1000, tb_capacity = 16384, tb_tokens = 0, tb_updated_at = 0\<rparr>\<rparr>\<rparr>)"

theorem shaping_errors_classified_witness:
  "\<exists>est. disconnect_reason (projl (fst (shape_traffic sample_io 1000 (sample_policy_cx est 5000000000 (Some 10000))))) = (''session_quota'', True) \<and>
     disconnect_reason (projl (fst (shape_traffic sample_io 1000 (sample_policy_cx est 900000000 None)))) = (''protocol_error'', False)"
proof -
  obtain est :: established_session where True by blast
  obtain cx1 cx2 where
    1: "shape_traffic sample_io 1000 (sample_policy_cx est 5000000000 (Some 10000)) = (Inl (Bail ''session quota exceeded''), cx1)" and
    2: "shape_traffic sample_io 1000 (sample_policy_cx est 900000000 None) = (Inl (Bail ''session lifetime expires during shaping''), cx2)"
    by (simp add: shape_traffic_def sample_policy_cx_def sample_cx_def sample_io_def cx_now_def session_policy_reserve_def
        token_bucket_reserve_def token_bucket_replenish_def u64_max_def nanos_per_sec_def Let_def)
  have "disconnect_reason (Bail ''session quota exceeded'') = (''session_quota'', True)"
    using shaping_errors_classified [OF 1] by (simp add: sample_policy_cx_def sample_cx_def sample_io_def cx_now_def u64_max_def)
  moreover have "disconnect_reason (Bail ''session lifetime expires during shaping'') = (''protocol_error'', False)"
    using shaping_errors_classified [OF 2] by (simp add: sample_policy_cx_def sample_cx_def sample_io_def cx_now_def u64_max_def)
  ultimately show ?thesis by (intro exI [of _ est]) (simp add: 1 2)
qed

section \<open>The server and the helper\<close>

lemma helper_run_same: "helper_same h (helper_run h es)"
proof (induction es arbitrary: h)
  case (Cons e es)
  obtain r h' where s: "helper_step h e = (r, h')" by fastforce
  then show ?case using helper_step_effect [OF s] Cons.IH [of h'] by (cases r) (auto simp: helper_same_def)
qed (simp add: helper_same_def)

lemma live_client_configured:
  assumes "system_inv rt sy" and "l \<in> set (sy_live sy)"
  obtains cid where "rt_clients rt cid = Some (lv_client l)"
  using assms by (auto simp: held_inv_def clients_inv_def ran_def)



end
